(* ===== verification/Filum_Prelude.thy ===== *)
theory Filum_Prelude
  imports Main "HOL-Library.Word"
begin

text \<open>
  Shared vocabulary of the development: machine bytes, the result type of fallible Rust code
  (with a panic as a value of its own), state passing for code that draws randomness or does
  I/O, the slice primitives of the Rust standard library that the crate uses, big-endian
  integer encodings, and the generic facts on them that every component relies on.
\<close>

unbundle bit_operations_syntax

named_theorems outcome_simps \<open>unfolding of the sequencing combinators\<close>
named_theorems slice_simps \<open>evaluation of in-range slice operations\<close>

subsection \<open>Bytes and strings\<close>

type_synonym u8 = "8 word"
type_synonym u32 = "32 word"
type_synonym u64 = "64 word"
type_synonym bytes = "u8 list"

text \<open>
  A Rust \<open>&str\<close> is its UTF-8 byte sequence; a HOL \<open>char\<close> is one byte, so \<open>string\<close> covers
  every \<open>&str\<close> and \<open>length\<close> counts bytes, as \<open>str::len\<close> does.
\<close>

definition as_bytes :: "string \<Rightarrow> bytes" where
  "as_bytes s = map of_char s"

subsection \<open>Results, panics and sequencing\<close>

text \<open>
  \<open>Ok\<close> and \<open>Err\<close> are Rust's \<open>Result\<close>; \<open>Panic\<close> is an unwinding panic (a slice index out of
  range, a length mismatch in \<open>copy_from_slice\<close>, a failed \<open>unwrap\<close>). \<open>res_bind\<close> is the
  \<open>?\<close> operator followed by the rest of the function.
\<close>

datatype ('e, 'a) outcome = Ok 'a | Err 'e | Panic

definition res_bind ::
  "('e, 'a) outcome \<Rightarrow> ('a \<Rightarrow> ('e, 'b) outcome) \<Rightarrow> ('e, 'b) outcome" where
  "res_bind m f = (case m of Ok x \<Rightarrow> f x | Err e \<Rightarrow> Err e | Panic \<Rightarrow> Panic)"

definition map_err :: "('e \<Rightarrow> 'f) \<Rightarrow> ('e, 'a) outcome \<Rightarrow> ('f, 'a) outcome" where
  "map_err g m = (case m of Ok x \<Rightarrow> Ok x | Err e \<Rightarrow> Err (g e) | Panic \<Rightarrow> Panic)"

definition ok_or :: "'e \<Rightarrow> 'a option \<Rightarrow> ('e, 'a) outcome" where
  "ok_or e m = (case m of None \<Rightarrow> Err e | Some x \<Rightarrow> Ok x)"

text \<open>Code with an effect takes the state it works on and returns the new one.\<close>

type_synonym ('s, 'e, 'a) st = "'s \<Rightarrow> ('e, 'a) outcome \<times> 's"

definition st_bind :: "('s, 'e, 'a) st \<Rightarrow> ('a \<Rightarrow> ('s, 'e, 'b) st) \<Rightarrow> ('s, 'e, 'b) st" where
  "st_bind m f s =
     (case m s of (r, s') \<Rightarrow>
        (case r of Ok x \<Rightarrow> f x s' | Err e \<Rightarrow> (Err e, s') | Panic \<Rightarrow> (Panic, s')))"

definition st_lift :: "('e, 'a) outcome \<Rightarrow> ('s, 'e, 'a) st" where
  "st_lift m s = (m, s)"

definition st_map_err :: "('e \<Rightarrow> 'f) \<Rightarrow> ('s, 'e, 'a) st \<Rightarrow> ('s, 'f, 'a) st" where
  "st_map_err g m s = (case m s of (r, s') \<Rightarrow> (map_err g r, s'))"

subsection \<open>Slices\<close>

text \<open>
  \<open>xs[a..b]\<close>, \<open>xs[i]\<close>, \<open>dst.copy_from_slice(src)\<close>, \<open>dst[a..b].copy_from_slice(src)\<close> and
  \<open>xs.split_at(n)\<close> of the standard library: each panics exactly where Rust's does.
\<close>

definition slice :: "'a list \<Rightarrow> nat \<Rightarrow> nat \<Rightarrow> ('e, 'a list) outcome" where
  "slice xs a b = (if a \<le> b \<and> b \<le> length xs then Ok (take (b - a) (drop a xs)) else Panic)"

definition index :: "'a list \<Rightarrow> nat \<Rightarrow> ('e, 'a) outcome" where
  "index xs i = (if i < length xs then Ok (xs ! i) else Panic)"

definition copy_from_slice :: "'a list \<Rightarrow> 'a list \<Rightarrow> ('e, 'a list) outcome" where
  "copy_from_slice dst src = (if length dst = length src then Ok src else Panic)"

definition copy_into :: "'a list \<Rightarrow> nat \<Rightarrow> nat \<Rightarrow> 'a list \<Rightarrow> ('e, 'a list) outcome" where
  "copy_into dst a b src =
     (if a \<le> b \<and> b \<le> length dst \<and> length src = b - a
      then Ok (take a dst @ src @ drop b dst) else Panic)"

definition split_at :: "'a list \<Rightarrow> nat \<Rightarrow> ('e, 'a list \<times> 'a list) outcome" where
  "split_at xs n = (if n \<le> length xs then Ok (take n xs, drop n xs) else Panic)"

text \<open>
  \<open>slice::chunks(n)\<close>: consecutive pieces of \<open>n\<close> elements, the last one possibly shorter, none
  for the empty slice. A zero \<open>n\<close> panics in Rust; the crate only passes a positive constant.
\<close>

function chunks :: "nat \<Rightarrow> 'a list \<Rightarrow> 'a list list" where
  "chunks n xs = (if n = 0 \<or> xs = [] then [] else take n xs # chunks n (drop n xs))"
  by pat_completeness auto
termination
  by (relation "measure (\<lambda>(n, xs). length xs)") auto

declare chunks.simps [simp del]

subsection \<open>Big-endian integers\<close>

text \<open>\<open>uN::to_be_bytes\<close> (with \<open>n\<close> the number of bytes of the type) and \<open>uN::from_be_bytes\<close>.\<close>

definition to_be_bytes :: "nat \<Rightarrow> 'a::len word \<Rightarrow> bytes" where
  "to_be_bytes n w = map (\<lambda>i. ucast (drop_bit (8 * i) w)) (rev [0..<n])"

definition from_be_bytes :: "bytes \<Rightarrow> 'a::len word" where
  "from_be_bytes bs = foldl (\<lambda>a b. push_bit 8 a OR ucast b) 0 bs"

abbreviation u32_to_be_bytes :: "u32 \<Rightarrow> bytes" where
  "u32_to_be_bytes \<equiv> to_be_bytes 4"

text \<open>\<open>u32::try_from(len)\<close> for a \<open>usize\<close>.\<close>

definition u32_try_from :: "nat \<Rightarrow> u32 option" where
  "u32_try_from n = (if n < 2 ^ 32 then Some (word_of_nat n) else None)"

text \<open>
  \<open>u32::from_be_bytes(s.try_into().unwrap())\<close> on a slice: the conversion to \<open>[u8; 4]\<close> fails, and
  the \<open>unwrap\<close> panics, on any other length.
\<close>

definition u32_from_be_slice :: "bytes \<Rightarrow> ('e, u32) outcome" where
  "u32_from_be_slice bs = (if length bs = 4 then Ok (from_be_bytes bs) else Panic)"

subsection \<open>Facts on results\<close>

lemma res_bind_simps [simp, outcome_simps]:
  "res_bind (Ok x) f = f x"
  "res_bind (Err e) f = Err e"
  "res_bind Panic f = Panic"
  by (simp_all add: res_bind_def)

lemma res_bind_eq_Ok:
  "res_bind m f = Ok y \<longleftrightarrow> (\<exists>x. m = Ok x \<and> f x = Ok y)"
  by (cases m) auto

lemma res_bind_eq_Err:
  "res_bind m f = Err e \<longleftrightarrow> m = Err e \<or> (\<exists>x. m = Ok x \<and> f x = Err e)"
  by (cases m) auto

lemma res_bind_eq_Panic:
  "res_bind m f = Panic \<longleftrightarrow> m = Panic \<or> (\<exists>x. m = Ok x \<and> f x = Panic)"
  by (cases m) auto

lemma res_bind_cong [fundef_cong]:
  "m = m' \<Longrightarrow> (\<And>x. m' = Ok x \<Longrightarrow> f x = f' x) \<Longrightarrow> res_bind m f = res_bind m' f'"
  by (cases m') auto

lemma map_err_simps [simp, outcome_simps]:
  "map_err g (Ok x) = Ok x"
  "map_err g (Err e) = Err (g e)"
  "map_err g Panic = Panic"
  by (simp_all add: map_err_def)

lemma map_err_eq_Ok [simp]: "map_err g m = Ok x \<longleftrightarrow> m = Ok x"
  by (cases m) auto

lemma map_err_eq_Panic [simp]: "map_err g m = Panic \<longleftrightarrow> m = Panic"
  by (cases m) auto

lemma ok_or_simps [simp, outcome_simps]:
  "ok_or e (Some x) = Ok x"
  "ok_or e None = Err e"
  by (simp_all add: ok_or_def)

lemma ok_or_eq_Ok [simp]: "ok_or e m = Ok x \<longleftrightarrow> m = Some x"
  by (cases m) auto

lemma ok_or_not_Panic [simp]: "ok_or e m \<noteq> Panic"
  by (cases m) auto

lemma ok_or_eq_Err [simp]: "ok_or e m = Err e' \<longleftrightarrow> m = None \<and> e' = e"
  by (cases m) auto

lemma st_bind_lift [simp, outcome_simps]:
  "st_bind (st_lift m) f s =
     (case m of Ok x \<Rightarrow> f x s | Err e \<Rightarrow> (Err e, s) | Panic \<Rightarrow> (Panic, s))"
  by (cases m) (simp_all add: st_bind_def st_lift_def)

lemma st_bind_eq_Ok:
  "st_bind m f s = (Ok y, t) \<longleftrightarrow> (\<exists>x u. m s = (Ok x, u) \<and> f x u = (Ok y, t))"
  by (auto simp: st_bind_def split: prod.splits outcome.splits)

lemma st_bind_Ok: "m s = (Ok x, u) \<Longrightarrow> st_bind m f s = f x u"
  by (simp add: st_bind_def)

lemma st_bind_Err: "m s = (Err e, u) \<Longrightarrow> st_bind m f s = (Err e, u)"
  by (simp add: st_bind_def)

lemma st_lift_apply [simp]: "st_lift m s = (m, s)"
  by (simp add: st_lift_def)

lemma st_map_err_apply: "st_map_err g m s = (map_err g (fst (m s)), snd (m s))"
  by (simp add: st_map_err_def split: prod.split)

subsection \<open>Facts on slices\<close>

lemma slice_in_range [slice_simps]:
  "a \<le> b \<Longrightarrow> b \<le> length xs \<Longrightarrow> slice xs a b = Ok (take (b - a) (drop a xs))"
  by (simp add: slice_def)

lemma index_in_range [slice_simps]: "i < length xs \<Longrightarrow> index xs i = Ok (xs ! i)"
  by (simp add: index_def)

lemma slice_to_end [slice_simps]: "a \<le> length xs \<Longrightarrow> slice xs a (length xs) = Ok (drop a xs)"
  by (simp add: slice_def)

lemma part_in_range: "i < length xs div n \<Longrightarrow> Suc i * n \<le> length xs"
  by (metis Suc_leI div_times_less_eq_dividend le_trans mult_le_mono1)

lemma copy_from_slice_same [slice_simps]:
  "length dst = length src \<Longrightarrow> copy_from_slice dst src = Ok src"
  by (simp add: copy_from_slice_def)

lemma copy_into_in_range [slice_simps]:
  "a \<le> b \<Longrightarrow> b \<le> length dst \<Longrightarrow> length src = b - a \<Longrightarrow>
     copy_into dst a b src = Ok (take a dst @ src @ drop b dst)"
  by (simp add: copy_into_def)

lemma split_at_in_range [slice_simps]: "n \<le> length xs \<Longrightarrow> split_at xs n = Ok (take n xs, drop n xs)"
  by (simp add: split_at_def)

lemma chunks_Nil [simp]: "chunks n [] = []"
  by (simp add: chunks.simps)

lemma chunks_nonempty: "0 < n \<Longrightarrow> xs \<noteq> [] \<Longrightarrow> chunks n xs = take n xs # chunks n (drop n xs)"
  by (subst chunks.simps) simp

lemma chunks_eq_Nil [simp]: "0 < n \<Longrightarrow> chunks n xs = [] \<longleftrightarrow> xs = []"
  by (cases "xs = []") (simp_all add: chunks_nonempty)

lemma chunks_short: "xs \<noteq> [] \<Longrightarrow> length xs \<le> n \<Longrightarrow> chunks n xs = [xs]"
  by (cases n) (auto simp: chunks.simps)

lemma chunks_append: "0 < n \<Longrightarrow> length xs = n \<Longrightarrow> chunks n (xs @ ys) = xs # chunks n ys"
  by (subst chunks.simps) auto

lemma concat_chunks: "0 < n \<Longrightarrow> concat (chunks n xs) = xs"
proof (induction n xs rule: chunks.induct)
  case (1 n xs)
  then show ?case by (cases "xs = []") (simp_all add: chunks_nonempty)
qed

lemma chunks_lengths:
  assumes "0 < n" "xs \<noteq> []"
  shows "c \<in> set (butlast (chunks n xs)) \<Longrightarrow> length c = n"
    and "length (last (chunks n xs)) \<le> n"
    and "\<not> n dvd length xs \<Longrightarrow> length (last (chunks n xs)) < n"
proof -
  have "(\<forall>c \<in> set (butlast (chunks n xs)). length c = n) \<and> length (last (chunks n xs)) \<le> n \<and>
      (\<not> n dvd length xs \<longrightarrow> length (last (chunks n xs)) < n)"
    using assms
  proof (induction n xs rule: chunks.induct)
    case (1 n xs)
    show ?case
    proof (cases "length xs \<le> n")
      case True
      then have "chunks n xs = [xs]" using "1.prems" by (intro chunks_short)
      moreover have "\<not> n dvd length xs \<Longrightarrow> length xs < n" using True by (cases "length xs = n") simp_all
      ultimately show ?thesis using True by simp
    next
      case False
      then have ne: "drop n xs \<noteq> []" by simp
      have ih: "\<forall>c \<in> set (butlast (chunks n (drop n xs))). length c = n"
        "length (last (chunks n (drop n xs))) \<le> n"
        "\<not> n dvd length (drop n xs) \<longrightarrow> length (last (chunks n (drop n xs))) < n"
        using "1.IH" "1.prems" ne by blast+
      have "n dvd length xs \<longleftrightarrow> n dvd length (drop n xs)"
        using False by (simp add: dvd_minus_self)
      then show ?thesis
        using ih ne False by (simp add: chunks_nonempty [OF "1.prems"] "1.prems"(1))
    qed
  qed
  then show "c \<in> set (butlast (chunks n xs)) \<Longrightarrow> length c = n"
    and "length (last (chunks n xs)) \<le> n"
    and "\<not> n dvd length xs \<Longrightarrow> length (last (chunks n xs)) < n" by auto
qed

subsection \<open>Facts on encodings\<close>

lemma length_as_bytes [simp]: "length (as_bytes s) = length s"
  by (simp add: as_bytes_def)

lemma as_bytes_Nil [simp]: "as_bytes s = [] \<longleftrightarrow> s = []"
  by (simp add: as_bytes_def)

lemma of_char_byte_inject: "(of_char c :: u8) = of_char d \<longleftrightarrow> c = d"
proof
  assume "(of_char c :: u8) = of_char d"
  then have "(word_of_nat (of_char c) :: u8) = word_of_nat (of_char d)"
    by (simp only: of_nat_of_char)
  then have "take_bit 8 (of_char c :: nat) = take_bit 8 (of_char d)"
    by (simp only: word_of_nat_eq_iff) simp
  then show "c = d" by (simp add: take_bit_eq_mod)
qed simp

lemma as_bytes_inject [simp]: "as_bytes s = as_bytes t \<longleftrightarrow> s = t"
  unfolding as_bytes_def by (simp add: inj_map_eq_map inj_def of_char_byte_inject)

lemma length_to_be_bytes [simp]: "length (to_be_bytes n w) = n"
  by (simp add: to_be_bytes_def)

lemma to_be_bytes_Suc: "to_be_bytes (Suc n) w = ucast (drop_bit (8 * n) w) # to_be_bytes n w"
  by (simp add: to_be_bytes_def)

lemma from_be_bytes_foldl:
  "foldl (\<lambda>a b. push_bit 8 a OR ucast b) (acc :: 'a::len word) bs
     = push_bit (8 * length bs) acc OR from_be_bytes bs"
proof (induction bs arbitrary: acc)
  case Nil
  show ?case by (simp add: from_be_bytes_def)
next
  case (Cons b bs)
  have "from_be_bytes (b # bs) = push_bit (8 * length bs) (ucast b :: 'a word) OR from_be_bytes bs"
    unfolding from_be_bytes_def using Cons.IH [of "ucast b"] by (simp add: from_be_bytes_def)
  then show ?case
    by (simp add: Cons.IH push_bit_or or.assoc add.commute)
qed

lemma from_be_bytes_Cons:
  "(from_be_bytes (b # bs) :: 'a::len word) = push_bit (8 * length bs) (ucast b) OR from_be_bytes bs"
  using from_be_bytes_foldl [of "ucast b" bs] by (simp add: from_be_bytes_def)

lemma from_to_be_bytes: "from_be_bytes (to_be_bytes n w) = take_bit (8 * n) (w :: 'a::len word)"
proof (induction n)
  case 0
  show ?case by (simp add: to_be_bytes_def from_be_bytes_def)
next
  case (Suc n)
  show ?case
    by (rule bit_word_eqI) (auto simp: to_be_bytes_Suc from_be_bytes_Cons Suc.IH bit_simps)
qed

lemma bit_from_be_bytes: "bit (from_be_bytes bs :: 'a::len word) i \<Longrightarrow> i < 8 * length bs"
  by (induction bs)
    (auto simp: from_be_bytes_Cons bit_simps dest: bit_imp_le_length, simp add: from_be_bytes_def)

lemma to_be_bytes_high:
  "n \<le> m \<Longrightarrow> to_be_bytes n (push_bit (8 * m) a OR w) = to_be_bytes n (w :: 'a::len word)"
  unfolding to_be_bytes_def by (intro map_cong refl bit_word_eqI) (auto simp: bit_simps)

lemma to_from_be_bytes:
  "8 * length bs \<le> LENGTH('a) \<Longrightarrow> to_be_bytes (length bs) (from_be_bytes bs :: 'a::len word) = bs"
proof (induction bs)
  case Nil
  show ?case by (simp add: to_be_bytes_def)
next
  case (Cons b bs)
  have "ucast (drop_bit (8 * length bs) (from_be_bytes (b # bs) :: 'a word)) = b"
    using Cons.prems
    by (intro bit_word_eqI) (auto simp: from_be_bytes_Cons bit_simps dest: bit_from_be_bytes)
  then show ?case
    using Cons by (simp add: to_be_bytes_Suc) (simp add: from_be_bytes_Cons to_be_bytes_high)
qed

subsection \<open>Self-delimiting encodings\<close>

text \<open>
  An encoding is self-delimiting on a set of values when no two encodings, whatever follows them,
  can be confused. The concatenation of encoded fields is then unambiguous: this is what a
  length prefix is for.
\<close>

locale self_delimiting =
  fixes enc :: "'a \<Rightarrow> bytes"
    and valid :: "'a \<Rightarrow> bool"
  assumes delimited: "valid x \<Longrightarrow> valid y \<Longrightarrow> enc x @ r = enc y @ s \<Longrightarrow> x = y \<and> r = s"
begin

lemma prefixed_inject:
  "valid x \<Longrightarrow> valid y \<Longrightarrow> d @ enc x @ r = d @ enc y @ s \<Longrightarrow> x = y \<and> r = s"
  by (drule (1) delimited [of x y r s], simp_all)

lemma enc_inject: "valid x \<Longrightarrow> valid y \<Longrightarrow> enc x = enc y \<Longrightarrow> x = y"
  using delimited [of x y "[]" "[]"] by simp

lemma pair_inject:
  assumes "valid x" "valid x'" "valid y" "valid y'"
    and "enc x @ enc y = enc x' @ enc y'"
  shows "x = x' \<and> y = y'"
  using delimited [OF assms(1,2,5)] enc_inject [OF assms(3,4)] by simp

end

text \<open>
  A fixed-width codec: every value takes \<open>width\<close> bytes and decoding inverts encoding. A
  fixed-width codec is self-delimiting.
\<close>

locale fixed_width_codec =
  fixes enc :: "'a \<Rightarrow> bytes"
    and dec :: "bytes \<Rightarrow> 'a"
    and width :: nat
  assumes dec_enc [simp]: "dec (enc x) = x"
    and enc_dec: "length bs = width \<Longrightarrow> enc (dec bs) = bs"
    and enc_width [simp]: "length (enc x) = width"
begin

lemma enc_eq_iff: "enc x = enc y \<longleftrightarrow> x = y"
  by (metis dec_enc)

lemma dec_eq_iff: "length bs = width \<Longrightarrow> dec bs = x \<longleftrightarrow> bs = enc x"
  by (metis dec_enc enc_dec)

end

sublocale fixed_width_codec \<subseteq> delim: self_delimiting enc "\<lambda>_. True"
  by unfold_locales (simp add: append_eq_append_conv enc_eq_iff)

subsection \<open>Transition systems\<close>

text \<open>
  A property that holds at the start and is kept by every step holds in every reachable state; if
  every step also makes a measure smaller, every run ends.
\<close>

locale inductive_invariant =
  fixes start :: "'s \<Rightarrow> bool"
    and step :: "'s \<Rightarrow> 's \<Rightarrow> bool"
    and inv :: "'s \<Rightarrow> bool"
  assumes inv_start: "start s \<Longrightarrow> inv s"
    and inv_step: "inv s \<Longrightarrow> step s t \<Longrightarrow> inv t"
begin

lemma inv_run:
  assumes "step\<^sup>*\<^sup>* s t" "inv s"
  shows "inv t"
  using assms by (induction rule: rtranclp_induct) (auto intro: inv_step)

lemma always: "start s \<Longrightarrow> step\<^sup>*\<^sup>* s t \<Longrightarrow> inv t"
  by (rule inv_run [OF _ inv_start])

end

locale terminating_system = inductive_invariant +
  fixes work :: "'s \<Rightarrow> nat"
  assumes work_decreases: "inv s \<Longrightarrow> step s t \<Longrightarrow> work t < work s"
begin

lemma run_bounded:
  assumes "start s" "(step ^^ n) s t"
  shows "work t + n \<le> work s"
  using assms(2)
proof (induction n arbitrary: t)
  case (Suc n)
  then obtain u where u: "(step ^^ n) s u" "step u t" by auto
  have "inv u" using always [OF assms(1)] u(1) by (meson relpowp_imp_rtranclp)
  from work_decreases [OF this u(2)] Suc.IH [OF u(1)] show ?case by simp
qed simp

lemma no_infinite_run:
  assumes "start (f 0)"
  shows "\<exists>n. \<not> step (f n) (f (Suc n))"
proof (rule ccontr)
  assume run: "\<nexists>n. \<not> step (f n) (f (Suc n))"
  have "(step ^^ n) (f 0) (f n)" for n using run by (induction n) auto
  from run_bounded [OF assms this [of "Suc (work (f 0))"]] show False by simp
qed

end

interpretation be32: fixed_width_codec "u32_to_be_bytes" "from_be_bytes :: bytes \<Rightarrow> u32" 4
proof
  show "from_be_bytes (u32_to_be_bytes w) = w" for w :: u32
    by (simp add: from_to_be_bytes take_bit_word_eq_self)
  show "u32_to_be_bytes (from_be_bytes bs) = bs" if "length bs = 4" for bs
    using to_from_be_bytes [of bs, where 'a = 32] that by simp
qed simp

interpretation be64: fixed_width_codec "to_be_bytes 8 :: u64 \<Rightarrow> bytes" "from_be_bytes :: bytes \<Rightarrow> u64" 8
proof
  show "from_be_bytes (to_be_bytes 8 w) = w" for w :: u64
    by (simp add: from_to_be_bytes take_bit_word_eq_self)
  show "to_be_bytes 8 (from_be_bytes bs :: u64) = bs" if "length bs = 8" for bs
    using to_from_be_bytes [of bs, where 'a = 64] that by simp
qed simp

lemma u32_try_from_Some: "u32_try_from n = Some w \<longleftrightarrow> n < 2 ^ 32 \<and> w = word_of_nat n"
  by (auto simp: u32_try_from_def)

lemma word_of_nat_u32_inject:
  "m < 2 ^ 32 \<Longrightarrow> n < 2 ^ 32 \<Longrightarrow> (word_of_nat m :: u32) = word_of_nat n \<longleftrightarrow> m = n"
  by (simp add: word_of_nat_eq_iff take_bit_nat_eq_self)

end
