(* ===== verification/Filum_Error.thy ===== *)
theory Filum_Error
  imports Filum_Prelude
begin

text \<open>The crate's error type (\<open>error.rs\<close>) and its \<open>Result\<close> alias, with the texts of the errors.\<close>

datatype FilumCryptoError =
    Aead
  | InvalidPhrase
  | InvalidContext
  | InvalidKeyLength
  | InvalidSignature
  | Randomness
  | Io

text \<open>The text of an error, from the \<open>#[error(..)]\<close> attributes.\<close>

fun error_display :: "FilumCryptoError \<Rightarrow> string" where
  "error_display Aead = ''AEAD operation failed''"
| "error_display InvalidPhrase = ''invalid recovery phrase''"
| "error_display InvalidContext = ''invalid context identifier''"
| "error_display InvalidKeyLength = ''invalid key length''"
| "error_display InvalidSignature = ''invalid signature''"
| "error_display Randomness = ''randomness source unavailable''"
| "error_display Io = ''I/O error''"

type_synonym 'a Result = "(FilumCryptoError, 'a) outcome"

end
