(* ===== verification/Filum_Crates.thy ===== *)
theory Filum_Crates
  imports Filum_Error
begin

text \<open>
  The third-party crates, as parameters. Their code is not part of the repository, so nothing is
  defined for them: each crate is a record of the operations the sources call, passed as an
  argument to every definition that uses it, and what the sources rely on is a predicate on that
  record which a theorem names among its hypotheses. The predicates state documented behaviour:
  AES-256-GCM with a 16-byte tag (crate \<open>aes-gcm\<close>), the STREAM construction
  (\<open>aead::stream\<close>), HKDF-SHA256 (\<open>hkdf\<close>), Ed25519 (\<open>ed25519-dalek\<close>), BIP39 (\<open>bip39\<close>) and the
  operating system's random source (\<open>rand_core::OsRng\<close>).
\<close>

subsection \<open>OsRng\<close>

text \<open>
  \<open>try_fill_bytes(&mut buf)\<close> either fails or overwrites every byte of \<open>buf\<close>; it cannot change the
  length of the slice, so the parameter gives the byte written at each index. \<open>'r\<close> is the state
  of the source.
\<close>

type_synonym 'r rng = "'r \<Rightarrow> nat \<Rightarrow> (nat \<Rightarrow> u8) option \<times> 'r"

text \<open>\<open>OsRng.try_fill_bytes(&mut buf).map_err(|_| FilumCryptoError::Randomness)?\<close>.\<close>

definition fill_random :: "'r rng \<Rightarrow> bytes \<Rightarrow> ('r, FilumCryptoError, bytes) st" where
  "fill_random R buf s =
     (case R s (length buf) of (r, s') \<Rightarrow>
        (case r of None \<Rightarrow> (Err Randomness, s')
         | Some f \<Rightarrow> (Ok (map f [0..<length buf]), s')))"

text \<open>The random source works: every request is served.\<close>

definition rng_available :: "'r rng \<Rightarrow> bool" where
  "rng_available R \<longleftrightarrow> (\<forall>s n. fst (R s n) \<noteq> None)"

text \<open>A source that replays given draws, one per request.\<close>

definition replay_rng :: "bytes list \<Rightarrow> nat rng" where
  "replay_rng draws s n = (Some (\<lambda>i. draws ! s ! i), Suc s)"

subsection \<open>aes-gcm and aead::stream\<close>

text \<open>
  \<open>gcm_encrypt A key nonce msg aad\<close> is \<open>Aes256Gcm::new(key).encrypt(nonce, Payload { msg, aad })\<close>;
  \<open>'e\<close> and \<open>'d\<close> are the states of \<open>EncryptorBE32\<close> and \<open>DecryptorBE32\<close>, made from the cipher for
  a key and a 7-byte nonce prefix. \<open>encrypt_last\<close> and \<open>decrypt_last\<close> consume the state.
\<close>

record ('e, 'd) aead_lib =
  gcm_encrypt :: "bytes \<Rightarrow> bytes \<Rightarrow> bytes \<Rightarrow> bytes \<Rightarrow> bytes option"
  gcm_decrypt :: "bytes \<Rightarrow> bytes \<Rightarrow> bytes \<Rightarrow> bytes \<Rightarrow> bytes option"
  enc_from_aead :: "bytes \<Rightarrow> bytes \<Rightarrow> 'e"
  enc_next :: "'e \<Rightarrow> bytes \<Rightarrow> bytes \<Rightarrow> (bytes \<times> 'e) option"
  enc_last :: "'e \<Rightarrow> bytes \<Rightarrow> bytes \<Rightarrow> bytes option"
  dec_from_aead :: "bytes \<Rightarrow> bytes \<Rightarrow> 'd"
  dec_next :: "'d \<Rightarrow> bytes \<Rightarrow> bytes \<Rightarrow> (bytes \<times> 'd) option"
  dec_last :: "'d \<Rightarrow> bytes \<Rightarrow> bytes \<Rightarrow> bytes option"

text \<open>Decryption under the same key, nonce and associated data recovers the message.\<close>

definition gcm_correct :: "('e, 'd) aead_lib \<Rightarrow> bool" where
  "gcm_correct A \<longleftrightarrow>
     (\<forall>k n m a c. length k = 32 \<longrightarrow> length n = 12 \<longrightarrow> gcm_encrypt A k n m a = Some c \<longrightarrow>
        gcm_decrypt A k n c a = Some m)"

text \<open>
  A ciphertext is accepted only if it is the encryption of the message it decrypts to: GCM
  recomputes the tag, which is a function of key, nonce, ciphertext and associated data.
\<close>

definition gcm_exact :: "('e, 'd) aead_lib \<Rightarrow> bool" where
  "gcm_exact A \<longleftrightarrow>
     (\<forall>k n m a c. length k = 32 \<longrightarrow> length n = 12 \<longrightarrow> gcm_decrypt A k n c a = Some m \<longrightarrow>
        gcm_encrypt A k n m a = Some c)"

text \<open>The ciphertext is as long as the message plus the 16-byte tag.\<close>

definition gcm_tag16 :: "('e, 'd) aead_lib \<Rightarrow> bool" where
  "gcm_tag16 A \<longleftrightarrow> (\<forall>k n m a c. gcm_encrypt A k n m a = Some c \<longrightarrow> length c = length m + 16)"

text \<open>Encryption fails only beyond the length limits of the crate (\<open>P_MAX\<close>, \<open>A_MAX\<close>: \<open>2 ^ 36\<close>).\<close>

definition gcm_total :: "('e, 'd) aead_lib \<Rightarrow> bool" where
  "gcm_total A \<longleftrightarrow>
     (\<forall>k n m a. length k = 32 \<longrightarrow> length n = 12 \<longrightarrow> length m \<le> 2 ^ 36 \<longrightarrow> length a \<le> 2 ^ 36 \<longrightarrow>
        gcm_encrypt A k n m a \<noteq> None)"

text \<open>
  An encryptor and a decryptor in step: made for the same key and prefix, and advanced by the same
  segments in the same order.
\<close>

inductive synced :: "('e, 'd) aead_lib \<Rightarrow> bytes \<Rightarrow> bytes \<Rightarrow> 'e \<Rightarrow> 'd \<Rightarrow> bool"
  for A k p where
  start: "synced A k p (enc_from_aead A k p) (dec_from_aead A k p)"
| step: "synced A k p e d \<Longrightarrow> enc_next A e m a = Some (c, e') \<Longrightarrow>
    dec_next A d c a = Some (m, d') \<Longrightarrow> synced A k p e' d'"

text \<open>A decryptor in step with the encryptor accepts its segments and recovers the messages.\<close>

definition stream_correct :: "('e, 'd) aead_lib \<Rightarrow> bool" where
  "stream_correct A \<longleftrightarrow>
     (\<forall>k p e d. length k = 32 \<longrightarrow> length p = 7 \<longrightarrow> synced A k p e d \<longrightarrow>
        (\<forall>m a c e'. enc_next A e m a = Some (c, e') \<longrightarrow> (\<exists>d'. dec_next A d c a = Some (m, d'))) \<and>
        (\<forall>m a c. enc_last A e m a = Some c \<longrightarrow> dec_last A d c a = Some m))"

text \<open>A decryptor accepts only segments the encryptor in step with it would emit.\<close>

definition stream_exact :: "('e, 'd) aead_lib \<Rightarrow> bool" where
  "stream_exact A \<longleftrightarrow>
     (\<forall>k p e d. length k = 32 \<longrightarrow> length p = 7 \<longrightarrow> synced A k p e d \<longrightarrow>
        (\<forall>m a c d'. dec_next A d c a = Some (m, d') \<longrightarrow> (\<exists>e'. enc_next A e m a = Some (c, e'))) \<and>
        (\<forall>m a c. dec_last A d c a = Some m \<longrightarrow> enc_last A e m a = Some c))"

text \<open>Each segment is one AES-GCM ciphertext: 16 bytes longer than its message.\<close>

definition stream_tag16 :: "('e, 'd) aead_lib \<Rightarrow> bool" where
  "stream_tag16 A \<longleftrightarrow>
     (\<forall>e m a c e'. enc_next A e m a = Some (c, e') \<longrightarrow> length c = length m + 16) \<and>
     (\<forall>e m a c. enc_last A e m a = Some c \<longrightarrow> length c = length m + 16)"

text \<open>A ciphertext shorter than a tag is rejected.\<close>

definition stream_min16 :: "('e, 'd) aead_lib \<Rightarrow> bool" where
  "stream_min16 A \<longleftrightarrow> (\<forall>d c a. length c < 16 \<longrightarrow> dec_next A d c a = None \<and> dec_last A d c a = None)"

text \<open>
  \<open>enc_after A k p n e\<close>: the encryptor after \<open>n\<close> segments. The 32-bit block counter allows
  \<open>2 ^ 32 - 1\<close> of them before the last one; within that and the length limits of AES-GCM,
  encryption succeeds.
\<close>

inductive enc_after :: "('e, 'd) aead_lib \<Rightarrow> bytes \<Rightarrow> bytes \<Rightarrow> nat \<Rightarrow> 'e \<Rightarrow> bool"
  for A k p where
  start: "enc_after A k p 0 (enc_from_aead A k p)"
| step: "enc_after A k p n e \<Longrightarrow> enc_next A e m a = Some (c, e') \<Longrightarrow> enc_after A k p (Suc n) e'"

definition stream_total :: "('e, 'd) aead_lib \<Rightarrow> bool" where
  "stream_total A \<longleftrightarrow>
     (\<forall>k p n e m a. length k = 32 \<longrightarrow> length p = 7 \<longrightarrow> enc_after A k p n e \<longrightarrow>
        length m \<le> 2 ^ 36 \<longrightarrow> length a \<le> 2 ^ 36 \<longrightarrow>
        (n < 2 ^ 32 - 1 \<longrightarrow> enc_next A e m a \<noteq> None) \<and> (n \<le> 2 ^ 32 - 1 \<longrightarrow> enc_last A e m a \<noteq> None))"

subsection \<open>hkdf\<close>

text \<open>
  \<open>H secret info n\<close>: the bytes \<open>Hkdf::<Sha256>::new(None, secret).expand(info, out)\<close> writes into an
  \<open>out\<close> of \<open>n\<close> bytes. HKDF-SHA256 yields at most 255 blocks of 32 bytes.
\<close>

type_synonym hkdf = "bytes \<Rightarrow> bytes \<Rightarrow> nat \<Rightarrow> (nat \<Rightarrow> u8) option"

definition hkdf_limit :: "hkdf \<Rightarrow> bool" where
  "hkdf_limit H \<longleftrightarrow> (\<forall>secret info n. H secret info n = None \<longleftrightarrow> 8160 < n)"

subsection \<open>ed25519-dalek\<close>

text \<open>
  \<open>SigningKey::from_bytes\<close>, \<open>sign\<close> (as bytes), \<open>verifying_key().to_bytes()\<close>,
  \<open>VerifyingKey::from_bytes\<close> and \<open>verify_strict\<close>.
\<close>

record ('sk, 'vk) ed_lib =
  sk_from_bytes :: "bytes \<Rightarrow> 'sk"
  sk_sign :: "'sk \<Rightarrow> bytes \<Rightarrow> bytes"
  sk_public :: "'sk \<Rightarrow> bytes"
  vk_from_bytes :: "bytes \<Rightarrow> 'vk option"
  vk_verify_strict :: "'vk \<Rightarrow> bytes \<Rightarrow> bytes \<Rightarrow> bool"

text \<open>A signature verifies under the public key of the key that made it.\<close>

definition ed_correct :: "('sk, 'vk) ed_lib \<Rightarrow> bool" where
  "ed_correct E \<longleftrightarrow>
     (\<forall>seed msg. length seed = 32 \<longrightarrow>
        (\<exists>vk. vk_from_bytes E (sk_public E (sk_from_bytes E seed)) = Some vk \<and>
           vk_verify_strict E vk msg (sk_sign E (sk_from_bytes E seed) msg)))"

text \<open>Public keys are \<open>[u8; 32]\<close> and signatures \<open>[u8; 64]\<close>.\<close>

definition ed_sizes :: "('sk, 'vk) ed_lib \<Rightarrow> bool" where
  "ed_sizes E \<longleftrightarrow> (\<forall>sk. length (sk_public E sk) = 32) \<and> (\<forall>sk msg. length (sk_sign E sk msg) = 64)"

subsection \<open>bip39\<close>

text \<open>
  \<open>Mnemonic::from_entropy_in(Language::English, _)\<close>, \<open>to_string\<close>, \<open>Mnemonic::parse_in(English, _)\<close>
  and \<open>to_entropy\<close>.
\<close>

record 'm bip39_lib =
  from_entropy :: "bytes \<Rightarrow> 'm option"
  mnemonic_to_string :: "'m \<Rightarrow> string"
  parse :: "string \<Rightarrow> 'm option"
  to_entropy :: "'m \<Rightarrow> bytes"

text \<open>Entropy of 32 bytes (24 words) is encodable, and its phrase parses back to it.\<close>

definition bip39_correct :: "'m bip39_lib \<Rightarrow> bool" where
  "bip39_correct B \<longleftrightarrow>
     (\<forall>ent. length ent = 32 \<longrightarrow>
        (\<exists>m. from_entropy B ent = Some m \<and>
           (\<exists>m'. parse B (mnemonic_to_string B m) = Some m' \<and> to_entropy B m' = ent)))"

subsection \<open>Facts\<close>

lemma fill_random_cases:
  "(\<exists>bs s'. fill_random R buf s = (Ok bs, s') \<and> length bs = length buf) \<or>
   (\<exists>s'. fill_random R buf s = (Err Randomness, s'))"
  by (auto simp: fill_random_def split: prod.split option.split)

lemma fill_random_length: "fill_random R buf s = (Ok bs, s') \<Longrightarrow> length bs = length buf"
  by (auto simp: fill_random_def split: prod.splits option.splits)

lemma fill_random_not_Panic [simp]: "fill_random R buf s \<noteq> (Panic, s')"
  using fill_random_cases [of R buf s] by auto

lemma fill_random_Err: "fill_random R buf s = (Err e, s') \<Longrightarrow> e = Randomness"
  using fill_random_cases [of R buf s] by auto

lemma fill_random_available:
  "rng_available R \<Longrightarrow> \<exists>bs s'. fill_random R buf s = (Ok bs, s') \<and> length bs = length buf"
  unfolding fill_random_def rng_available_def
  by (auto split: prod.split option.split) (metis fst_conv option.distinct(1))

lemma fill_random_replay:
  "length (draws ! s) = length buf \<Longrightarrow> fill_random (replay_rng draws) buf s = (Ok (draws ! s), Suc s)"
  by (metis (no_types, lifting) fill_random_def replay_rng_def map_nth old.prod.case option.case(2))

lemma gcm_correctD:
  "gcm_correct A \<Longrightarrow> length k = 32 \<Longrightarrow> length n = 12 \<Longrightarrow> gcm_encrypt A k n m a = Some c \<Longrightarrow>
     gcm_decrypt A k n c a = Some m"
  by (simp add: gcm_correct_def)

lemma gcm_exactD:
  "gcm_exact A \<Longrightarrow> length k = 32 \<Longrightarrow> length n = 12 \<Longrightarrow> gcm_decrypt A k n c a = Some m \<Longrightarrow>
     gcm_encrypt A k n m a = Some c"
  by (simp add: gcm_exact_def)

lemma gcm_tag16D: "gcm_tag16 A \<Longrightarrow> gcm_encrypt A k n m a = Some c \<Longrightarrow> length c = length m + 16"
  by (simp add: gcm_tag16_def)

lemma gcm_totalE:
  assumes "gcm_total A" "length k = 32" "length n = 12" "length m \<le> 2 ^ 36" "length a \<le> 2 ^ 36"
  obtains c where "gcm_encrypt A k n m a = Some c"
  using assms unfolding gcm_total_def by blast

lemma stream_correct_next:
  assumes "stream_correct A" "length k = 32" "length p = 7" "synced A k p e d"
    and "enc_next A e m a = Some (c, e')"
  obtains d' where "dec_next A d c a = Some (m, d')" "synced A k p e' d'"
  using assms unfolding stream_correct_def by (metis synced.step)

lemma stream_correct_last:
  "stream_correct A \<Longrightarrow> length k = 32 \<Longrightarrow> length p = 7 \<Longrightarrow> synced A k p e d \<Longrightarrow>
     enc_last A e m a = Some c \<Longrightarrow> dec_last A d c a = Some m"
  unfolding stream_correct_def by blast

lemma stream_exact_next:
  assumes "stream_exact A" "length k = 32" "length p = 7" "synced A k p e d"
    and "dec_next A d c a = Some (m, d')"
  obtains e' where "enc_next A e m a = Some (c, e')" "synced A k p e' d'"
  using assms unfolding stream_exact_def by (metis synced.step)

lemma stream_exact_last:
  "stream_exact A \<Longrightarrow> length k = 32 \<Longrightarrow> length p = 7 \<Longrightarrow> synced A k p e d \<Longrightarrow>
     dec_last A d c a = Some m \<Longrightarrow> enc_last A e m a = Some c"
  unfolding stream_exact_def by blast

lemma stream_tag16_next: "stream_tag16 A \<Longrightarrow> enc_next A e m a = Some (c, e') \<Longrightarrow> length c = length m + 16"
  unfolding stream_tag16_def by blast

lemma stream_tag16_last: "stream_tag16 A \<Longrightarrow> enc_last A e m a = Some c \<Longrightarrow> length c = length m + 16"
  unfolding stream_tag16_def by blast

lemma stream_total_next:
  assumes "stream_total A" "length k = 32" "length p = 7" "enc_after A k p n e"
    and "length m \<le> 2 ^ 36" "length a \<le> 2 ^ 36" "n < 2 ^ 32 - 1"
  obtains c e' where "enc_next A e m a = Some (c, e')"
  using assms unfolding stream_total_def by fastforce

lemma stream_total_last:
  assumes "stream_total A" "length k = 32" "length p = 7" "enc_after A k p n e"
    and "length m \<le> 2 ^ 36" "length a \<le> 2 ^ 36" "n \<le> 2 ^ 32 - 1"
  obtains c where "enc_last A e m a = Some c"
  using assms unfolding stream_total_def by fastforce

end
