(* ===== verification/Filum_Aad.thy ===== *)
theory Filum_Aad
  imports Filum_Crates
begin

text \<open>
  Associated data of format v2 (\<open>aad.rs\<close>): the three constructors of AAD bytes, and that the
  encoding is canonical. Distinct contexts never share AAD bytes, within one kind or across kinds.
\<close>

subsection \<open>Definitions\<close>

definition BLOB_DOMAIN :: bytes where
  "BLOB_DOMAIN = as_bytes ''filum-crypto/v2/blob''"

definition FIELD_DOMAIN :: bytes where
  "FIELD_DOMAIN = as_bytes ''filum-crypto/v2/field''"

definition blob_segment_aad :: "string \<Rightarrow> bytes Result" where
  "blob_segment_aad blob_id =
     (let ident = as_bytes blob_id in
      if ident = [] then Err InvalidContext
      else res_bind (ok_or InvalidContext (u32_try_from (length ident))) (\<lambda>len.
        Ok (BLOB_DOMAIN @ u32_to_be_bytes len @ ident)))"

definition field_aad :: "string \<Rightarrow> string \<Rightarrow> bytes Result" where
  "field_aad record_id field_name =
     (let rec = as_bytes record_id; field = as_bytes field_name in
      if rec = [] \<or> field = [] then Err InvalidContext
      else res_bind (ok_or InvalidContext (u32_try_from (length rec))) (\<lambda>record_len.
        res_bind (ok_or InvalidContext (u32_try_from (length field))) (\<lambda>field_len.
        Ok (FIELD_DOMAIN @ u32_to_be_bytes record_len @ rec @ u32_to_be_bytes field_len @ field))))"

definition blob_wrap_aad :: "string \<Rightarrow> u8 \<Rightarrow> bytes \<Rightarrow> bytes \<Rightarrow> bytes Result" where
  "blob_wrap_aad blob_id version nonce_prefix chunk_size_be =
     res_bind (blob_segment_aad blob_id) (\<lambda>aad. Ok (aad @ [version] @ nonce_prefix @ chunk_size_be))"

text \<open>
  What an identifier must satisfy, and the field encoding the three constructors share: the length
  in bytes as a big-endian \<open>u32\<close>, then the bytes.
\<close>

definition valid_context :: "string \<Rightarrow> bool" where
  "valid_context s \<longleftrightarrow> s \<noteq> [] \<and> length s < 2 ^ 32"

definition length_prefixed :: "string \<Rightarrow> bytes" where
  "length_prefixed s = u32_to_be_bytes (word_of_nat (length s)) @ as_bytes s"

subsection \<open>The encoding is self-delimiting\<close>

interpretation lp: self_delimiting length_prefixed valid_context
proof
  fix x y r s
  assume valid: "valid_context x" "valid_context y"
    and eq: "length_prefixed x @ r = length_prefixed y @ s"
  from eq have "u32_to_be_bytes (word_of_nat (length x)) = u32_to_be_bytes (word_of_nat (length y))"
    and rest: "as_bytes x @ r = as_bytes y @ s"
    by (simp_all add: length_prefixed_def append_eq_append_conv)
  then have "length x = length y"
    using valid by (simp add: be32.enc_eq_iff valid_context_def word_of_nat_u32_inject)
  with rest show "x = y \<and> r = s"
    by (simp add: append_eq_append_conv)
qed

lemma length_length_prefixed [simp]: "length (length_prefixed s) = 4 + length s"
  by (simp add: length_prefixed_def)

subsection \<open>Behaviour on every branch\<close>

lemma blob_segment_aad_eq:
  "blob_segment_aad blob_id =
     (if valid_context blob_id then Ok (BLOB_DOMAIN @ length_prefixed blob_id) else Err InvalidContext)"
  by (auto simp: blob_segment_aad_def valid_context_def length_prefixed_def u32_try_from_def Let_def)

lemma blob_wrap_aad_eq:
  "blob_wrap_aad blob_id version nonce_prefix chunk_size_be =
     (if valid_context blob_id
      then Ok (BLOB_DOMAIN @ length_prefixed blob_id @ [version] @ nonce_prefix @ chunk_size_be)
      else Err InvalidContext)"
  by (simp add: blob_wrap_aad_def blob_segment_aad_eq)

lemma field_aad_eq:
  "field_aad record_id field_name =
     (if valid_context record_id \<and> valid_context field_name
      then Ok (FIELD_DOMAIN @ length_prefixed record_id @ length_prefixed field_name)
      else Err InvalidContext)"
  by (auto simp: field_aad_def valid_context_def length_prefixed_def u32_try_from_def Let_def)

lemma aad_not_Panic [simp]:
  "blob_segment_aad i \<noteq> Panic" "blob_wrap_aad i v p c \<noteq> Panic" "field_aad r f \<noteq> Panic"
  by (simp_all add: blob_segment_aad_eq blob_wrap_aad_eq field_aad_eq)

lemma length_BLOB_DOMAIN [simp]: "length BLOB_DOMAIN = 20"
  by (simp add: BLOB_DOMAIN_def)

lemma length_FIELD_DOMAIN [simp]: "length FIELD_DOMAIN = 21"
  by (simp add: FIELD_DOMAIN_def)

lemma domains_differ: "BLOB_DOMAIN @ r \<noteq> FIELD_DOMAIN @ s"
  by (simp add: BLOB_DOMAIN_def FIELD_DOMAIN_def as_bytes_def)

subsection \<open>Properties\<close>

text \<open>
  The AAD of a metadata field is canonical. Two (record, field) pairs with the same AAD bytes are the
  same pair, wherever the boundary between the two strings lies.
\<close>

theorem field_aad_canonical:
  assumes "field_aad r f = Ok a" "field_aad r' f' = Ok a"
  shows "r = r' \<and> f = f'"
proof -
  from assms have valid: "valid_context r" "valid_context r'" "valid_context f" "valid_context f'"
    and "length_prefixed r @ length_prefixed f = length_prefixed r' @ length_prefixed f'"
    by (auto simp: field_aad_eq split: if_splits)
  then show ?thesis by (rule lp.pair_inject)
qed

theorem field_aad_canonical_witness:
  "\<exists>a. field_aad ''rec1'' ''title'' = Ok a \<and> ''rec1'' = ''rec'' @ ''1'' \<and> ''title'' = ''tit'' @ ''le''"
proof -
  have ok: "field_aad ''rec1'' ''title'' =
      Ok (FIELD_DOMAIN @ length_prefixed ''rec1'' @ length_prefixed ''title'')"
    by (simp add: field_aad_eq valid_context_def)
  have "field_aad (''rec'' @ ''1'') (''tit'' @ ''le'') =
      Ok (FIELD_DOMAIN @ length_prefixed ''rec1'' @ length_prefixed ''title'')"
    by (simp add: field_aad_eq valid_context_def)
  from field_aad_canonical [OF ok this] ok show ?thesis by blast
qed

text \<open>
  The AAD under which a data key is wrapped is canonical. It determines the blob identifier, the
  format version, the nonce prefix and the chunk size: no header field and no identifier can change
  without changing it.
\<close>

theorem blob_wrap_aad_canonical:
  assumes "blob_wrap_aad i v p c = Ok a" "blob_wrap_aad i' v' p' c' = Ok a"
    and "length p = 7" "length p' = 7"
  shows "i = i' \<and> v = v' \<and> p = p' \<and> c = c'"
proof -
  from assms(1,2) have "valid_context i" "valid_context i'"
    and "BLOB_DOMAIN @ length_prefixed i @ ([v] @ p @ c) = BLOB_DOMAIN @ length_prefixed i' @ ([v'] @ p' @ c')"
    by (auto simp: blob_wrap_aad_eq split: if_splits)
  from lp.prefixed_inject [OF this] show ?thesis
    using assms(3,4) by simp
qed

theorem blob_wrap_aad_canonical_witness:
  "\<exists>a. blob_wrap_aad ''blob'' 2 (replicate 7 0) [0, 16, 0, 0] = Ok a \<and> (replicate 7 0 :: bytes) = [0, 0, 0, 0, 0, 0, 0]"
proof -
  have ok: "blob_wrap_aad ''blob'' 2 p c = Ok (BLOB_DOMAIN @ length_prefixed ''blob'' @ [2] @ p @ c)" for p c
    by (simp add: blob_wrap_aad_eq valid_context_def)
  have eq: "blob_wrap_aad ''blob'' 2 [0, 0, 0, 0, 0, 0, 0] [0, 16, 0, 0] =
      Ok (BLOB_DOMAIN @ length_prefixed ''blob'' @ [2] @ replicate 7 0 @ [0, 16, 0, 0])"
    by (simp add: ok numeral_eq_Suc)
  from blob_wrap_aad_canonical [OF ok eq] ok show ?thesis by auto
qed

text \<open>
  C28: the three kinds of AAD never coincide. No field AAD is a segment AAD or a key-wrap AAD, and no
  segment AAD is a key-wrap AAD, for any identifiers: a ciphertext of one kind is never checked
  against AAD bytes of another kind.
\<close>

theorem aad_kinds_disjoint:
  "\<not> (\<exists>a. field_aad r f = Ok a \<and> blob_segment_aad i = Ok a) \<and>
   \<not> (\<exists>a. field_aad r f = Ok a \<and> blob_wrap_aad i v p c = Ok a) \<and>
   \<not> (\<exists>a. blob_segment_aad j = Ok a \<and> blob_wrap_aad i v p c = Ok a)"
  using lp.prefixed_inject [of j i BLOB_DOMAIN "[]" "[v] @ p @ c"]
  by (auto simp: field_aad_eq blob_segment_aad_eq blob_wrap_aad_eq domains_differ domains_differ [symmetric])

text \<open>
  The AAD constructors fail exactly on invalid identifiers (empty, or longer than a \<open>u32\<close> can count),
  always with \<open>InvalidContext\<close>, and they never panic.
\<close>

theorem aad_errors_exact:
  "(blob_segment_aad i = Err e \<longleftrightarrow> e = InvalidContext \<and> (i = [] \<or> 2 ^ 32 \<le> length i)) \<and>
   (blob_wrap_aad i v p c = Err e \<longleftrightarrow> e = InvalidContext \<and> (i = [] \<or> 2 ^ 32 \<le> length i)) \<and>
   (field_aad r f = Err e \<longleftrightarrow>
     e = InvalidContext \<and> (r = [] \<or> f = [] \<or> 2 ^ 32 \<le> length r \<or> 2 ^ 32 \<le> length f)) \<and>
   blob_segment_aad i \<noteq> Panic \<and> blob_wrap_aad i v p c \<noteq> Panic \<and> field_aad r f \<noteq> Panic"
  by (auto simp: blob_segment_aad_eq blob_wrap_aad_eq field_aad_eq valid_context_def not_less)

end
