(* ===== verification/Filum_Sealed.thy ===== *)
theory Filum_Sealed
  imports Filum_Crates
begin

text \<open>
  The contract both ciphertext formats of the crate (blobs and metadata fields) offer the vault: a
  plaintext is sealed under a 32-byte key for a context, and opened under the same key and context.
  \<open>box_iv\<close>, \<open>box_ct\<close> and \<open>box_aad\<close> name the AES-GCM ciphertext that binds the box to its context.
\<close>

locale sealed_box =
  fixes lawful :: "('e, 'd) aead_lib \<Rightarrow> bool"
    and seal :: "('e, 'd) aead_lib \<Rightarrow> 'r rng \<Rightarrow> bytes \<Rightarrow> bytes \<Rightarrow> 'ctx \<Rightarrow> ('r, FilumCryptoError, 'box) st"
    and unseal :: "('e, 'd) aead_lib \<Rightarrow> 'box \<Rightarrow> bytes \<Rightarrow> 'ctx \<Rightarrow> bytes Result"
    and ctx_ok :: "'ctx \<Rightarrow> bool"
    and box_iv :: "'box \<Rightarrow> bytes"
    and box_ct :: "'box \<Rightarrow> bytes"
    and box_aad :: "'ctx \<Rightarrow> 'box \<Rightarrow> bytes"
  assumes roundtrip: "lawful A \<Longrightarrow> length key = 32 \<Longrightarrow> seal A R pt key ctx s = (Ok box, s') \<Longrightarrow>
      unseal A box key ctx = Ok pt"
    and seal_invalid: "\<not> ctx_ok ctx \<Longrightarrow> seal A R pt key ctx s = (Err InvalidContext, s)"
    and unseal_invalid: "\<not> ctx_ok ctx \<Longrightarrow> unseal A box key ctx = Err InvalidContext"
    and seal_errors: "ctx_ok ctx \<Longrightarrow> seal A R pt key ctx s = (Err e, s') \<Longrightarrow> e = Randomness \<or> e = Aead"
    and unseal_errors: "ctx_ok ctx \<Longrightarrow> unseal A box key ctx = Err e \<Longrightarrow> e = Aead"
    and seal_no_panic: "seal A R pt key ctx s \<noteq> (Panic, s')"
    and unseal_no_panic: "unseal A box key ctx \<noteq> Panic"
    and sealed_under: "seal A R pt key ctx s = (Ok box, s') \<Longrightarrow>
      \<exists>m. gcm_encrypt A key (box_iv box) m (box_aad ctx box) = Some (box_ct box)"
    and authenticated: "unseal A box key ctx = Ok pt \<Longrightarrow>
      gcm_decrypt A key (box_iv box) (box_ct box) (box_aad ctx box) \<noteq> None"
    and aad_inject: "ctx_ok ctx \<Longrightarrow> ctx_ok ctx' \<Longrightarrow> box_aad ctx box = box_aad ctx' box \<Longrightarrow> ctx = ctx'"
begin

lemma seal_ctx_ok: "seal A R pt key ctx s = (Ok box, s') \<Longrightarrow> ctx_ok ctx"
  using seal_invalid by force

lemma unseal_ctx_ok: "unseal A box key ctx = Ok pt \<Longrightarrow> ctx_ok ctx"
  using unseal_invalid by force

text \<open>The result of opening is one of three, and the context alone decides the first.\<close>

lemma unseal_cases:
  "unseal A box key ctx = Err InvalidContext \<longleftrightarrow> \<not> ctx_ok ctx"
  "(\<exists>pt. unseal A box key ctx = Ok pt) \<or> unseal A box key ctx = Err Aead \<or>
     unseal A box key ctx = Err InvalidContext"
  using unseal_invalid unseal_errors unseal_no_panic by (metis FilumCryptoError.distinct(3), metis outcome.exhaust)

text \<open>
  A box moved to another context opens only if AES-GCM accepts, under the same key and nonce, a
  ciphertext made for one AAD together with a different one.
\<close>

lemma transplant_needs_forgery:
  assumes "seal A R pt key ctx s = (Ok box, s')" "unseal A box key ctx' = Ok pt'" "ctx' \<noteq> ctx"
  shows "box_aad ctx' box \<noteq> box_aad ctx box \<and>
    (\<exists>m. gcm_encrypt A key (box_iv box) m (box_aad ctx box) = Some (box_ct box)) \<and>
    (\<exists>m. gcm_decrypt A key (box_iv box) (box_ct box) (box_aad ctx' box) = Some m)"
proof -
  have "box_aad ctx' box \<noteq> box_aad ctx box"
    using aad_inject [OF unseal_ctx_ok [OF assms(2)] seal_ctx_ok [OF assms(1)]] assms(3) by blast
  then show ?thesis
    using sealed_under [OF assms(1)] authenticated [OF assms(2)] by auto
qed

text \<open>A box opens under another key only if AES-GCM accepts its ciphertext under that key too.\<close>

lemma other_key_needs_forgery:
  assumes "seal A R pt key ctx s = (Ok box, s')" "unseal A box key' ctx' = Ok pt'"
  shows "(\<exists>m. gcm_encrypt A key (box_iv box) m (box_aad ctx box) = Some (box_ct box)) \<and>
    (\<exists>m. gcm_decrypt A key' (box_iv box) (box_ct box) (box_aad ctx' box) = Some m)"
  using sealed_under [OF assms(1)] authenticated [OF assms(2)] by auto

end

end
