(* ===== verification/Filum_Instances.thy ===== *)
theory Filum_Instances
  imports Filum_Crates
begin

text \<open>
  Small concrete instances of the third-party parameters. They are not models of the crates: they
  only show that the hypotheses on the parameters can hold together, so that the theorems that use
  them say something. The tag is a checksum of key, nonce and associated data.
\<close>

subsection \<open>Definitions\<close>

definition ref_rng :: "nat rng" where
  "ref_rng s n = (Some (\<lambda>i. word_of_nat (s + i)), s + n)"

definition ref_tag :: "bytes \<Rightarrow> bytes \<Rightarrow> bytes \<Rightarrow> bytes" where
  "ref_tag k n a = replicate 16 (sum_list k + sum_list n + sum_list a)"

definition ref_gcm_encrypt :: "bytes \<Rightarrow> bytes \<Rightarrow> bytes \<Rightarrow> bytes \<Rightarrow> bytes option" where
  "ref_gcm_encrypt k n m a = Some (m @ ref_tag k n a)"

definition ref_gcm_decrypt :: "bytes \<Rightarrow> bytes \<Rightarrow> bytes \<Rightarrow> bytes \<Rightarrow> bytes option" where
  "ref_gcm_decrypt k n c a =
     (if 16 \<le> length c \<and> drop (length c - 16) c = ref_tag k n a
      then Some (take (length c - 16) c) else None)"

type_synonym ref_stream = "bytes \<times> bytes \<times> nat"

definition ref_nonce :: "bytes \<Rightarrow> nat \<Rightarrow> bool \<Rightarrow> bytes" where
  "ref_nonce p i final = p @ u32_to_be_bytes (word_of_nat i) @ [if final then 1 else 0]"

fun ref_enc_next :: "ref_stream \<Rightarrow> bytes \<Rightarrow> bytes \<Rightarrow> (bytes \<times> ref_stream) option" where
  "ref_enc_next (k, p, i) m a =
     (if i < 2 ^ 32 - 1
      then map_option (\<lambda>c. (c, (k, p, Suc i))) (ref_gcm_encrypt k (ref_nonce p i False) m a) else None)"

fun ref_enc_last :: "ref_stream \<Rightarrow> bytes \<Rightarrow> bytes \<Rightarrow> bytes option" where
  "ref_enc_last (k, p, i) m a = ref_gcm_encrypt k (ref_nonce p i True) m a"

fun ref_dec_next :: "ref_stream \<Rightarrow> bytes \<Rightarrow> bytes \<Rightarrow> (bytes \<times> ref_stream) option" where
  "ref_dec_next (k, p, i) c a =
     (if i < 2 ^ 32 - 1
      then map_option (\<lambda>m. (m, (k, p, Suc i))) (ref_gcm_decrypt k (ref_nonce p i False) c a) else None)"

fun ref_dec_last :: "ref_stream \<Rightarrow> bytes \<Rightarrow> bytes \<Rightarrow> bytes option" where
  "ref_dec_last (k, p, i) c a = ref_gcm_decrypt k (ref_nonce p i True) c a"

definition ref_aead :: "(ref_stream, ref_stream) aead_lib" where
  "ref_aead =
     \<lparr> gcm_encrypt = ref_gcm_encrypt, gcm_decrypt = ref_gcm_decrypt,
       enc_from_aead = (\<lambda>k p. (k, p, 0)), enc_next = ref_enc_next, enc_last = ref_enc_last,
       dec_from_aead = (\<lambda>k p. (k, p, 0)), dec_next = ref_dec_next, dec_last = ref_dec_last \<rparr>"

definition ref_hkdf :: hkdf where
  "ref_hkdf secret info n =
     (if n \<le> 8160 then Some (\<lambda>i. sum_list secret + sum_list info + word_of_nat i) else None)"

definition ref_ed :: "(bytes, bytes) ed_lib" where
  "ref_ed =
     \<lparr> sk_from_bytes = (\<lambda>seed. take 32 (seed @ replicate 32 0)),
       sk_sign = (\<lambda>sk msg. replicate 64 (sum_list sk + sum_list msg)),
       sk_public = (\<lambda>sk. take 32 (sk @ replicate 32 0)),
       vk_from_bytes = Some,
       vk_verify_strict = (\<lambda>vk msg sig. sig = replicate 64 (sum_list vk + sum_list msg)) \<rparr>"

definition ref_bip39 :: "bytes bip39_lib" where
  "ref_bip39 =
     \<lparr> from_entropy = (\<lambda>ent. if length ent \<in> {16, 20, 24, 28, 32} then Some ent else None),
       mnemonic_to_string = map (\<lambda>b. char_of (unat b)),
       parse = (\<lambda>s. if length s \<in> {16, 20, 24, 28, 32} then Some (as_bytes s) else None),
       to_entropy = (\<lambda>m. m) \<rparr>"

subsection \<open>The hypotheses hold of the instances\<close>

lemma ref_rng_available: "rng_available ref_rng"
  by (simp add: rng_available_def ref_rng_def)

lemma ref_tag_length [simp]: "length (ref_tag k n a) = 16"
  by (simp add: ref_tag_def)

lemma ref_gcm_inverse: "ref_gcm_decrypt k n c a = Some m \<longleftrightarrow> ref_gcm_encrypt k n m a = Some c"
proof -
  have "16 \<le> length c \<and> drop (length c - 16) c = t \<and> take (length c - 16) c = m \<longleftrightarrow> c = m @ t"
    if "length t = 16" for t
    using that by (auto simp: append_take_drop_id)
  from this [of "ref_tag k n a"] show ?thesis
    by (auto simp: ref_gcm_decrypt_def ref_gcm_encrypt_def)
qed

lemma ref_aead_sel [simp]:
  "gcm_encrypt ref_aead = ref_gcm_encrypt" "gcm_decrypt ref_aead = ref_gcm_decrypt"
  "enc_from_aead ref_aead k p = (k, p, 0)" "dec_from_aead ref_aead k p = (k, p, 0)"
  "enc_next ref_aead = ref_enc_next" "enc_last ref_aead = ref_enc_last"
  "dec_next ref_aead = ref_dec_next" "dec_last ref_aead = ref_dec_last"
  by (simp_all add: ref_aead_def)

lemma ref_synced: "synced ref_aead k p e d \<Longrightarrow> e = d"
proof (induction rule: synced.induct)
  case start
  show ?case by simp
next
  case (step e d m a c e' d')
  then show ?case
    by (cases e) (auto split: if_splits)
qed

lemma ref_enc_after: "enc_after ref_aead k p n e \<Longrightarrow> e = (k, p, n)"
proof (induction rule: enc_after.induct)
  case start
  show ?case by simp
next
  case (step n e m a c e')
  then show ?case by (auto split: if_splits)
qed

lemma ref_gcm_laws:
  "gcm_correct ref_aead" "gcm_exact ref_aead" "gcm_tag16 ref_aead" "gcm_total ref_aead"
  by (simp_all add: gcm_correct_def gcm_exact_def ref_gcm_inverse)
    (auto simp: gcm_tag16_def gcm_total_def ref_gcm_encrypt_def)

lemma ref_next_inverse:
  "ref_dec_next e c a = Some (m, e') \<longleftrightarrow> ref_enc_next e m a = Some (c, e')"
  by (cases e) (auto simp: ref_gcm_inverse)

lemma ref_last_inverse: "ref_dec_last e c a = Some m \<longleftrightarrow> ref_enc_last e m a = Some c"
  by (cases e) (simp add: ref_gcm_inverse)

lemma ref_stream_laws:
  "stream_correct ref_aead" "stream_exact ref_aead" "stream_tag16 ref_aead" "stream_total ref_aead"
  "stream_min16 ref_aead"
proof -
  show "stream_correct ref_aead" "stream_exact ref_aead"
    unfolding stream_correct_def stream_exact_def
    by (auto dest!: ref_synced simp: ref_next_inverse ref_last_inverse simp del: ref_enc_next.simps
        ref_dec_next.simps ref_enc_last.simps ref_dec_last.simps)
  show "stream_tag16 ref_aead"
    unfolding stream_tag16_def by (auto simp: ref_gcm_encrypt_def split: if_splits)
  show "stream_total ref_aead"
    unfolding stream_total_def
    by (auto dest!: ref_enc_after simp: ref_gcm_encrypt_def)
  show "stream_min16 ref_aead"
    unfolding stream_min16_def by (auto simp: ref_gcm_decrypt_def)
qed

lemmas ref_aead_laws = ref_gcm_laws ref_stream_laws

lemma ref_hkdf_limit: "hkdf_limit ref_hkdf"
  by (simp add: hkdf_limit_def ref_hkdf_def)

lemma ref_ed_laws: "ed_correct ref_ed" "ed_sizes ref_ed"
  by (auto simp: ed_correct_def ed_sizes_def ref_ed_def)

lemma as_bytes_char_of: "as_bytes (map (\<lambda>b. char_of (unat b)) bs) = bs"
proof -
  have "(of_char (char_of (unat b)) :: u8) = b" for b :: u8
  proof -
    have "unat b < 2 ^ LENGTH(8)" by (rule unsigned_less)
    then have small: "unat b mod 256 = unat b" by simp
    have "(of_char (char_of (unat b)) :: u8) = word_of_nat (of_char (char_of (unat b)))"
      by (simp only: of_nat_of_char)
    also have "\<dots> = b"
      by (simp add: small)
    finally show ?thesis .
  qed
  then show ?thesis by (simp add: as_bytes_def map_idI)
qed

lemma ref_bip39_correct: "bip39_correct ref_bip39"
  by (simp add: bip39_correct_def ref_bip39_def as_bytes_char_of)

end
