(* ===== verification/Filum_Blob.thy ===== *)
theory Filum_Blob
  imports Filum_Aad Filum_Sealed Filum_Instances
begin

text \<open>
  The chunked blob format (\<open>blob.rs\<close>) in memory: data-key wrapping, the 72-byte header, and the
  \<open>encrypt_chunked\<close> and \<open>decrypt_chunked\<close> codecs. The file codecs are in \<open>Filum_Blob_File\<close>.
\<close>

subsection \<open>Constants\<close>

definition VERSION :: u8 where
  "VERSION = 2"

definition WRAPPED_KEY_LEN :: nat where
  "WRAPPED_KEY_LEN = 60"

definition NONCE_PREFIX_LEN :: nat where
  "NONCE_PREFIX_LEN = 7"

definition HEADER_LEN :: nat where
  "HEADER_LEN = 1 + WRAPPED_KEY_LEN + NONCE_PREFIX_LEN + 4"

definition CHUNK_SIZE :: nat where
  "CHUNK_SIZE = 1024 * 1024"

text \<open>\<open>(CHUNK_SIZE as u32).to_be_bytes()\<close>.\<close>

definition chunk_size_be :: bytes where
  "chunk_size_be = u32_to_be_bytes (word_of_nat CHUNK_SIZE)"

subsection \<open>Data-key wrapping\<close>

definition wrap_data_key ::
  "('e, 'd) aead_lib \<Rightarrow> 'r rng \<Rightarrow> bytes \<Rightarrow> bytes \<Rightarrow> bytes \<Rightarrow> ('r, FilumCryptoError, bytes) st" where
  "wrap_data_key A R data_key wrapping_key aad =
     st_bind (fill_random R (replicate 12 0)) (\<lambda>wrap_iv.
     st_lift (
       res_bind (ok_or Aead (gcm_encrypt A wrapping_key wrap_iv data_key aad)) (\<lambda>wrapped_key_ct.
       if length wrapped_key_ct \<noteq> WRAPPED_KEY_LEN - 12 then Err Aead
       else
         res_bind (copy_into (replicate WRAPPED_KEY_LEN 0) 0 12 wrap_iv) (\<lambda>out.
         copy_into out 12 WRAPPED_KEY_LEN wrapped_key_ct))))"

definition unwrap_data_key ::
  "('e, 'd) aead_lib \<Rightarrow> bytes \<Rightarrow> bytes \<Rightarrow> bytes \<Rightarrow> bytes Result" where
  "unwrap_data_key A wrapped wrapping_key aad =
     (if length wrapped \<noteq> WRAPPED_KEY_LEN then Err Aead
      else
        res_bind (split_at wrapped 12) (\<lambda>(wrap_iv_bytes, wrapped_ct).
        res_bind (copy_from_slice (replicate 12 0) wrap_iv_bytes) (\<lambda>wrap_iv.
        res_bind (ok_or Aead (gcm_decrypt A wrapping_key wrap_iv wrapped_ct aad)) (\<lambda>data_key_vec.
        if length data_key_vec \<noteq> 32 then Err Aead
        else copy_from_slice (replicate 32 0) data_key_vec))))"

subsection \<open>Header\<close>

definition write_header :: "bytes \<Rightarrow> bytes \<Rightarrow> bytes \<Rightarrow> bytes" where
  "write_header out wrapped_key nonce_prefix =
     out @ [VERSION] @ wrapped_key @ nonce_prefix @ chunk_size_be"

text \<open>
  The opening of \<open>encrypt_chunked\<close>, repeated word for word in \<open>encrypt_file_chunked\<close>: validate the
  identifier, draw the data key and the nonce prefix, wrap the data key under the header's AAD.
  Yields the segment AAD, the data key, the nonce prefix and the wrapped key.
\<close>

definition new_blob_keys ::
  "('e, 'd) aead_lib \<Rightarrow> 'r rng \<Rightarrow> bytes \<Rightarrow> string
     \<Rightarrow> ('r, FilumCryptoError, bytes \<times> bytes \<times> bytes \<times> bytes) st" where
  "new_blob_keys A R wrapping_key blob_id =
     st_bind (st_lift (blob_segment_aad blob_id)) (\<lambda>seg_aad.
     st_bind (fill_random R (replicate 32 0)) (\<lambda>data_key.
     st_bind (fill_random R (replicate NONCE_PREFIX_LEN 0)) (\<lambda>nonce_prefix.
     st_bind (st_lift (blob_wrap_aad blob_id VERSION nonce_prefix chunk_size_be)) (\<lambda>wrap_aad.
     st_bind (wrap_data_key A R data_key wrapping_key wrap_aad) (\<lambda>wrapped.
     st_lift (Ok (seg_aad, data_key, nonce_prefix, wrapped)))))))"

text \<open>
  The header parsing of \<open>decrypt_chunked\<close> after the length and version guards, repeated word for word
  in \<open>decrypt_file_chunked\<close>: nonce prefix, pinned chunk size, key unwrap.
\<close>

definition open_header ::
  "('e, 'd) aead_lib \<Rightarrow> bytes \<Rightarrow> bytes \<Rightarrow> string \<Rightarrow> (bytes \<times> bytes \<times> nat) Result" where
  "open_header A header wrapping_key blob_id =
     res_bind (slice header (1 + WRAPPED_KEY_LEN) (1 + WRAPPED_KEY_LEN + NONCE_PREFIX_LEN)) (\<lambda>src.
     res_bind (copy_from_slice (replicate NONCE_PREFIX_LEN 0) src) (\<lambda>nonce_prefix.
     let cs_off = 1 + WRAPPED_KEY_LEN + NONCE_PREFIX_LEN in
     res_bind (slice header cs_off (cs_off + 4)) (\<lambda>cs_bytes.
     res_bind (u32_from_be_slice cs_bytes) (\<lambda>cs.
     let chunk_size = unat cs in
     if chunk_size \<noteq> CHUNK_SIZE then Err Aead
     else
       res_bind (blob_wrap_aad blob_id VERSION nonce_prefix chunk_size_be) (\<lambda>wrap_aad.
       res_bind (slice header 1 (1 + WRAPPED_KEY_LEN)) (\<lambda>wrapped.
       res_bind (unwrap_data_key A wrapped wrapping_key wrap_aad) (\<lambda>data_key.
       Ok (nonce_prefix, data_key, chunk_size))))))))"

subsection \<open>The in-memory codec\<close>

text \<open>The loop \<open>for i in 0..full_chunks\<close>: the encryptor and the output buffer are updated.\<close>

fun encrypt_full_chunks ::
  "('e, 'd) aead_lib \<Rightarrow> bytes \<Rightarrow> bytes \<Rightarrow> nat list \<Rightarrow> 'e \<Rightarrow> bytes \<Rightarrow> ('e \<times> bytes) Result" where
  "encrypt_full_chunks A seg_aad plaintext [] enc out = Ok (enc, out)"
| "encrypt_full_chunks A seg_aad plaintext (i # is) enc out =
     (let start = i * CHUNK_SIZE in
      res_bind (slice plaintext start (start + CHUNK_SIZE)) (\<lambda>msg.
      res_bind (ok_or Aead (enc_next A enc msg seg_aad)) (\<lambda>(ct, enc').
      encrypt_full_chunks A seg_aad plaintext is enc' (out @ ct))))"

definition encrypt_chunked ::
  "('e, 'd) aead_lib \<Rightarrow> 'r rng \<Rightarrow> bytes \<Rightarrow> bytes \<Rightarrow> string \<Rightarrow> ('r, FilumCryptoError, bytes) st" where
  "encrypt_chunked A R plaintext wrapping_key blob_id =
     st_bind (new_blob_keys A R wrapping_key blob_id) (\<lambda>(seg_aad, data_key, nonce_prefix, wrapped).
     st_lift (
       let out = write_header [] wrapped nonce_prefix;
           enc = enc_from_aead A data_key nonce_prefix;
           full_chunks = length plaintext div CHUNK_SIZE
       in
         res_bind (encrypt_full_chunks A seg_aad plaintext [0..<full_chunks] enc out) (\<lambda>(enc, out).
         res_bind (slice plaintext (full_chunks * CHUNK_SIZE) (length plaintext)) (\<lambda>msg.
         res_bind (ok_or Aead (enc_last A enc msg seg_aad)) (\<lambda>ct.
         Ok (out @ ct))))))"

text \<open>
  The loop \<open>while let Some(chunk) = it.next()\<close> over the peekable chunk iterator: a chunk is the last
  one exactly when nothing follows it.
\<close>

fun decrypt_segments ::
  "('e, 'd) aead_lib \<Rightarrow> bytes \<Rightarrow> 'd \<Rightarrow> bytes \<Rightarrow> bytes list \<Rightarrow> bytes Result" where
  "decrypt_segments A seg_aad dec out [] = Ok out"
| "decrypt_segments A seg_aad dec out (chunk # it) =
     (if it \<noteq> [] then
        res_bind (ok_or Aead (dec_next A dec chunk seg_aad)) (\<lambda>(pt, dec').
        decrypt_segments A seg_aad dec' (out @ pt) it)
      else
        res_bind (ok_or Aead (dec_last A dec chunk seg_aad)) (\<lambda>pt. Ok (out @ pt)))"

definition decrypt_chunked ::
  "('e, 'd) aead_lib \<Rightarrow> bytes \<Rightarrow> bytes \<Rightarrow> string \<Rightarrow> bytes Result" where
  "decrypt_chunked A framed wrapping_key blob_id =
     res_bind (blob_segment_aad blob_id) (\<lambda>seg_aad.
     if length framed < HEADER_LEN then Err Aead
     else
       res_bind (index framed 0) (\<lambda>version.
       if version \<noteq> VERSION then Err Aead
       else
         res_bind (open_header A framed wrapping_key blob_id) (\<lambda>(nonce_prefix, data_key, chunk_size).
         let ct_chunk = chunk_size + 16;
             dec = dec_from_aead A data_key nonce_prefix
         in
           res_bind (slice framed HEADER_LEN (length framed)) (\<lambda>body.
           let it = chunks ct_chunk body in
           if it = [] then Err Aead
           else decrypt_segments A seg_aad dec [] it))))"

subsection \<open>Reference definitions\<close>

text \<open>
  What the codec computes, without its loops: a message sequence is sealed by \<open>encrypt_next\<close> on all
  but the last message and \<open>encrypt_last\<close> on the last; a plaintext is cut into its full chunks and
  the remainder, which is empty at exact multiples of the chunk size.
\<close>

fun seal_segments ::
  "('e, 'd) aead_lib \<Rightarrow> bytes \<Rightarrow> 'e \<Rightarrow> bytes list \<Rightarrow> bytes \<Rightarrow> bytes list option" where
  "seal_segments A a e [] m = map_option (\<lambda>c. [c]) (enc_last A e m a)"
| "seal_segments A a e (x # xs) m =
     (case enc_next A e x a of None \<Rightarrow> None
      | Some (c, e') \<Rightarrow> map_option ((#) c) (seal_segments A a e' xs m))"

fun open_segments :: "('e, 'd) aead_lib \<Rightarrow> bytes \<Rightarrow> 'd \<Rightarrow> bytes list \<Rightarrow> bytes option" where
  "open_segments A a d [] = None"
| "open_segments A a d [c] = dec_last A d c a"
| "open_segments A a d (c # cs) =
     (case dec_next A d c a of None \<Rightarrow> None
      | Some (m, d') \<Rightarrow> map_option ((@) m) (open_segments A a d' cs))"

definition full_parts :: "nat \<Rightarrow> 'a list \<Rightarrow> 'a list list" where
  "full_parts n xs = map (\<lambda>i. take n (drop (i * n) xs)) [0..<length xs div n]"

definition last_part :: "nat \<Rightarrow> 'a list \<Rightarrow> 'a list" where
  "last_part n xs = drop (length xs div n * n) xs"

text \<open>The bytes the key wrap authenticates, and the whole blob for given keys.\<close>

definition wrap_aad_bytes :: "string \<Rightarrow> bytes \<Rightarrow> bytes" where
  "wrap_aad_bytes blob_id nonce_prefix =
     BLOB_DOMAIN @ length_prefixed blob_id @ [VERSION] @ nonce_prefix @ chunk_size_be"

definition seg_aad_bytes :: "string \<Rightarrow> bytes" where
  "seg_aad_bytes blob_id = BLOB_DOMAIN @ length_prefixed blob_id"

text \<open>
  The blob of a given cut of a plaintext into messages: the header of the draws \<open>dk\<close> (the data key),
  \<open>np\<close> (the nonce prefix) and \<open>iv\<close> (of the key wrap), and the sealed messages in order.
\<close>

definition seal_parts ::
  "('e, 'd) aead_lib \<Rightarrow> bytes \<Rightarrow> string \<Rightarrow> bytes \<Rightarrow> bytes \<Rightarrow> bytes \<Rightarrow> bytes list \<Rightarrow> bytes \<Rightarrow> bytes Result" where
  "seal_parts A wk blob_id dk np iv xs m =
     res_bind (blob_segment_aad blob_id) (\<lambda>aad.
     res_bind (blob_wrap_aad blob_id VERSION np chunk_size_be) (\<lambda>wrap_aad.
     res_bind (ok_or Aead (gcm_encrypt A wk iv dk wrap_aad)) (\<lambda>ct.
     res_bind (ok_or Aead (seal_segments A aad (enc_from_aead A dk np) xs m)) (\<lambda>cts.
     Ok (write_header [] (iv @ ct) np @ concat cts)))))"

subsection \<open>Constants, evaluated\<close>

lemma layout_simps [simp]:
  "WRAPPED_KEY_LEN = 60" "NONCE_PREFIX_LEN = 7" "HEADER_LEN = 72"
  by (simp_all add: WRAPPED_KEY_LEN_def NONCE_PREFIX_LEN_def HEADER_LEN_def)

lemma CHUNK_SIZE_pos [simp]: "0 < CHUNK_SIZE"
  by (simp add: CHUNK_SIZE_def)

lemma length_chunk_size_be [simp]: "length chunk_size_be = 4"
  by (simp add: chunk_size_be_def)

lemma chunk_size_be_iff:
  assumes "length bs = 4"
  shows "unat (from_be_bytes bs :: u32) = CHUNK_SIZE \<longleftrightarrow> bs = chunk_size_be"
proof -
  have "unat (word_of_nat CHUNK_SIZE :: u32) = CHUNK_SIZE"
    by (simp add: unat_of_nat CHUNK_SIZE_def)
  then have "unat (from_be_bytes bs :: u32) = CHUNK_SIZE \<longleftrightarrow> from_be_bytes bs = (word_of_nat CHUNK_SIZE :: u32)"
    by (metis word_unat_eq_iff)
  then show ?thesis
    using assms by (simp add: be32.dec_eq_iff chunk_size_be_def)
qed

lemma unat_chunk_size_be [simp]: "unat (from_be_bytes chunk_size_be :: u32) = CHUNK_SIZE"
  by (simp add: chunk_size_be_iff)

lemma length_write_header [simp]:
  "length (write_header out w p) = length out + 1 + length w + length p + 4"
  by (simp add: write_header_def)

subsection \<open>Cutting a plaintext\<close>

lemma parts_short:
  "length xs < n \<Longrightarrow> full_parts n xs = []"
  "length xs < n \<Longrightarrow> last_part n xs = xs"
  by (simp_all add: full_parts_def last_part_def)

lemma parts_long:
  assumes "0 < n" "n \<le> length xs"
  shows "full_parts n xs = take n xs # full_parts n (drop n xs)"
    and "last_part n xs = last_part n (drop n xs)"
proof -
  have q: "length xs div n = Suc ((length xs - n) div n)"
    using assms by (simp add: le_div_geq)
  have idx: "[0..<Suc m] = 0 # map Suc [0..<m]" for m
    by (simp add: upt_conv_Cons map_Suc_upt del: upt_Suc)
  show "full_parts n xs = take n xs # full_parts n (drop n xs)"
    unfolding full_parts_def q length_drop idx by (simp add: add.commute del: map_Suc_upt)
  show "last_part n xs = last_part n (drop n xs)"
    by (simp add: last_part_def q add.commute)
qed

lemma parts_induct [consumes 1, case_names short long]:
  assumes "0 < n"
    and short: "\<And>xs. length xs < n \<Longrightarrow> P xs"
    and long: "\<And>xs. n \<le> length xs \<Longrightarrow> P (drop n xs) \<Longrightarrow> P xs"
  shows "P xs"
proof (induction xs rule: measure_induct_rule [of length])
  case (less xs)
  show ?case
  proof (cases "length xs < n")
    case True
    then show ?thesis by (rule short)
  next
    case False
    then have "n \<le> length xs" by simp
    moreover from this have "P (drop n xs)" using assms(1) by (intro less) auto
    ultimately show ?thesis by (rule long)
  qed
qed

lemma concat_parts:
  assumes "0 < n"
  shows "concat (full_parts n xs) @ last_part n xs = xs"
  using assms
proof (induction xs rule: parts_induct)
  case (long xs)
  then show ?case using assms by (simp add: parts_long)
qed (simp add: parts_short)

text \<open>The chunk iterator yields the full parts, and the last part unless it is empty.\<close>

lemma chunks_parts:
  assumes "0 < n"
  shows "chunks n xs = full_parts n xs @ (if n dvd length xs then [] else [last_part n xs])"
  using assms
proof (induction xs rule: parts_induct)
  case (short xs)
  then show ?case
    by (cases "xs = []") (auto simp: parts_short chunks_short dest: dvd_imp_le)
next
  case (long xs)
  then have "xs \<noteq> []" "n dvd length (drop n xs) \<longleftrightarrow> n dvd length xs"
    using assms by (auto simp: dvd_minus_self)
  then show ?case
    using long assms by (simp add: chunks_nonempty parts_long)
qed

lemma full_parts_length: "x \<in> set (full_parts n xs) \<Longrightarrow> length x = n"
  using part_in_range [where 'a = 'a] by (fastforce simp: full_parts_def)

lemma length_full_parts [simp]: "length (full_parts n xs) = length xs div n"
  by (simp add: full_parts_def)

lemma length_last_part: "length (last_part n xs) = length xs mod n"
  by (simp add: last_part_def minus_div_mult_eq_mod)

subsection \<open>Sealing and opening segment sequences\<close>

lemma seal_length: "seal_segments A a e xs m = Some cts \<Longrightarrow> length cts = Suc (length xs)"
  by (induction xs arbitrary: e cts) (auto split: option.splits)

lemma seal_then_open:
  assumes "stream_correct A" "length k = 32" "length p = 7"
  shows "synced A k p e d \<Longrightarrow> seal_segments A a e xs m = Some cts \<Longrightarrow>
    open_segments A a d cts = Some (concat xs @ m)"
proof (induction xs arbitrary: e d cts)
  case Nil
  then show ?case
    using stream_correct_last [OF assms] by auto
next
  case (Cons x xs)
  then obtain c e' cts' where nx: "enc_next A e x a = Some (c, e')"
    and rest: "seal_segments A a e' xs m = Some cts'" and cts: "cts = c # cts'"
    by (auto split: option.splits)
  obtain d' where d': "dec_next A d c a = Some (x, d')" "synced A k p e' d'"
    using stream_correct_next [OF assms Cons.prems(1) nx] .
  have "cts' \<noteq> []" using seal_length [OF rest] by auto
  then show ?case
    using Cons.IH [OF d'(2) rest] d'(1) cts by (cases cts') auto
qed

lemma open_then_seal:
  assumes "stream_exact A" "length k = 32" "length p = 7"
  shows "synced A k p e d \<Longrightarrow> open_segments A a d cts = Some pt \<Longrightarrow>
    \<exists>xs m. pt = concat xs @ m \<and> seal_segments A a e xs m = Some cts"
proof (induction cts arbitrary: e d pt)
  case Nil
  then show ?case by simp
next
  case (Cons c cts)
  show ?case
  proof (cases "cts = []")
    case True
    with Cons.prems have "seal_segments A a e [] pt = Some (c # cts)"
      using stream_exact_last [OF assms] by simp
    then show ?thesis by (metis append_Nil concat.simps(1))
  next
    case False
    with Cons.prems(2) obtain m d' pt' where m: "dec_next A d c a = Some (m, d')"
      and rest: "open_segments A a d' cts = Some pt'" and pt: "pt = m @ pt'"
      by (cases cts) (auto split: option.splits)
    obtain e' where e': "enc_next A e m a = Some (c, e')" "synced A k p e' d'"
      using stream_exact_next [OF assms Cons.prems(1) m] .
    obtain xs l where "pt' = concat xs @ l" "seal_segments A a e' xs l = Some cts"
      using Cons.IH [OF e'(2) rest] by blast
    then have "pt = concat (m # xs) @ l \<and> seal_segments A a e (m # xs) l = Some (c # cts)"
      using e'(1) pt by simp
    then show ?thesis by blast
  qed
qed

lemma seal_lengths:
  assumes "stream_tag16 A"
  shows "seal_segments A a e xs m = Some cts \<Longrightarrow> map length cts = map (\<lambda>x. length x + 16) (xs @ [m])"
  by (induction xs arbitrary: e cts)
    (auto split: option.splits dest: stream_tag16_next [OF assms] stream_tag16_last [OF assms])

lemma chunks_concat:
  assumes "0 < n"
  shows "cts \<noteq> [] \<Longrightarrow> \<forall>c \<in> set (butlast cts). length c = n \<Longrightarrow> last cts \<noteq> [] \<Longrightarrow>
    length (last cts) \<le> n \<Longrightarrow> chunks n (concat cts) = cts"
proof (induction cts)
  case (Cons c cts)
  then show ?case
    using assms by (cases "cts = []") (simp_all add: chunks_short chunks_append)
qed simp

lemma length_concat_map: "length (concat cts) = sum_list (map length cts)"
  by (simp add: length_concat)

lemma seal_chunks:
  assumes tag: "stream_tag16 A" and seal: "seal_segments A a e xs m = Some cts"
    and full: "\<forall>x \<in> set xs. length x = n" and "length m \<le> n"
  shows "chunks (n + 16) (concat cts) = cts"
proof (rule chunks_concat)
  have lens: "map length cts = map (\<lambda>x. length x + 16) xs @ [length m + 16]"
    using seal_lengths [OF tag seal] by simp
  then have ne: "cts \<noteq> []" by auto
  have "map length (butlast cts) = map (\<lambda>x. length x + 16) xs"
    using lens by (simp add: map_butlast)
  then have "set (map length (butlast cts)) = set (map (\<lambda>x. length x + 16) xs)" by simp
  then show "\<forall>c \<in> set (butlast cts). length c = n + 16"
    using full by (auto simp: set_eq_iff image_iff)
  have "length (last cts) = length m + 16"
    using lens ne by (metis last_map last_snoc)
  then show "last cts \<noteq> []" "length (last cts) \<le> n + 16"
    using assms(4) by auto
  show "cts \<noteq> []" by (rule ne)
qed simp

subsection \<open>Loops against the reference\<close>

lemma encrypt_full_chunks_seal:
  assumes "\<forall>i \<in> set is. (i + 1) * CHUNK_SIZE \<le> length pt"
  shows "res_bind (encrypt_full_chunks A a pt is e out)
           (\<lambda>(e, out). res_bind (ok_or Aead (enc_last A e m a)) (\<lambda>ct. Ok (out @ ct)))
       = (case seal_segments A a e (map (\<lambda>i. take CHUNK_SIZE (drop (i * CHUNK_SIZE) pt)) is) m of
            None \<Rightarrow> Err Aead | Some cts \<Rightarrow> Ok (out @ concat cts))"
  using assms
proof (induction "is" arbitrary: e out)
  case Nil
  show ?case by (cases "enc_last A e m a") simp_all
next
  case (Cons i "is")
  then show ?case
    by (auto simp: Let_def slice_simps add.commute split: option.split)
qed

lemma decrypt_segments_open:
  "cts \<noteq> [] \<Longrightarrow> decrypt_segments A a d out cts =
     (case open_segments A a d cts of None \<Rightarrow> Err Aead | Some pt \<Rightarrow> Ok (out @ pt))"
proof (induction cts arbitrary: d out)
  case (Cons c cts)
  show ?case
  proof (cases cts)
    case Nil
    then show ?thesis by (cases "dec_last A d c a") simp_all
  next
    case (Cons c' cts')
    then show ?thesis
      using Cons.IH by (auto split: option.split)
  qed
qed simp

subsection \<open>Key wrapping and header\<close>

lemma unwrap_data_key_eq:
  "unwrap_data_key A w wk aad =
     (if length w = 60 then
        (case gcm_decrypt A wk (take 12 w) (drop 12 w) aad of None \<Rightarrow> Err Aead
         | Some dk \<Rightarrow> if length dk = 32 then Ok dk else Err Aead)
      else Err Aead)"
  by (auto simp: unwrap_data_key_def slice_simps split: option.split)

lemma wrap_data_key_eq:
  "wrap_data_key A R dk wk aad s =
     (case fill_random R (replicate 12 0) s of
        (Ok iv, s') \<Rightarrow>
          (case gcm_encrypt A wk iv dk aad of
             None \<Rightarrow> (Err Aead, s')
           | Some ct \<Rightarrow> if length ct = 48 then (Ok (iv @ ct), s') else (Err Aead, s'))
      | (Err e, s') \<Rightarrow> (Err e, s')
      | (Panic, s') \<Rightarrow> (Panic, s'))"
proof (cases "fill_random R (replicate 12 0) s")
  case (Pair r s')
  then have "length iv = 12" if "r = Ok iv" for iv
    using fill_random_length [of R "replicate 12 0" s iv s'] that by simp
  then show ?thesis
    using Pair
    by (cases r) (auto simp: wrap_data_key_def st_bind_def slice_simps split: option.split)
qed

lemma wrap_data_key_Ok:
  assumes "wrap_data_key A R dk wk aad s = (Ok w, s')"
  obtains iv ct where "w = iv @ ct" "length iv = 12" "length ct = 48"
    "gcm_encrypt A wk iv dk aad = Some ct"
  using assms fill_random_length [of R "replicate 12 0" s]
  by (fastforce simp: wrap_data_key_eq split: prod.splits outcome.splits option.splits if_splits)

lemma new_blob_keys_Ok:
  assumes "new_blob_keys A R wk blob_id s = (Ok (aad, dk, np, w), s')"
  obtains iv ct where "valid_context blob_id" "aad = seg_aad_bytes blob_id" "length dk = 32"
    "length np = 7" "w = iv @ ct" "length iv = 12" "length ct = 48"
    "gcm_encrypt A wk iv dk (wrap_aad_bytes blob_id np) = Some ct"
proof -
  from assms have valid: "valid_context blob_id"
    by (auto simp: new_blob_keys_def blob_segment_aad_eq split: if_splits)
  with assms obtain s1 s2 where
      dk: "fill_random R (replicate 32 0) s = (Ok dk, s1)"
    and np: "fill_random R (replicate 7 0) s1 = (Ok np, s2)"
    and w: "wrap_data_key A R dk wk (wrap_aad_bytes blob_id np) s2 = (Ok w, s')"
    and aad: "aad = seg_aad_bytes blob_id"
    by (auto simp: new_blob_keys_def blob_segment_aad_eq blob_wrap_aad_eq st_bind_eq_Ok
        seg_aad_bytes_def wrap_aad_bytes_def)
  show thesis
    using that valid aad fill_random_length [OF dk] fill_random_length [OF np] wrap_data_key_Ok [OF w]
    by (metis length_replicate)
qed

lemma open_header_eq:
  assumes "72 \<le> length h" "valid_context blob_id"
  shows "open_header A h wk blob_id =
     (if take 4 (drop 68 h) = chunk_size_be then
        res_bind (unwrap_data_key A (take 60 (drop 1 h)) wk (wrap_aad_bytes blob_id (take 7 (drop 61 h))))
          (\<lambda>dk. Ok (take 7 (drop 61 h), dk, CHUNK_SIZE))
      else Err Aead)"
  using assms
  by (auto simp: open_header_def slice_simps u32_from_be_slice_def Let_def chunk_size_be_iff
      blob_wrap_aad_eq wrap_aad_bytes_def)

lemma open_header_written:
  assumes "length w = 60" "length np = 7" "valid_context blob_id"
  shows "open_header A (write_header [] w np @ body) wk blob_id =
     res_bind (unwrap_data_key A w wk (wrap_aad_bytes blob_id np)) (\<lambda>dk. Ok (np, dk, CHUNK_SIZE))"
  using assms by (simp add: open_header_eq) (simp add: write_header_def)

lemma open_header_take:
  assumes "72 \<le> length h" "valid_context blob_id"
  shows "open_header A (take 72 h) wk blob_id = open_header A h wk blob_id"
  using assms by (simp add: open_header_eq drop_take min_def)

subsection \<open>The codec against the reference\<close>

definition body_result :: "bytes \<Rightarrow> bytes list option \<Rightarrow> bytes Result" where
  "body_result out r = (case r of None \<Rightarrow> Err Aead | Some cts \<Rightarrow> Ok (out @ concat cts))"

lemma encrypt_chunked_eq:
  "encrypt_chunked A R pt wk blob_id s =
     (case new_blob_keys A R wk blob_id s of
        (Ok (aad, dk, np, w), s') \<Rightarrow>
          (body_result (write_header [] w np)
             (seal_segments A aad (enc_from_aead A dk np) (full_parts CHUNK_SIZE pt)
                (last_part CHUNK_SIZE pt)), s')
      | (Err e, s') \<Rightarrow> (Err e, s')
      | (Panic, s') \<Rightarrow> (Panic, s'))"
proof -
  let ?is = "[0..<length pt div CHUNK_SIZE]"
  have "\<forall>i \<in> set ?is. (i + 1) * CHUNK_SIZE \<le> length pt"
    using part_in_range [of _ pt CHUNK_SIZE] by auto
  note loop = encrypt_full_chunks_seal [OF this]
  show ?thesis
    by (auto simp: encrypt_chunked_def st_bind_def Let_def slice_simps loop full_parts_def last_part_def
        body_result_def
        split: prod.split outcome.split)
qed

lemma decrypt_chunked_eq:
  assumes "valid_context blob_id"
  shows "decrypt_chunked A framed wk blob_id =
     (if length framed < 72 \<or> hd framed \<noteq> VERSION then Err Aead
      else res_bind (open_header A framed wk blob_id) (\<lambda>(np, dk, cs).
        ok_or Aead (open_segments A (seg_aad_bytes blob_id) (dec_from_aead A dk np)
          (chunks (cs + 16) (drop 72 framed)))))"
proof (cases "length framed < 72")
  case False
  then have "framed \<noteq> []" by auto
  have "(if it = [] then Err Aead else decrypt_segments A a d [] it) = ok_or Aead (open_segments A a d it)"
    for it a and d :: 'b
    by (auto simp: decrypt_segments_open split: option.split)
  then show ?thesis
    using False assms \<open>framed \<noteq> []\<close>
    by (simp add: decrypt_chunked_def blob_segment_aad_eq seg_aad_bytes_def Let_def slice_simps hd_conv_nth)
qed (use assms in \<open>simp add: decrypt_chunked_def blob_segment_aad_eq\<close>)

lemma encrypt_chunked_Ok:
  assumes "encrypt_chunked A R pt wk blob_id s = (Ok framed, s')"
  obtains dk np iv ct cts where "valid_context blob_id" "length dk = 32" "length np = 7"
    "length iv = 12" "length ct = 48" "framed = write_header [] (iv @ ct) np @ concat cts"
    "gcm_encrypt A wk iv dk (wrap_aad_bytes blob_id np) = Some ct"
    "seal_segments A (seg_aad_bytes blob_id) (enc_from_aead A dk np) (full_parts CHUNK_SIZE pt)
       (last_part CHUNK_SIZE pt) = Some cts"
proof -
  from assms obtain aad dk np w where keys: "new_blob_keys A R wk blob_id s = (Ok (aad, dk, np, w), s')"
    and body: "body_result (write_header [] w np) (seal_segments A aad (enc_from_aead A dk np)
        (full_parts CHUNK_SIZE pt) (last_part CHUNK_SIZE pt)) = Ok framed"
    by (auto simp: encrypt_chunked_eq split: prod.splits outcome.splits)
  from body obtain cts where cts: "seal_segments A aad (enc_from_aead A dk np)
        (full_parts CHUNK_SIZE pt) (last_part CHUNK_SIZE pt) = Some cts"
    and framed: "framed = write_header [] w np @ concat cts"
    by (auto simp: body_result_def split: option.splits)
  obtain iv ct where k: "valid_context blob_id" "aad = seg_aad_bytes blob_id" "length dk = 32"
    "length np = 7" "w = iv @ ct" "length iv = 12" "length ct = 48"
    "gcm_encrypt A wk iv dk (wrap_aad_bytes blob_id np) = Some ct"
    using new_blob_keys_Ok [OF keys] .
  show thesis
    using that [OF k(1,3,4,6,7) _ k(8)] framed cts by (simp add: k(2,5))
qed

lemma decrypt_chunked_Ok:
  assumes "decrypt_chunked A framed wk blob_id = Ok pt"
  obtains dk where "valid_context blob_id" "72 \<le> length framed" "hd framed = VERSION"
    "take 4 (drop 68 framed) = chunk_size_be" "length dk = 32"
    "gcm_decrypt A wk (take 12 (drop 1 framed)) (take 48 (drop 13 framed))
       (wrap_aad_bytes blob_id (take 7 (drop 61 framed))) = Some dk"
    "open_segments A (seg_aad_bytes blob_id) (dec_from_aead A dk (take 7 (drop 61 framed)))
       (chunks (CHUNK_SIZE + 16) (drop 72 framed)) = Some pt"
proof -
  from assms have valid: "valid_context blob_id"
    by (auto simp: decrypt_chunked_def blob_segment_aad_eq split: if_splits)
  with assms have guards: "72 \<le> length framed" "hd framed = VERSION"
    by (auto simp: decrypt_chunked_eq not_less split: if_splits)
  with assms valid have cs: "take 4 (drop 68 framed) = chunk_size_be"
    by (auto simp: decrypt_chunked_eq open_header_eq split: if_splits)
  have split: "take 12 (take 60 (drop 1 framed)) = take 12 (drop 1 framed)"
    "drop 12 (take 60 (drop 1 framed)) = take 48 (drop 13 framed)"
    by (simp_all add: drop_take min_def)
  from assms valid guards cs obtain dk where dk:
      "unwrap_data_key A (take 60 (drop 1 framed)) wk (wrap_aad_bytes blob_id (take 7 (drop 61 framed))) = Ok dk"
    and body: "open_segments A (seg_aad_bytes blob_id) (dec_from_aead A dk (take 7 (drop 61 framed)))
       (chunks (CHUNK_SIZE + 16) (drop 72 framed)) = Some pt"
    by (auto simp: decrypt_chunked_eq open_header_eq res_bind_eq_Ok)
  from dk have "gcm_decrypt A wk (take 12 (drop 1 framed)) (take 48 (drop 13 framed))
       (wrap_aad_bytes blob_id (take 7 (drop 61 framed))) = Some dk" "length dk = 32"
    unfolding unwrap_data_key_eq split by (auto split: if_splits option.splits)
  then show thesis
    by (rule that [OF valid guards cs _ _ body, rotated])
qed

subsection \<open>The blob codec keeps the contract\<close>

text \<open>The laws the round trip needs of the AEAD crates.\<close>

definition aead_lawful :: "('e, 'd) aead_lib \<Rightarrow> bool" where
  "aead_lawful A \<longleftrightarrow> gcm_correct A \<and> stream_correct A \<and> stream_tag16 A"

lemma last_part_short: "0 < n \<Longrightarrow> length (last_part n xs) < n"
  by (simp add: length_last_part)

lemma encrypt_then_decrypt:
  assumes "aead_lawful A" "length wk = 32" "encrypt_chunked A R pt wk blob_id s = (Ok framed, s')"
  shows "decrypt_chunked A framed wk blob_id = Ok pt"
proof -
  from assms(1) have laws: "gcm_correct A" "stream_correct A" "stream_tag16 A"
    by (simp_all add: aead_lawful_def)
  obtain dk np iv ct cts where e: "valid_context blob_id" "length dk = 32" "length np = 7"
    "length iv = 12" "length ct = 48" "framed = write_header [] (iv @ ct) np @ concat cts"
    "gcm_encrypt A wk iv dk (wrap_aad_bytes blob_id np) = Some ct"
    "seal_segments A (seg_aad_bytes blob_id) (enc_from_aead A dk np) (full_parts CHUNK_SIZE pt)
       (last_part CHUNK_SIZE pt) = Some cts"
    using encrypt_chunked_Ok [OF assms(3)] .
  have ch: "chunks (CHUNK_SIZE + 16) (concat cts) = cts"
    by (rule seal_chunks [OF laws(3) e(8)]) (auto intro: full_parts_length simp: less_imp_le last_part_short)
  have op: "open_segments A (seg_aad_bytes blob_id) (dec_from_aead A dk np) cts = Some pt"
    using seal_then_open [OF laws(2) e(2,3) synced.start e(8)] by (simp add: concat_parts)
  have "open_header A framed wk blob_id = Ok (np, dk, CHUNK_SIZE)"
    using e(1-5) gcm_correctD [OF laws(1) assms(2) e(4,7)]
    by (simp add: e(6) open_header_written unwrap_data_key_eq)
  moreover have "length framed \<ge> 72" "hd framed = VERSION" "drop 72 framed = concat cts"
    using e(3-5) by (simp_all add: e(6)) (simp_all add: write_header_def)
  ultimately show ?thesis
    using e(1) ch op by (simp add: decrypt_chunked_eq)
qed

lemma wrap_aad_bytes_inject:
  assumes "valid_context i" "valid_context j" "length p = length q"
    and "wrap_aad_bytes i p = wrap_aad_bytes j q"
  shows "i = j \<and> p = q"
  using lp.prefixed_inject [OF assms(1,2) assms(4) [unfolded wrap_aad_bytes_def]] assms(3) by simp

lemma new_blob_keys_errors:
  "\<not> valid_context blob_id \<Longrightarrow> new_blob_keys A R wk blob_id s = (Err InvalidContext, s)"
  "valid_context blob_id \<Longrightarrow> new_blob_keys A R wk blob_id s = (Err e, s') \<Longrightarrow> e = Randomness \<or> e = Aead"
  "new_blob_keys A R wk blob_id s \<noteq> (Panic, s')"
  by (auto simp: new_blob_keys_def blob_segment_aad_eq blob_wrap_aad_eq wrap_data_key_eq st_bind_def
      split: prod.splits outcome.splits option.splits if_splits dest: fill_random_Err)

lemma encrypt_chunked_errors:
  "\<not> valid_context blob_id \<Longrightarrow> encrypt_chunked A R pt wk blob_id s = (Err InvalidContext, s)"
  "valid_context blob_id \<Longrightarrow> encrypt_chunked A R pt wk blob_id s = (Err e, s') \<Longrightarrow>
     e = Randomness \<or> e = Aead"
  "encrypt_chunked A R pt wk blob_id s \<noteq> (Panic, s')"
  by (auto simp: encrypt_chunked_eq body_result_def new_blob_keys_errors(1,3)
      split: prod.splits outcome.splits option.splits dest: new_blob_keys_errors(2))

lemma decrypt_chunked_errors:
  "\<not> valid_context blob_id \<Longrightarrow> decrypt_chunked A framed wk blob_id = Err InvalidContext"
  "valid_context blob_id \<Longrightarrow> decrypt_chunked A framed wk blob_id = Err e \<Longrightarrow> e = Aead"
  "decrypt_chunked A framed wk blob_id \<noteq> Panic"
proof -
  show invalid: "\<not> valid_context blob_id \<Longrightarrow> decrypt_chunked A framed wk blob_id = Err InvalidContext"
    by (simp add: decrypt_chunked_def blob_segment_aad_eq)
  show "e = Aead" if "valid_context blob_id" "decrypt_chunked A framed wk blob_id = Err e"
    using that by (auto simp: decrypt_chunked_eq open_header_eq unwrap_data_key_eq res_bind_eq_Err
        not_less split: if_splits option.splits)
  show "decrypt_chunked A framed wk blob_id \<noteq> Panic"
  proof (cases "valid_context blob_id")
    case True
    then show ?thesis
      by (auto simp: decrypt_chunked_eq open_header_eq unwrap_data_key_eq res_bind_eq_Panic
          not_less split: if_splits option.splits)
  qed (simp add: invalid)
qed

text \<open>The AES-GCM ciphertext of a blob's header and the AAD it is checked against.\<close>

definition header_iv :: "bytes \<Rightarrow> bytes" where
  "header_iv framed = take 12 (drop 1 framed)"

definition header_ct :: "bytes \<Rightarrow> bytes" where
  "header_ct framed = take 48 (drop 13 framed)"

definition header_aad :: "string \<Rightarrow> bytes \<Rightarrow> bytes" where
  "header_aad blob_id framed = wrap_aad_bytes blob_id (take 7 (drop 61 framed))"

lemma header_parts:
  assumes "length iv = 12" "length ct = 48" "length np = 7"
  shows "header_iv (write_header [] (iv @ ct) np @ body) = iv"
    "header_ct (write_header [] (iv @ ct) np @ body) = ct"
    "header_aad i (write_header [] (iv @ ct) np @ body) = wrap_aad_bytes i np"
  using assms by (simp_all add: header_iv_def header_ct_def header_aad_def write_header_def)

interpretation blob_box: sealed_box aead_lawful encrypt_chunked decrypt_chunked valid_context
  header_iv header_ct header_aad
proof (unfold_locales, goal_cases)
  case (1 A key R pt ctx s box s')
  then show ?case by (rule encrypt_then_decrypt)
next
  case (8 A R pt key ctx s box s')
  then show ?case by (auto elim!: encrypt_chunked_Ok simp: header_parts)
next
  case (9 A box key ctx pt)
  then show ?case by (auto elim!: decrypt_chunked_Ok simp: header_iv_def header_ct_def header_aad_def)
next
  case (10 ctx ctx' box)
  then show ?case using wrap_aad_bytes_inject [OF 10(1,2) refl] by (simp add: header_aad_def)
qed (simp_all add: encrypt_chunked_errors decrypt_chunked_errors)

subsection \<open>Encryption succeeds within the limits\<close>

lemma seal_succeeds:
  assumes "stream_total A" "length k = 32" "length p = 7" "length a \<le> 2 ^ 36" "length m \<le> 2 ^ 36"
  shows "enc_after A k p n e \<Longrightarrow> n + length xs \<le> 2 ^ 32 - 1 \<Longrightarrow> \<forall>x \<in> set xs. length x \<le> 2 ^ 36 \<Longrightarrow>
    \<exists>cts. seal_segments A a e xs m = Some cts"
proof (induction xs arbitrary: n e)
  case Nil
  then have "n \<le> 2 ^ 32 - 1" by simp
  then obtain c where "enc_last A e m a = Some c"
    by (rule stream_total_last [OF assms(1-3) Nil.prems(1) assms(5,4)])
  then show ?case by simp
next
  case (Cons x xs)
  then have "length x \<le> 2 ^ 36" "n < 2 ^ 32 - 1" by auto
  then obtain c e' where nx: "enc_next A e x a = Some (c, e')"
    using stream_total_next [OF assms(1-3) Cons.prems(1) _ assms(4)] by blast
  have "enc_after A k p (Suc n) e'" using Cons.prems(1) nx by (rule enc_after.step)
  then obtain cts where "seal_segments A a e' xs m = Some cts"
    using Cons.IH [of "Suc n" e'] Cons.prems by auto
  then show ?case using nx by simp
qed

lemma aad_bytes_length:
  "length (seg_aad_bytes i) = 24 + length i"
  "length (wrap_aad_bytes i p) = 29 + length i + length p"
  by (simp_all add: seg_aad_bytes_def wrap_aad_bytes_def)

lemma new_blob_keys_succeeds:
  assumes "rng_available R" "gcm_total A" "gcm_tag16 A" "length wk = 32" "valid_context blob_id"
  obtains aad dk np w s' where "new_blob_keys A R wk blob_id s = (Ok (aad, dk, np, w), s')"
proof -
  obtain dk s1 where dk: "fill_random R (replicate 32 0) s = (Ok dk, s1)" "length dk = 32"
    using fill_random_available [OF assms(1), of "replicate 32 0"] by force
  obtain np s2 where np: "fill_random R (replicate 7 0) s1 = (Ok np, s2)" "length np = 7"
    using fill_random_available [OF assms(1), of "replicate 7 0"] by force
  obtain iv s3 where iv: "fill_random R (replicate 12 0) s2 = (Ok iv, s3)" "length iv = 12"
    using fill_random_available [OF assms(1), of "replicate 12 0"] by force
  have "length (wrap_aad_bytes blob_id np) \<le> 2 ^ 36"
    using assms(5) np(2) by (simp add: aad_bytes_length valid_context_def)
  then obtain ct where ct: "gcm_encrypt A wk iv dk (wrap_aad_bytes blob_id np) = Some ct"
    using gcm_totalE [OF assms(2,4) iv(2), of dk] dk(2) by auto
  then have "length ct = 48" using gcm_tag16D [OF assms(3) ct] dk(2) by simp
  then have "new_blob_keys A R wk blob_id s = (Ok (seg_aad_bytes blob_id, dk, np, iv @ ct), s3)"
    using assms(5) dk(1) np(1) iv(1) ct
    by (simp add: new_blob_keys_def blob_segment_aad_eq blob_wrap_aad_eq wrap_data_key_eq st_bind_def
        seg_aad_bytes_def wrap_aad_bytes_def)
  then show thesis by (rule that)
qed

lemma encrypt_chunked_succeeds:
  assumes "rng_available R" "gcm_total A" "gcm_tag16 A" "stream_total A" "length wk = 32"
    "valid_context blob_id" "length pt < 2 ^ 32 * CHUNK_SIZE"
  obtains framed s' where "encrypt_chunked A R pt wk blob_id s = (Ok framed, s')"
proof -
  obtain aad dk np w s' where keys: "new_blob_keys A R wk blob_id s = (Ok (aad, dk, np, w), s')"
    using new_blob_keys_succeeds [OF assms(1-3,5,6)] .
  obtain iv ct where k: "aad = seg_aad_bytes blob_id" "length dk = 32" "length np = 7"
    using new_blob_keys_Ok [OF keys] by metis
  have "length pt div CHUNK_SIZE < 2 ^ 32"
    using assms(7) by (simp add: less_mult_imp_div_less)
  moreover have "length (last_part CHUNK_SIZE pt) \<le> 2 ^ 36"
    using last_part_short [OF CHUNK_SIZE_pos, of pt] by (simp add: CHUNK_SIZE_def)
  moreover have "length x \<le> 2 ^ 36" if "x \<in> set (full_parts CHUNK_SIZE pt)" for x
    using full_parts_length [OF that] by (simp add: CHUNK_SIZE_def)
  moreover have "length aad \<le> 2 ^ 36"
    using assms(6) k(1) by (simp add: aad_bytes_length valid_context_def)
  ultimately obtain cts where "seal_segments A aad (enc_from_aead A dk np) (full_parts CHUNK_SIZE pt)
      (last_part CHUNK_SIZE pt) = Some cts"
    using seal_succeeds [OF assms(4) k(2,3) _ _ enc_after.start] by fastforce
  then show thesis
    using keys that by (simp add: encrypt_chunked_eq body_result_def)
qed

subsection \<open>Only sealed blobs are accepted\<close>

lemma parts_unique:
  assumes "\<forall>x \<in> set xs. length x = n" "length m < n"
  shows "full_parts n (concat xs @ m) = xs" "last_part n (concat xs @ m) = m"
  using assms by (induction xs) (simp_all add: parts_short parts_long)

lemma header_split:
  assumes "72 \<le> length f"
  shows "f = [hd f] @ (take 12 (drop 1 f) @ take 48 (drop 13 f)) @ take 7 (drop 61 f) @
    take 4 (drop 68 f) @ drop 72 f"
proof -
  have piece: "drop a f = take n (drop a f) @ drop (a + n) f" for a n
    by (metis add.commute append_take_drop_id drop_drop)
  have "f = [hd f] @ drop 1 f" using assms by (cases f) simp_all
  then show ?thesis
    using piece [of 1 12] piece [of 13 48] piece [of 61 7] piece [of 68 4] by simp
qed

lemma cut_lengths:
  assumes "stream_tag16 A" and seal: "seal_segments A a enc xs m = Some (chunks (CHUNK_SIZE + 16) body)"
  shows "\<forall>x \<in> set xs. length x = CHUNK_SIZE" "length m \<le> CHUNK_SIZE"
    "\<not> (CHUNK_SIZE + 16) dvd length body \<Longrightarrow> length m < CHUNK_SIZE"
proof -
  define cts where "cts = chunks (CHUNK_SIZE + 16) body"
  have cl: "map length cts = map (\<lambda>x. length x + 16) xs @ [length m + 16]"
    using seal_lengths [OF assms(1) seal] by (simp add: cts_def)
  then have ne: "cts \<noteq> []" by auto
  then have body: "body \<noteq> []" by (auto simp: cts_def)
  have last: "length m + 16 = length (last cts)" using cl ne by (metis last_map last_snoc)
  note sizes = chunks_lengths [OF _ body, of "CHUNK_SIZE + 16", folded cts_def]
  show "length m \<le> CHUNK_SIZE" "\<not> (CHUNK_SIZE + 16) dvd length body \<Longrightarrow> length m < CHUNK_SIZE"
    using sizes(2,3) last by simp_all
  have "map length (butlast cts) = map (\<lambda>x. length x + 16) xs" using cl by (simp add: map_butlast)
  then have sets: "length ` set (butlast cts) = (\<lambda>x. length x + 16) ` set xs" by (metis set_map)
  show "\<forall>x \<in> set xs. length x = CHUNK_SIZE"
  proof
    fix x assume "x \<in> set xs"
    then have "length x + 16 \<in> length ` set (butlast cts)" unfolding sets by simp
    then show "length x = CHUNK_SIZE" using sizes(1) by auto
  qed
qed

text \<open>The draws of a blob of short last message make \<open>encrypt_chunked\<close> produce it.\<close>

lemma encrypt_chunked_replay:
  assumes "seal_parts A wk blob_id dk np iv xs m = Ok framed" "length dk = 32" "length np = 7" "length iv = 12"
    and "map_option length (gcm_encrypt A wk iv dk (wrap_aad_bytes blob_id np)) = Some 48"
    and "\<forall>x \<in> set xs. length x = CHUNK_SIZE" "length m < CHUNK_SIZE"
  shows "encrypt_chunked A (replay_rng [dk, np, iv]) (concat xs @ m) wk blob_id 0 = (Ok framed, 3)"
proof -
  obtain ct cts where f: "valid_context blob_id" "gcm_encrypt A wk iv dk (wrap_aad_bytes blob_id np) = Some ct"
    "seal_segments A (seg_aad_bytes blob_id) (enc_from_aead A dk np) xs m = Some cts"
    "framed = write_header [] (iv @ ct) np @ concat cts"
    using assms(1)
    by (auto simp: seal_parts_def blob_segment_aad_eq blob_wrap_aad_eq res_bind_eq_Ok seg_aad_bytes_def
        wrap_aad_bytes_def split: if_splits)
  have "new_blob_keys A (replay_rng [dk, np, iv]) wk blob_id 0 = (Ok (seg_aad_bytes blob_id, dk, np, iv @ ct), 3)"
    using f(1,2) assms(2-5)
    by (simp add: new_blob_keys_def blob_segment_aad_eq blob_wrap_aad_eq wrap_data_key_eq st_bind_def
        seg_aad_bytes_def wrap_aad_bytes_def fill_random_replay)
  then show ?thesis
    using f(3,4) parts_unique [OF assms(6,7)] by (simp add: encrypt_chunked_eq body_result_def)
qed

lemma decrypt_then_seal:
  assumes "gcm_exact A" "stream_exact A" "stream_tag16 A" "length wk = 32"
    and dec: "decrypt_chunked A framed wk blob_id = Ok pt"
  obtains dk np iv xs m where "length dk = 32" "length np = 7" "length iv = 12"
    "map_option length (gcm_encrypt A wk iv dk (wrap_aad_bytes blob_id np)) = Some 48"
    "seal_parts A wk blob_id dk np iv xs m = Ok framed" "pt = concat xs @ m"
    "\<forall>x \<in> set xs. length x = CHUNK_SIZE" "length m \<le> CHUNK_SIZE"
    "\<not> (CHUNK_SIZE + 16) dvd (length framed - 72) \<Longrightarrow> length m < CHUNK_SIZE"
proof -
  define iv ct np where "iv = take 12 (drop 1 framed)" and "ct = take 48 (drop 13 framed)"
    and "np = take 7 (drop 61 framed)"
  define cts where "cts = chunks (CHUNK_SIZE + 16) (drop 72 framed)"
  obtain dk where d: "valid_context blob_id" "72 \<le> length framed" "hd framed = VERSION"
    "take 4 (drop 68 framed) = chunk_size_be" "length dk = 32"
    "gcm_decrypt A wk iv ct (wrap_aad_bytes blob_id np) = Some dk"
    "open_segments A (seg_aad_bytes blob_id) (dec_from_aead A dk np) cts = Some pt"
    using decrypt_chunked_Ok [OF dec] unfolding iv_def ct_def np_def cts_def .
  have lens: "length iv = 12" "length np = 7" "length ct = 48"
    using d(2) by (simp_all add: iv_def np_def ct_def)
  have ct: "gcm_encrypt A wk iv dk (wrap_aad_bytes blob_id np) = Some ct"
    using gcm_exactD [OF assms(1,4) lens(1) d(6)] .
  obtain xs m where pt: "pt = concat xs @ m"
    and seal: "seal_segments A (seg_aad_bytes blob_id) (enc_from_aead A dk np) xs m = Some cts"
    using open_then_seal [OF assms(2) d(5) lens(2) synced.start d(7)] by blast
  have "framed = write_header [] (iv @ ct) np @ concat cts"
    using header_split [OF d(2)] d(3,4) unfolding iv_def ct_def np_def cts_def
    by (simp add: write_header_def concat_chunks)
  then have "seal_parts A wk blob_id dk np iv xs m = Ok framed"
    using d(1) ct seal
    by (simp add: seal_parts_def blob_segment_aad_eq blob_wrap_aad_eq seg_aad_bytes_def wrap_aad_bytes_def)
  then show thesis
    using that [OF d(5) lens(2,1) _ _ pt] ct lens(3) cut_lengths [OF assms(3) seal [unfolded cts_def]] by simp
qed

subsection \<open>Sizes\<close>

lemma sum_list_full_parts: "sum_list (map (\<lambda>x. length x + 16) (full_parts n xs)) = length xs div n * (n + 16)"
proof -
  have "map (\<lambda>x. length x + 16) (full_parts n xs) = map (\<lambda>_. n + 16) (full_parts n xs)"
    by (rule map_cong) (simp_all add: full_parts_length)
  then show ?thesis by (simp only: map_replicate_const sum_list_replicate length_full_parts of_nat_id)
qed

lemma encrypt_chunked_size:
  assumes "stream_tag16 A" "encrypt_chunked A R pt wk blob_id s = (Ok framed, s')"
  shows "length framed = 72 + length pt div CHUNK_SIZE * (CHUNK_SIZE + 16) + (length pt mod CHUNK_SIZE + 16)"
proof -
  obtain dk np iv ct cts where e: "length np = 7" "length iv = 12" "length ct = 48"
    "framed = write_header [] (iv @ ct) np @ concat cts"
    "seal_segments A (seg_aad_bytes blob_id) (enc_from_aead A dk np) (full_parts CHUNK_SIZE pt)
       (last_part CHUNK_SIZE pt) = Some cts"
    using encrypt_chunked_Ok [OF assms(2)] by metis
  have "length (concat cts) = sum_list (map (\<lambda>x. length x + 16) (full_parts CHUNK_SIZE pt)) +
      (length (last_part CHUNK_SIZE pt) + 16)"
    using seal_lengths [OF assms(1) e(5)] by (simp add: length_concat_map)
  then show ?thesis
    using e(1-4) by (simp add: sum_list_full_parts length_last_part)
qed

text \<open>The last segment of an encrypted blob is always short.\<close>

lemma encrypt_chunked_unaligned:
  assumes "stream_tag16 A" "encrypt_chunked A R pt wk blob_id s = (Ok framed, s')"
  shows "\<not> (CHUNK_SIZE + 16) dvd (length framed - 72)"
proof -
  have "length framed - 72 = length pt div CHUNK_SIZE * (CHUNK_SIZE + 16) + (length pt mod CHUNK_SIZE + 16)"
    using encrypt_chunked_size [OF assms] by simp
  then have "(length framed - 72) mod (CHUNK_SIZE + 16) = (length pt mod CHUNK_SIZE + 16) mod (CHUNK_SIZE + 16)"
    by (simp only: mod_mult_self3)
  also have "\<dots> = length pt mod CHUNK_SIZE + 16"
    by (simp add: mod_less_divisor)
  finally show ?thesis by (simp add: dvd_eq_mod_eq_0)
qed

end
