(* ===== verification/Filum_Fs.thy ===== *)
theory Filum_Fs
  imports Filum_Crates
begin

text \<open>
  The parts of the Rust standard library the file codecs use: \<open>std::path\<close> on Unix, and \<open>std::fs\<close> and
  \<open>std::io\<close> over an explicit file system.

  The file system has names and nodes: a name refers to a node, a node has its bytes and a mark that
  they are on stable storage. Open files refer to nodes, so that two names of one node, a file removed
  while open and a file opened for reading and truncated through another name behave as on Unix.
  Directories, permissions and symbolic links are not represented; instead every call may fail. What
  the environment decides (does the call fail, after how many bytes does a write fail, how many bytes
  does a read return) is the parameter \<open>os\<close>, which answers the n-th call of
  a run: theorems that do not restrict \<open>os\<close> hold for every behaviour of the environment.

  \<open>hist\<close> records every state the file system goes through, in order. It is what a crash of the process
  can leave behind.
\<close>

subsection \<open>Paths\<close>

datatype component = RootDir | CurDir | ParentDir | Normal string

type_synonym path = "component list"

text \<open>
  A path is represented by its components, which is what \<open>Path\<close>'s equality compares:
  repeated and trailing separators and inner \<open>.\<close> components are not part of it.
\<close>

fun split_slash :: "string \<Rightarrow> string list" where
  "split_slash [] = [[]]"
| "split_slash (c # cs) =
     (if c = CHR ''/'' then [] # split_slash cs
      else (case split_slash cs of [] \<Rightarrow> [[c]] | w # ws \<Rightarrow> (c # w) # ws))"

definition component_of :: "string \<Rightarrow> component" where
  "component_of w = (if w = ''..'' then ParentDir else Normal w)"

definition components :: "string \<Rightarrow> path" where
  "components s =
     (if take 1 s = ''/'' then [RootDir] else if hd (split_slash s) = ''.'' then [CurDir] else []) @
     map component_of (filter (\<lambda>w. w \<noteq> [] \<and> w \<noteq> ''.'') (split_slash s))"

text \<open>\<open>Path::file_name\<close>, \<open>PathBuf::push\<close> and \<open>Path::with_file_name\<close>.\<close>

definition file_name :: "path \<Rightarrow> string option" where
  "file_name p = (if p = [] then None else (case last p of Normal s \<Rightarrow> Some s | _ \<Rightarrow> None))"

definition path_push :: "path \<Rightarrow> string \<Rightarrow> path" where
  "path_push p s =
     (let cs = components s in
      if take 1 cs = [RootDir] \<or> p = [] then cs else p @ filter (\<lambda>c. c \<noteq> CurDir) cs)"

definition with_file_name :: "path \<Rightarrow> string \<Rightarrow> path" where
  "with_file_name p name = path_push (if file_name p = None then p else butlast p) name"

text \<open>\<open>format!("{:016x}", n)\<close> for a \<open>u64\<close>: always sixteen lower-case digits.\<close>

definition hex_digit :: "nat \<Rightarrow> char" where
  "hex_digit n = ''0123456789abcdef'' ! n"

definition hex16 :: "u64 \<Rightarrow> string" where
  "hex16 n = map (\<lambda>i. hex_digit (unat (take_bit 4 (drop_bit (4 * i) n)))) (rev [0..<16])"

subsection \<open>The world\<close>

record file_node =
  contents :: bytes
  synced_mark :: bool

record disk =
  entries :: "path \<Rightarrow> nat option"
  node :: "nat \<Rightarrow> file_node"
  next_ino :: nat

record 'r world =
  rng_state :: 'r
  disk :: disk
  hist :: "disk list"
  clock :: nat

datatype io_event = Fault nat | Go nat

type_synonym os = "nat \<Rightarrow> io_event"

text \<open>An environment in which no call fails.\<close>

definition os_ok :: "os \<Rightarrow> bool" where
  "os_ok os \<longleftrightarrow> (\<forall>n. \<exists>k. os n = Go k)"

definition tick :: "os \<Rightarrow> 'r world \<Rightarrow> io_event \<times> 'r world" where
  "tick os w = (os (clock w), w\<lparr> clock := Suc (clock w) \<rparr>)"

definition put_disk :: "disk \<Rightarrow> 'r world \<Rightarrow> 'r world" where
  "put_disk d w = w\<lparr> disk := d, hist := hist w @ [d] \<rparr>"

text \<open>Every name refers to an allocated node.\<close>

definition wf_disk :: "disk \<Rightarrow> bool" where
  "wf_disk d \<longleftrightarrow> (\<forall>p i. entries d p = Some i \<longrightarrow> i < next_ino d)"

text \<open>The bytes a name refers to.\<close>

definition read_path :: "disk \<Rightarrow> path \<Rightarrow> bytes option" where
  "read_path d p = map_option (\<lambda>i. contents (node d i)) (entries d p)"

text \<open>Two names of one file.\<close>

definition same_file :: "disk \<Rightarrow> path \<Rightarrow> path \<Rightarrow> bool" where
  "same_file d p q \<longleftrightarrow> entries d p \<noteq> None \<and> entries d p = entries d q"

subsection \<open>Reading\<close>

text \<open>
  A \<open>BufReader<File>\<close>: the node, the offset of the file descriptor, and the bytes read ahead and not
  delivered yet.
\<close>

record reader =
  r_ino :: nat
  r_pos :: nat
  r_buf :: bytes

text \<open>The capacity of \<open>BufReader::new\<close>.\<close>

definition DEFAULT_BUF_SIZE :: nat where
  "DEFAULT_BUF_SIZE = 8192"

text \<open>\<open>File::open\<close>, and the buffered reader over it, which starts empty.\<close>

definition file_open :: "os \<Rightarrow> path \<Rightarrow> ('r world, unit, reader) st" where
  "file_open os p w =
     (case tick os w of (ev, w1) \<Rightarrow>
        (case ev of
           Fault _ \<Rightarrow> (Err (), w1)
         | Go _ \<Rightarrow>
             (case entries (disk w1) p of
                None \<Rightarrow> (Err (), w1)
              | Some i \<Rightarrow> (Ok \<lparr> r_ino = i, r_pos = 0, r_buf = [] \<rparr>, w1))))"

text \<open>
  \<open>File::read\<close> into a slice of \<open>n\<close> bytes: some of the bytes behind the offset, at least one unless the
  slice is empty or the file is at its end.
\<close>

definition file_read :: "os \<Rightarrow> reader \<Rightarrow> nat \<Rightarrow> ('r world, unit, bytes \<times> reader) st" where
  "file_read os rd n w =
     (case tick os w of (ev, w1) \<Rightarrow>
        (case ev of
           Fault _ \<Rightarrow> (Err (), w1)
         | Go k \<Rightarrow>
             (let bs = take (min n (Suc k)) (drop (r_pos rd) (contents (node (disk w1) (r_ino rd))))
              in (Ok (bs, rd\<lparr> r_pos := r_pos rd + length bs \<rparr>), w1))))"

text \<open>
  \<open>BufReader::read\<close>: with nothing read ahead, a read at least as large as the buffer goes straight to
  the file and a smaller one fills the buffer first; otherwise the bytes read ahead are delivered
  without a system call.
\<close>

definition read :: "os \<Rightarrow> reader \<Rightarrow> nat \<Rightarrow> ('r world, unit, bytes \<times> reader) st" where
  "read os rd n w =
     (if r_buf rd = [] then
        (if DEFAULT_BUF_SIZE \<le> n then file_read os rd n w
         else
           (case file_read os rd DEFAULT_BUF_SIZE w of (r, w1) \<Rightarrow>
              (res_bind r (\<lambda>(bs, rd1). Ok (take n bs, rd1\<lparr> r_buf := drop n bs \<rparr>)), w1)))
      else (Ok (take n (r_buf rd), rd\<lparr> r_buf := drop n (r_buf rd) \<rparr>), w))"

text \<open>The bytes a reader has not delivered yet: those read ahead, then those behind the offset.\<close>

definition node_bytes :: "'r world \<Rightarrow> nat \<Rightarrow> bytes" where
  "node_bytes w i = contents (node (disk w) i)"

definition remaining :: "reader \<Rightarrow> 'r world \<Rightarrow> bytes" where
  "remaining rd w = r_buf rd @ drop (r_pos rd) (node_bytes w (r_ino rd))"

subsection \<open>Writing\<close>

text \<open>A \<open>BufWriter<File>\<close>: the node it writes to and the bytes not yet handed to the operating system.\<close>

record writer =
  w_ino :: nat
  w_buf :: bytes

definition append_node :: "nat \<Rightarrow> bytes \<Rightarrow> disk \<Rightarrow> disk" where
  "append_node i bs d =
     d\<lparr> node := (node d)(i := \<lparr> contents = contents (node d i) @ bs, synced_mark = False \<rparr>) \<rparr>"

definition push_bytes :: "nat \<Rightarrow> bytes \<Rightarrow> 'r world \<Rightarrow> 'r world" where
  "push_bytes i bs w = (if bs = [] then w else put_disk (append_node i bs (disk w)) w)"

text \<open>
  \<open>File::create\<close>: truncates the node the name refers to, or makes a new node. The buffered writer
  over it starts empty.
\<close>

definition file_create :: "os \<Rightarrow> path \<Rightarrow> ('r world, unit, writer) st" where
  "file_create os p w =
     (case tick os w of (ev, w1) \<Rightarrow>
        (case ev of
           Fault _ \<Rightarrow> (Err (), w1)
         | Go _ \<Rightarrow>
             (let d = disk w1; empty = \<lparr> contents = [], synced_mark = False \<rparr> in
              case entries d p of
                Some i \<Rightarrow>
                  (Ok \<lparr> w_ino = i, w_buf = [] \<rparr>, put_disk (d\<lparr> node := (node d)(i := empty) \<rparr>) w1)
              | None \<Rightarrow>
                  (Ok \<lparr> w_ino = next_ino d, w_buf = [] \<rparr>,
                   put_disk (d\<lparr> entries := (entries d)(p \<mapsto> next_ino d),
                                node := (node d)(next_ino d := empty),
                                next_ino := Suc (next_ino d) \<rparr>) w1))))"

text \<open>
  \<open>flush\<close> of a \<open>BufWriter\<close> hands over the buffered bytes; when it fails, those not handed over stay.
  \<open>write_direct\<close> is \<open>write_all\<close> of the file itself. \<open>write_all\<close> of a \<open>BufWriter\<close>: data that fits is buffered
  without a system call; otherwise the buffer is flushed first, and data as large as the buffer goes
  straight to the file. The destructor flushes and ignores errors.
\<close>

definition flush :: "os \<Rightarrow> (writer \<times> 'r world, unit, unit) st" where
  "flush os s =
     (case s of (wr, w) \<Rightarrow>
        if w_buf wr = [] then (Ok (), wr, w)
        else
          (case tick os w of (ev, w1) \<Rightarrow>
             (case ev of
                Fault k \<Rightarrow>
                  (Err (), wr\<lparr> w_buf := drop k (w_buf wr) \<rparr>, push_bytes (w_ino wr) (take k (w_buf wr)) w1)
              | Go _ \<Rightarrow> (Ok (), wr\<lparr> w_buf := [] \<rparr>, push_bytes (w_ino wr) (w_buf wr) w1))))"

definition write_direct :: "os \<Rightarrow> bytes \<Rightarrow> (writer \<times> 'r world, unit, unit) st" where
  "write_direct os data s =
     (case s of (wr, w) \<Rightarrow> case tick os w of (ev, w1) \<Rightarrow>
        (case ev of
           Fault k \<Rightarrow> (Err (), wr, push_bytes (w_ino wr) (take k data) w1)
         | Go _ \<Rightarrow> (Ok (), wr, push_bytes (w_ino wr) data w1)))"

definition buffer_bytes :: "bytes \<Rightarrow> (writer \<times> 'r world, unit, unit) st" where
  "buffer_bytes data s = (Ok (), (fst s)\<lparr> w_buf := w_buf (fst s) @ data \<rparr>, snd s)"

definition write_all :: "os \<Rightarrow> bytes \<Rightarrow> (writer \<times> 'r world, unit, unit) st" where
  "write_all os data s =
     (let n = length (w_buf (fst s)) + length data in
      if n < DEFAULT_BUF_SIZE then buffer_bytes data s
      else
        st_bind (if DEFAULT_BUF_SIZE < n then flush os else st_lift (Ok ())) (\<lambda>_.
        if DEFAULT_BUF_SIZE \<le> length data then write_direct os data else buffer_bytes data) s)"

definition drop_writer :: "os \<Rightarrow> writer \<times> 'r world \<Rightarrow> 'r world" where
  "drop_writer os s = (if w_buf (fst s) = [] then snd s else snd (snd (flush os s)))"

text \<open>\<open>File::sync_all\<close> on the file under the writer.\<close>

definition sync_all :: "os \<Rightarrow> (writer \<times> 'r world, unit, unit) st" where
  "sync_all os s =
     (case s of (wr, w) \<Rightarrow> case tick os w of (ev, w1) \<Rightarrow>
        (case ev of
           Fault _ \<Rightarrow> (Err (), wr, w1)
         | Go _ \<Rightarrow>
             (let d = disk w1; i = w_ino wr in
              (Ok (), wr, put_disk (d\<lparr> node := (node d)(i := (node d i)\<lparr> synced_mark := True \<rparr>) \<rparr>) w1))))"

text \<open>\<open>fs::rename\<close> (atomic: the target name refers to the old or to the new node) and \<open>fs::remove_file\<close>.\<close>

definition rename :: "os \<Rightarrow> path \<Rightarrow> path \<Rightarrow> ('r world, unit, unit) st" where
  "rename os from_path to_path w =
     (case tick os w of (ev, w1) \<Rightarrow>
        (case ev of
           Fault _ \<Rightarrow> (Err (), w1)
         | Go _ \<Rightarrow>
             (let d = disk w1 in
              case entries d from_path of
                None \<Rightarrow> (Err (), w1)
              | Some i \<Rightarrow>
                  (Ok (), put_disk (d\<lparr> entries := (entries d)(from_path := None, to_path \<mapsto> i) \<rparr>) w1))))"

definition remove_file :: "os \<Rightarrow> path \<Rightarrow> ('r world, unit, unit) st" where
  "remove_file os p w =
     (case tick os w of (ev, w1) \<Rightarrow>
        (case ev of
           Fault _ \<Rightarrow> (Err (), w1)
         | Go _ \<Rightarrow>
             (let d = disk w1 in
              if entries d p = None then (Err (), w1)
              else (Ok (), put_disk (d\<lparr> entries := (entries d)(p := None) \<rparr>) w1))))"

subsection \<open>Sequencing\<close>

text \<open>
  Code that only draws randomness, run in the world; code on the world, run while a writer is open;
  and code that may not return (\<open>None\<close>).
\<close>

definition with_rng :: "('r, 'e, 'a) st \<Rightarrow> ('r world, 'e, 'a) st" where
  "with_rng m w = (case m (rng_state w) of (r, s) \<Rightarrow> (r, w\<lparr> rng_state := s \<rparr>))"

definition on_world :: "('w, 'e, 'a) st \<Rightarrow> ('x \<times> 'w, 'e, 'a) st" where
  "on_world m s = (case m (snd s) of (r, w) \<Rightarrow> (r, (fst s, w)))"

type_synonym ('s, 'e, 'a) io = "'s \<Rightarrow> (('e, 'a) outcome \<times> 's) option"

definition io_bind :: "('s, 'e, 'a) io \<Rightarrow> ('a \<Rightarrow> ('s, 'e, 'b) io) \<Rightarrow> ('s, 'e, 'b) io" where
  "io_bind m f s =
     (case m s of
        None \<Rightarrow> None
      | Some (r, s') \<Rightarrow>
          (case r of Ok x \<Rightarrow> f x s' | Err e \<Rightarrow> Some (Err e, s') | Panic \<Rightarrow> Some (Panic, s')))"

definition io_st :: "('s, 'e, 'a) st \<Rightarrow> ('s, 'e, 'a) io" where
  "io_st m s = Some (m s)"

subsection \<open>What a run may change\<close>

text \<open>Two file systems that differ in the bytes of one node at most.\<close>

definition only_node :: "nat \<Rightarrow> disk \<Rightarrow> disk \<Rightarrow> bool" where
  "only_node i d d' \<longleftrightarrow>
     entries d' = entries d \<and> next_ino d' = next_ino d \<and> (\<forall>j. j \<noteq> i \<longrightarrow> node d' j = node d j)"

text \<open>A run that changes the bytes of one node at most, at every moment.\<close>

definition touches :: "nat \<Rightarrow> 'r world \<Rightarrow> 'r world \<Rightarrow> bool" where
  "touches i w w' \<longleftrightarrow>
     rng_state w' = rng_state w \<and> only_node i (disk w) (disk w') \<and>
     (\<exists>ds. hist w' = hist w @ ds \<and> (\<forall>d \<in> set ds. only_node i (disk w) d))"

text \<open>A run that leaves the file system alone.\<close>

definition quiet :: "'r world \<Rightarrow> 'r world \<Rightarrow> bool" where
  "quiet w w' \<longleftrightarrow> disk w' = disk w \<and> hist w' = hist w"

text \<open>The same with a writer open: it stays the writer of its node.\<close>

definition writes :: "writer \<times> 'r world \<Rightarrow> writer \<times> 'r world \<Rightarrow> bool" where
  "writes s s' \<longleftrightarrow> w_ino (fst s') = w_ino (fst s) \<and> touches (w_ino (fst s)) (snd s) (snd s')"

text \<open>Everything written through a writer so far, handed over or not.\<close>

definition written :: "writer \<times> 'r world \<Rightarrow> bytes" where
  "written s = contents (node (disk (snd s)) (w_ino (fst s))) @ w_buf (fst s)"

text \<open>
  A relation between the state before and after a run that composes: what every step keeps, a
  sequence of steps keeps.
\<close>

locale run_relation =
  fixes rel :: "'s \<Rightarrow> 's \<Rightarrow> bool"
  assumes rel_refl: "rel s s"
    and rel_trans: "rel s t \<Longrightarrow> rel t u \<Longrightarrow> rel s u"
begin

definition keeps :: "('s, 'e, 'a) st \<Rightarrow> bool" where
  "keeps m \<longleftrightarrow> (\<forall>s. rel s (snd (m s)))"

lemma keepsD: "keeps m \<Longrightarrow> m s = (r, t) \<Longrightarrow> rel s t"
  unfolding keeps_def by (metis snd_conv)

lemma keeps_lift: "keeps (st_lift m)"
  by (simp add: keeps_def rel_refl)

lemma keeps_map_err: "keeps m \<Longrightarrow> keeps (st_map_err g m)"
  by (simp add: keeps_def st_map_err_apply)

lemma keeps_bind:
  assumes "keeps m" "\<And>x. keeps (f x)"
  shows "keeps (st_bind m f)"
  unfolding keeps_def
proof
  fix s
  obtain r t where m: "m s = (r, t)" by fastforce
  have 1: "rel s t" using assms(1) m by (rule keepsD)
  show "rel s (snd (st_bind m f s))"
  proof (cases r)
    case (Ok x)
    have "rel t (snd (f x t))" using assms(2) by (simp add: keeps_def)
    with 1 have "rel s (snd (f x t))" by (rule rel_trans)
    with m Ok show ?thesis by (simp add: st_bind_def)
  qed (use m 1 in \<open>simp_all add: st_bind_def\<close>)
qed

end

lemma only_node_refl: "only_node i d d"
  by (simp add: only_node_def)

lemma only_node_trans: "only_node i d e \<Longrightarrow> only_node i e f \<Longrightarrow> only_node i d f"
  by (simp add: only_node_def)

interpretation tch: run_relation "touches i"
proof
  show "touches i s s" for s :: "'a world"
    by (auto simp: touches_def only_node_refl)
  fix s t u :: "'a world"
  assume st: "touches i s t" and tu: "touches i t u"
  from st obtain ds where ds: "hist t = hist s @ ds" "\<forall>d \<in> set ds. only_node i (disk s) d"
    by (auto simp: touches_def)
  from tu obtain es where es: "hist u = hist t @ es" "\<forall>d \<in> set es. only_node i (disk t) d"
    by (auto simp: touches_def)
  have "\<forall>d \<in> set (ds @ es). only_node i (disk s) d"
    using ds(2) es(2) st by (auto simp: touches_def intro: only_node_trans)
  moreover have "hist u = hist s @ (ds @ es)" using ds(1) es(1) by simp
  ultimately show "touches i s u"
    using st tu unfolding touches_def by (metis only_node_trans)
qed

interpretation qt: run_relation quiet
  by unfold_locales (auto simp: quiet_def)

interpretation wrt: run_relation writes
  by unfold_locales (auto simp: writes_def tch.rel_refl intro: tch.rel_trans)

subsection \<open>The calls, one by one\<close>

lemma tick_simps [simp]:
  "disk (snd (tick os w)) = disk w" "hist (snd (tick os w)) = hist w"
  "rng_state (snd (tick os w)) = rng_state w"
  by (simp_all add: tick_def)

lemma tick_ok: "os_ok os \<Longrightarrow> tick os w = (Fault k, w') \<Longrightarrow> False"
  unfolding os_ok_def tick_def by (metis io_event.distinct(1) prod.inject)

lemma tick_touches: "tick os w = (ev, w') \<Longrightarrow> touches i w w' \<and> quiet w w' \<and> rng_state w' = rng_state w"
  by (auto simp: tick_def touches_def quiet_def only_node_refl)

lemma push_bytes_touches: "touches i w (push_bytes i bs w)"
  by (auto simp: push_bytes_def put_disk_def append_node_def touches_def only_node_def)

lemma contents_push_bytes:
  "contents (node (disk (push_bytes i bs w)) i) = contents (node (disk w) i) @ bs"
  by (simp add: push_bytes_def put_disk_def append_node_def)

lemma file_open_cases:
  assumes "file_open os p w = (r, w')"
  shows "quiet w w'" "rng_state w' = rng_state w" "r \<noteq> Panic"
    "r = Ok rd \<Longrightarrow> entries (disk w) p = Some (r_ino rd) \<and> r_pos rd = 0 \<and> r_buf rd = []"
    "os_ok os \<Longrightarrow> entries (disk w) p = Some i \<Longrightarrow> r = Ok \<lparr> r_ino = i, r_pos = 0, r_buf = [] \<rparr>"
  using assms tick_touches [of os w] tick_ok [of os w]
  by (auto simp: file_open_def quiet_def tick_def split: io_event.splits option.splits)

lemma remaining_quiet: "quiet w w' \<Longrightarrow> remaining rd w' = remaining rd w"
  by (simp add: remaining_def node_bytes_def quiet_def)

lemma file_open_remaining:
  assumes "file_open os p w = (Ok rd, w')"
  shows "entries (disk w) p = Some (r_ino rd)" "remaining rd w = contents (node (disk w) (r_ino rd))"
  using file_open_cases(4) [OF assms refl] by (simp_all add: remaining_def node_bytes_def)

lemma take_then_drop: "take k ys @ drop (length (take k ys)) ys = ys"
  by (cases "k \<le> length ys") simp_all

lemma file_read_cases:
  assumes "file_read os rd n w = (r, w')"
  shows "quiet w w'" "rng_state w' = rng_state w" "r \<noteq> Panic" "os_ok os \<Longrightarrow> r \<noteq> Err ()"
    "r = Ok (bs, rd') \<Longrightarrow> length bs \<le> n \<and> rd' = rd\<lparr> r_pos := r_pos rd + length bs \<rparr> \<and>
       bs @ drop (r_pos rd') (node_bytes w (r_ino rd)) = drop (r_pos rd) (node_bytes w (r_ino rd)) \<and>
       (bs = [] \<longrightarrow> n = 0 \<or> drop (r_pos rd) (node_bytes w (r_ino rd)) = [])"
proof -
  obtain ev w1 where ev: "tick os w = (ev, w1)" by (metis surj_pair)
  have w1: "disk w1 = disk w" "quiet w w1" "rng_state w1 = rng_state w"
    using tick_touches [OF ev] by (auto simp: quiet_def)
  define ys where "ys = drop (r_pos rd) (node_bytes w (r_ino rd))"
  have eq: "(r, w') = (case ev of Fault _ \<Rightarrow> (Err (), w1)
      | Go k \<Rightarrow> (Ok (take (min n (Suc k)) ys, rd\<lparr> r_pos := r_pos rd + length (take (min n (Suc k)) ys) \<rparr>), w1))"
    using assms by (cases ev) (simp_all add: file_read_def ev Let_def w1 ys_def node_bytes_def)
  show "quiet w w'" "rng_state w' = rng_state w" "r \<noteq> Panic"
    using eq w1(2,3) by (auto split: io_event.splits)
  show "os_ok os \<Longrightarrow> r \<noteq> Err ()"
    using eq ev tick_ok [of os w] by (auto split: io_event.splits)
  show "length bs \<le> n \<and> rd' = rd\<lparr> r_pos := r_pos rd + length bs \<rparr> \<and>
       bs @ drop (r_pos rd') (node_bytes w (r_ino rd)) = drop (r_pos rd) (node_bytes w (r_ino rd)) \<and>
       (bs = [] \<longrightarrow> n = 0 \<or> drop (r_pos rd) (node_bytes w (r_ino rd)) = [])"
    if ok: "r = Ok (bs, rd')"
  proof -
    from eq ok obtain k where bs: "bs = take (min n (Suc k)) ys" and rd: "rd' = rd\<lparr> r_pos := r_pos rd + length bs \<rparr>"
      by (auto split: io_event.splits)
    have pre: "ys = bs @ drop (length bs) ys"
      unfolding bs by (rule take_then_drop [symmetric])
    have "drop (r_pos rd') (node_bytes w (r_ino rd)) = drop (length bs) ys"
      by (simp add: rd ys_def add.commute)
    with pre have "bs @ drop (r_pos rd') (node_bytes w (r_ino rd)) = ys" by simp
    moreover have "bs = [] \<longrightarrow> n = 0 \<or> ys = []" "length bs \<le> n" by (auto simp: bs)
    ultimately show ?thesis unfolding ys_def [symmetric] using rd by blast
  qed
qed

text \<open>The contract of a buffered read: it delivers the next bytes, none only at the end of the file.\<close>

text \<open>What a read took from a reader: the bytes in front, and none only at the end.\<close>

definition took :: "nat \<Rightarrow> reader \<Rightarrow> bytes \<Rightarrow> reader \<Rightarrow> 'r world \<Rightarrow> bool" where
  "took n rd bs rd' w \<longleftrightarrow> length bs \<le> n \<and> r_ino rd' = r_ino rd \<and> remaining rd w = bs @ remaining rd' w \<and>
     (bs = [] \<longrightarrow> n = 0 \<or> remaining rd w = [])"

lemma file_read_took:
  assumes f: "file_read os rd n w = (Ok (bs, rd'), w')" and "r_buf rd = []"
  shows "took n rd bs rd' w" "r_buf rd' = []"
proof -
  have rd': "rd' = rd\<lparr> r_pos := r_pos rd + length bs \<rparr>" "length bs \<le> n"
    and split: "bs @ drop (r_pos rd') (node_bytes w (r_ino rd)) = drop (r_pos rd) (node_bytes w (r_ino rd))"
    and "end": "bs = [] \<longrightarrow> n = 0 \<or> drop (r_pos rd) (node_bytes w (r_ino rd)) = []"
    using file_read_cases(5) [OF f refl] by (metis+)
  have rem: "remaining rd w = drop (r_pos rd) (node_bytes w (r_ino rd))" by (simp add: remaining_def assms(2))
  have "remaining rd w = bs @ remaining rd' w"
    unfolding rem split [symmetric] by (simp add: remaining_def rd' assms(2))
  moreover have "r_ino rd' = r_ino rd" using rd'(1) by simp
  ultimately show "took n rd bs rd' w" using rd'(2) "end" unfolding rem [symmetric] took_def by blast
  show "r_buf rd' = []" using rd'(1) assms(2) by simp
qed

lemma took_buffered:
  assumes "took DEFAULT_BUF_SIZE rd cs rd1 w" "r_buf rd1 = []"
  shows "took n rd (take n cs) (rd1\<lparr> r_buf := drop n cs \<rparr>) w"
  using assms by (auto simp: took_def remaining_def DEFAULT_BUF_SIZE_def)

lemma read_cases:
  assumes "read os rd n w = (r, w')"
  shows "quiet w w'" "rng_state w' = rng_state w" "r \<noteq> Panic" "os_ok os \<Longrightarrow> r \<noteq> Err ()"
    "r = Ok (bs, rd') \<Longrightarrow> length bs \<le> n \<and> r_ino rd' = r_ino rd \<and> remaining rd w = bs @ remaining rd' w \<and>
       (bs = [] \<longrightarrow> n = 0 \<or> remaining rd w = [])"
    "r = Ok (bs, rd') \<Longrightarrow> length (r_buf rd') \<le> max DEFAULT_BUF_SIZE (length (r_buf rd))"
proof -
  obtain r1 w1 where f: "file_read os rd (if DEFAULT_BUF_SIZE \<le> n then n else DEFAULT_BUF_SIZE) w = (r1, w1)"
    by (metis surj_pair)
  note fc = file_read_cases [OF f]
  show "quiet w w'" "rng_state w' = rng_state w" "r \<noteq> Panic" "os_ok os \<Longrightarrow> r \<noteq> Err ()"
    using assms f fc(1-4)
    by (auto simp: read_def res_bind_eq_Panic res_bind_eq_Err qt.rel_refl split: if_splits)
  assume ok: "r = Ok (bs, rd')"
  consider "r_buf rd \<noteq> []" "bs = take n (r_buf rd)" "rd' = rd\<lparr> r_buf := drop n (r_buf rd) \<rparr>"
    | "r_buf rd = []" "DEFAULT_BUF_SIZE \<le> n" "r1 = Ok (bs, rd')"
    | cs rd1 where "r_buf rd = []" "\<not> DEFAULT_BUF_SIZE \<le> n" "r1 = Ok (cs, rd1)" "bs = take n cs"
        "rd' = rd1\<lparr> r_buf := drop n cs \<rparr>"
    using assms f ok by (auto simp: read_def res_bind_eq_Ok split: if_splits)
  then have "took n rd bs rd' w \<and> length (r_buf rd') \<le> max DEFAULT_BUF_SIZE (length (r_buf rd))"
  proof cases
    case 1
    then show ?thesis by (auto simp: took_def remaining_def)
  next
    case 2
    then have "file_read os rd n w = (Ok (bs, rd'), w1)" using f by simp
    from file_read_took [OF this 2(1)] show ?thesis by simp
  next
    case (3 cs rd1)
    then have "file_read os rd DEFAULT_BUF_SIZE w = (Ok (cs, rd1), w1)" using f by simp
    note t = file_read_took [OF this 3(1)]
    have "length cs \<le> DEFAULT_BUF_SIZE" using t(1) by (simp add: took_def)
    then show ?thesis using took_buffered [OF t] 3(4,5) by simp
  qed
  then show "length bs \<le> n \<and> r_ino rd' = r_ino rd \<and> remaining rd w = bs @ remaining rd' w \<and>
       (bs = [] \<longrightarrow> n = 0 \<or> remaining rd w = [])"
    "length (r_buf rd') \<le> max DEFAULT_BUF_SIZE (length (r_buf rd))" by (auto simp: took_def)
qed

lemma flush_cases:
  assumes "flush os s = (r, s')"
  shows "writes s s'" "r \<noteq> Panic" "os_ok os \<Longrightarrow> r = Ok ()"
    "r = Ok () \<Longrightarrow> w_buf (fst s') = [] \<and> written s' = written s"
    "length (w_buf (fst s')) \<le> length (w_buf (fst s))"
proof -
  obtain wr w ev w1 where s: "s = (wr, w)" and ev: "tick os w = (ev, w1)" by (metis surj_pair)
  have t: "touches (w_ino wr) w w1" "disk w1 = disk w"
    using tick_touches [OF ev] by (auto simp: quiet_def)
  have app: "contents (node (disk (push_bytes i bs w1)) i) = contents (node (disk w) i) @ bs" for i bs
    using t(2) by (simp add: contents_push_bytes)
  show "writes s s'" "r \<noteq> Panic" "r = Ok () \<Longrightarrow> w_buf (fst s') = [] \<and> written s' = written s"
    "length (w_buf (fst s')) \<le> length (w_buf (fst s))"
    using assms tch.rel_trans [OF t(1) push_bytes_touches]
    by (auto simp: flush_def s ev writes_def written_def app tch.rel_refl split: io_event.splits if_splits)
  show "os_ok os \<Longrightarrow> r = Ok ()"
    using assms tick_ok [of os w] by (auto simp: flush_def s ev split: io_event.splits if_splits)
qed

lemma write_direct_cases:
  assumes "write_direct os data s = (r, s')"
  shows "writes s s'" "r \<noteq> Panic" "os_ok os \<Longrightarrow> r = Ok ()"
    "w_buf (fst s) = [] \<Longrightarrow> r = Ok () \<Longrightarrow> written s' = written s @ data" "fst s' = fst s"
proof -
  obtain wr w ev w1 where s: "s = (wr, w)" and ev: "tick os w = (ev, w1)" by (metis surj_pair)
  have t: "touches (w_ino wr) w w1" "disk w1 = disk w"
    using tick_touches [OF ev] by (auto simp: quiet_def)
  have app: "contents (node (disk (push_bytes i bs w1)) i) = contents (node (disk w) i) @ bs" for i bs
    using t(2) by (simp add: contents_push_bytes)
  show "writes s s'" "r \<noteq> Panic" "w_buf (fst s) = [] \<Longrightarrow> r = Ok () \<Longrightarrow> written s' = written s @ data" "fst s' = fst s"
    using assms tch.rel_trans [OF t(1) push_bytes_touches]
    by (auto simp: write_direct_def s ev writes_def written_def app split: io_event.splits)
  show "os_ok os \<Longrightarrow> r = Ok ()"
    using assms tick_ok [of os w] by (auto simp: write_direct_def s ev split: io_event.splits)
qed

lemma buffer_bytes_cases:
  assumes "buffer_bytes data s = (r, s')"
  shows "writes s s'" "r = Ok ()" "written s' = written s @ data" "w_buf (fst s') = w_buf (fst s) @ data"
    "snd s' = snd s"
  using assms by (auto simp: buffer_bytes_def writes_def written_def tch.rel_refl)

lemma make_room_cases:
  assumes "(if DEFAULT_BUF_SIZE < n then flush os else st_lift (Ok ())) s = (r, s')"
  shows "writes s s'" "r \<noteq> Panic" "os_ok os \<Longrightarrow> r = Ok ()" "r = Ok () \<Longrightarrow> written s' = written s"
    "length (w_buf (fst s')) \<le> length (w_buf (fst s))"
    "r = Ok () \<Longrightarrow> DEFAULT_BUF_SIZE \<le> n \<Longrightarrow>
       w_buf (fst s') = [] \<or> w_buf (fst s') = w_buf (fst s) \<and> n = DEFAULT_BUF_SIZE"
proof -
  have "(flush os s = (r, s') \<and> DEFAULT_BUF_SIZE < n) \<or> (r = Ok () \<and> s' = s \<and> \<not> DEFAULT_BUF_SIZE < n)"
    using assms by (auto split: if_splits)
  then show "writes s s'" "r \<noteq> Panic" "os_ok os \<Longrightarrow> r = Ok ()" "r = Ok () \<Longrightarrow> written s' = written s"
    "length (w_buf (fst s')) \<le> length (w_buf (fst s))"
    "r = Ok () \<Longrightarrow> DEFAULT_BUF_SIZE \<le> n \<Longrightarrow>
       w_buf (fst s') = [] \<or> w_buf (fst s') = w_buf (fst s) \<and> n = DEFAULT_BUF_SIZE"
    by (auto simp: wrt.rel_refl dest: flush_cases)
qed

lemma place_bytes_cases:
  assumes "(if DEFAULT_BUF_SIZE \<le> length data then write_direct os data else buffer_bytes data) s = (r, s')"
  shows "writes s s'" "r \<noteq> Panic" "os_ok os \<Longrightarrow> r = Ok ()"
    "r = Ok () \<Longrightarrow> DEFAULT_BUF_SIZE \<le> length data \<longrightarrow> w_buf (fst s) = [] \<Longrightarrow> written s' = written s @ data"
    "w_buf (fst s') = (if DEFAULT_BUF_SIZE \<le> length data then w_buf (fst s) else w_buf (fst s) @ data)"
proof -
  consider "DEFAULT_BUF_SIZE \<le> length data" "write_direct os data s = (r, s')"
    | "\<not> DEFAULT_BUF_SIZE \<le> length data" "buffer_bytes data s = (r, s')" using assms by presburger
  then have "writes s s' \<and> r \<noteq> Panic \<and> (os_ok os \<longrightarrow> r = Ok ()) \<and>
    (r = Ok () \<longrightarrow> (DEFAULT_BUF_SIZE \<le> length data \<longrightarrow> w_buf (fst s) = []) \<longrightarrow> written s' = written s @ data) \<and>
    w_buf (fst s') = (if DEFAULT_BUF_SIZE \<le> length data then w_buf (fst s) else w_buf (fst s) @ data)"
  proof cases
    case 1
    from write_direct_cases [OF 1(2)] 1(1) show ?thesis by simp
  next
    case 2
    from buffer_bytes_cases [OF 2(2)] 2(1) show ?thesis by simp
  qed
  then show "writes s s'" "r \<noteq> Panic" "os_ok os \<Longrightarrow> r = Ok ()"
    "r = Ok () \<Longrightarrow> DEFAULT_BUF_SIZE \<le> length data \<longrightarrow> w_buf (fst s) = [] \<Longrightarrow> written s' = written s @ data"
    "w_buf (fst s') = (if DEFAULT_BUF_SIZE \<le> length data then w_buf (fst s) else w_buf (fst s) @ data)" by blast+
qed

text \<open>What \<open>write_all\<close> promises; the buffer never outgrows its capacity.\<close>

lemma write_all_cases:
  assumes "write_all os data s = (r, s')"
  shows "writes s s'" "r \<noteq> Panic" "os_ok os \<Longrightarrow> r = Ok ()" "r = Ok () \<Longrightarrow> written s' = written s @ data"
    "length (w_buf (fst s)) \<le> DEFAULT_BUF_SIZE \<Longrightarrow> length (w_buf (fst s')) \<le> DEFAULT_BUF_SIZE"
proof -
  let ?n = "length (w_buf (fst s)) + length data"
  obtain r1 s1 where f: "(if DEFAULT_BUF_SIZE < ?n then flush os else st_lift (Ok ())) s = (r1, s1)"
    by (metis surj_pair)
  have fc: "writes s s1" "r1 \<noteq> Panic" "os_ok os \<Longrightarrow> r1 = Ok ()" "r1 = Ok () \<Longrightarrow> written s1 = written s"
    "length (w_buf (fst s1)) \<le> length (w_buf (fst s))"
    "r1 = Ok () \<Longrightarrow> DEFAULT_BUF_SIZE \<le> ?n \<Longrightarrow>
       w_buf (fst s1) = [] \<or> w_buf (fst s1) = w_buf (fst s) \<and> ?n = DEFAULT_BUF_SIZE"
    using make_room_cases [OF f] by simp_all
  obtain r2 s2 where d: "(if DEFAULT_BUF_SIZE \<le> length data then write_direct os data else buffer_bytes data) s1 = (r2, s2)"
    by (metis surj_pair)
  have dc: "writes s1 s2" "r2 \<noteq> Panic" "os_ok os \<Longrightarrow> r2 = Ok ()"
    "r2 = Ok () \<Longrightarrow> DEFAULT_BUF_SIZE \<le> length data \<longrightarrow> w_buf (fst s1) = [] \<Longrightarrow> written s2 = written s1 @ data"
    "w_buf (fst s2) = (if DEFAULT_BUF_SIZE \<le> length data then w_buf (fst s1) else w_buf (fst s1) @ data)"
    using place_bytes_cases [OF d] by simp_all
  consider (fits) "?n < DEFAULT_BUF_SIZE" | (failed) e where "DEFAULT_BUF_SIZE \<le> ?n" "r1 = Err e"
    | (cold) "DEFAULT_BUF_SIZE \<le> ?n" "r1 = Ok ()" using fc(2) by (cases r1) fastforce+
  then have "writes s s' \<and> r \<noteq> Panic \<and> (os_ok os \<longrightarrow> r = Ok ()) \<and> (r = Ok () \<longrightarrow> written s' = written s @ data) \<and>
    (length (w_buf (fst s)) \<le> DEFAULT_BUF_SIZE \<longrightarrow> length (w_buf (fst s')) \<le> DEFAULT_BUF_SIZE)"
  proof cases
    case fits
    then have "buffer_bytes data s = (r, s')" using assms by (simp add: write_all_def)
    from buffer_bytes_cases [OF this] fits show ?thesis by simp
  next
    case failed
    then have "r = Err e" "s' = s1" using assms f by (simp_all add: write_all_def st_bind_def)
    then show ?thesis using failed fc(1,3,5) by auto
  next
    case cold
    then have eq: "r = r2" "s' = s2" using assms f d by (simp_all add: write_all_def st_bind_def)
    have b: "w_buf (fst s1) = [] \<or> w_buf (fst s1) = w_buf (fst s) \<and> ?n = DEFAULT_BUF_SIZE"
      using fc(6) cold by simp
    then have "w_buf (fst s1) = []" if "DEFAULT_BUF_SIZE \<le> length data"
      using that by (metis add_le_same_cancel2 le_zero_eq length_0_conv)
    moreover have "length (w_buf (fst s2)) \<le> DEFAULT_BUF_SIZE"
      using b unfolding dc(5) by (auto simp: DEFAULT_BUF_SIZE_def)
    ultimately show ?thesis
      using wrt.rel_trans [OF fc(1) dc(1)] dc(2-4) fc(4) cold unfolding eq by simp
  qed
  then show "writes s s'" "r \<noteq> Panic" "os_ok os \<Longrightarrow> r = Ok ()" "r = Ok () \<Longrightarrow> written s' = written s @ data"
    "length (w_buf (fst s)) \<le> DEFAULT_BUF_SIZE \<Longrightarrow> length (w_buf (fst s')) \<le> DEFAULT_BUF_SIZE" by simp_all
qed

lemma drop_writer_touches: "touches (w_ino (fst s)) (snd s) (drop_writer os s)"
proof (cases "w_buf (fst s) = []")
  case False
  obtain r s' where f: "flush os s = (r, s')" by (metis surj_pair)
  show ?thesis
    using flush_cases(1) [OF f] False f by (simp add: drop_writer_def writes_def)
qed (simp add: drop_writer_def tch.rel_refl)

lemma drop_writer_flushed: "w_buf (fst s) = [] \<Longrightarrow> drop_writer os s = snd s"
  by (simp add: drop_writer_def)

lemma sync_all_cases:
  assumes "sync_all os s = (r, s')"
  shows "writes s s'" "r \<noteq> Panic" "os_ok os \<Longrightarrow> r = Ok ()" "written s' = written s" "fst s' = fst s"
    "r = Ok () \<Longrightarrow> synced_mark (node (disk (snd s')) (w_ino (fst s)))"
proof -
  obtain wr w ev w1 where s: "s = (wr, w)" and ev: "tick os w = (ev, w1)" by (metis surj_pair)
  have t: "touches (w_ino wr) w w1" "disk w1 = disk w"
    using tick_touches [OF ev] by (auto simp: quiet_def)
  let ?d = "(disk w)\<lparr> node := (node (disk w))(w_ino wr := (node (disk w) (w_ino wr))\<lparr> synced_mark := True \<rparr>) \<rparr>"
  have "touches (w_ino wr) w1 (put_disk ?d w1)"
    using t(2) by (auto simp: put_disk_def touches_def only_node_def)
  then have "touches (w_ino wr) w (put_disk ?d w1)" by (rule tch.rel_trans [OF t(1)])
  then show "writes s s'" "r \<noteq> Panic" "written s' = written s" "fst s' = fst s"
    "r = Ok () \<Longrightarrow> synced_mark (node (disk (snd s')) (w_ino (fst s)))"
    using assms t
    by (auto simp: sync_all_def s ev writes_def written_def put_disk_def Let_def split: io_event.splits)
  show "os_ok os \<Longrightarrow> r = Ok ()"
    using assms tick_ok [of os w] by (auto simp: sync_all_def s ev Let_def split: io_event.splits)
qed

text \<open>Creating a file under a free name: a new node appears under that name, nothing else changes.\<close>

definition disk_with_new :: "path \<Rightarrow> disk \<Rightarrow> disk" where
  "disk_with_new p d =
     d\<lparr> entries := (entries d)(p \<mapsto> next_ino d),
        node := (node d)(next_ino d := \<lparr> contents = [], synced_mark = False \<rparr>),
        next_ino := Suc (next_ino d) \<rparr>"

definition disk_truncated :: "nat \<Rightarrow> disk \<Rightarrow> disk" where
  "disk_truncated i d = d\<lparr> node := (node d)(i := \<lparr> contents = [], synced_mark = False \<rparr>) \<rparr>"

lemma wf_only_node: "only_node i d d' \<Longrightarrow> wf_disk d \<Longrightarrow> wf_disk d'"
  by (simp add: only_node_def wf_disk_def)

lemma wf_disk_with_new: "wf_disk d \<Longrightarrow> wf_disk (disk_with_new p d)"
  by (auto simp: wf_disk_def disk_with_new_def less_SucI)

lemma wf_disk_truncated: "wf_disk d \<Longrightarrow> wf_disk (disk_truncated i d)"
  by (simp add: wf_disk_def disk_truncated_def)

lemma wf_disk_renamed:
  "wf_disk d \<Longrightarrow> entries d p = Some i \<Longrightarrow> wf_disk (d\<lparr> entries := (entries d)(p := None, q \<mapsto> i) \<rparr>)"
  by (auto simp: wf_disk_def)

lemma wf_disk_removed: "wf_disk d \<Longrightarrow> wf_disk (d\<lparr> entries := (entries d)(p := None) \<rparr>)"
  by (auto simp: wf_disk_def)

lemma file_create_cases:
  assumes "file_create os p w = (r, w')"
  shows "r \<noteq> Panic" "rng_state w' = rng_state w" "os_ok os \<Longrightarrow> \<exists>wr. r = Ok wr" "r = Err () \<Longrightarrow> quiet w w'"
    "entries (disk w) p = None \<Longrightarrow> r = Ok wr \<Longrightarrow>
       wr = \<lparr> w_ino = next_ino (disk w), w_buf = [] \<rparr> \<and> disk w' = disk_with_new p (disk w) \<and>
       hist w' = hist w @ [disk_with_new p (disk w)]"
    "entries (disk w) p = Some i \<Longrightarrow> r = Ok wr \<Longrightarrow>
       wr = \<lparr> w_ino = i, w_buf = [] \<rparr> \<and> disk w' = disk_truncated i (disk w) \<and>
       hist w' = hist w @ [disk_truncated i (disk w)]"
proof -
  obtain ev w1 where ev: "tick os w = (ev, w1)" by (metis surj_pair)
  have w1: "disk w1 = disk w" "hist w1 = hist w" "rng_state w1 = rng_state w"
    using tick_touches [OF ev] by (auto simp: quiet_def)
  show "r \<noteq> Panic" "rng_state w' = rng_state w" "r = Err () \<Longrightarrow> quiet w w'"
    "entries (disk w) p = None \<Longrightarrow> r = Ok wr \<Longrightarrow>
       wr = \<lparr> w_ino = next_ino (disk w), w_buf = [] \<rparr> \<and> disk w' = disk_with_new p (disk w) \<and>
       hist w' = hist w @ [disk_with_new p (disk w)]"
    "entries (disk w) p = Some i \<Longrightarrow> r = Ok wr \<Longrightarrow>
       wr = \<lparr> w_ino = i, w_buf = [] \<rparr> \<and> disk w' = disk_truncated i (disk w) \<and>
       hist w' = hist w @ [disk_truncated i (disk w)]"
    using assms w1
    by (auto simp: file_create_def ev Let_def put_disk_def disk_with_new_def disk_truncated_def quiet_def
        split: io_event.splits option.splits)
  show "os_ok os \<Longrightarrow> \<exists>wr. r = Ok wr"
    using assms tick_ok [of os w]
    by (auto simp: file_create_def ev Let_def split: io_event.splits option.splits)
qed

text \<open>In both cases: the name refers to an empty node, and no other node or name changed.\<close>

lemma file_create_Ok:
  assumes "file_create os p w = (Ok wr, w')"
  shows "w_buf wr = []" "entries (disk w') = (entries (disk w))(p \<mapsto> w_ino wr)"
    "contents (node (disk w') (w_ino wr)) = []" "j \<noteq> w_ino wr \<Longrightarrow> node (disk w') j = node (disk w) j"
    "entries (disk w) p = Some (w_ino wr) \<or> entries (disk w) p = None \<and> w_ino wr = next_ino (disk w)"
    "wf_disk (disk w) \<Longrightarrow> wf_disk (disk w')"
proof -
  note c = file_create_cases [OF assms]
  have "w_buf wr = [] \<and> entries (disk w') = (entries (disk w))(p \<mapsto> w_ino wr) \<and>
    contents (node (disk w') (w_ino wr)) = [] \<and> (\<forall>j. j \<noteq> w_ino wr \<longrightarrow> node (disk w') j = node (disk w) j) \<and>
    (entries (disk w) p = Some (w_ino wr) \<or> entries (disk w) p = None \<and> w_ino wr = next_ino (disk w)) \<and>
    (wf_disk (disk w) \<longrightarrow> wf_disk (disk w'))"
  proof (cases "entries (disk w) p")
    case None
    then show ?thesis
      using c(5) [of wr] wf_disk_with_new [of "disk w" p] by (auto simp: disk_with_new_def)
  next
    case (Some i)
    then show ?thesis
      using c(6) [of i wr] wf_disk_truncated [of "disk w" i] by (auto simp: disk_truncated_def)
  qed
  then show "w_buf wr = []" "entries (disk w') = (entries (disk w))(p \<mapsto> w_ino wr)"
    "contents (node (disk w') (w_ino wr)) = []" "j \<noteq> w_ino wr \<Longrightarrow> node (disk w') j = node (disk w) j"
    "entries (disk w) p = Some (w_ino wr) \<or> entries (disk w) p = None \<and> w_ino wr = next_ino (disk w)"
    "wf_disk (disk w) \<Longrightarrow> wf_disk (disk w')" by auto
qed

lemma file_create_other_node:
  assumes "file_create os p w = (Ok wr, w')" "wf_disk (disk w)" "entries (disk w) q = Some j"
    "\<not> same_file (disk w) q p"
  shows "j \<noteq> w_ino wr"
proof -
  have "j < next_ino (disk w)" using assms(2,3) by (auto simp: wf_disk_def)
  then show ?thesis
    using file_create_Ok(5) [OF assms(1)] assms(3,4) by (auto simp: same_file_def)
qed

text \<open>A file created and then written to: its name has what was written, other files are as before.\<close>

lemma create_then_write:
  assumes cr: "file_create os p w = (Ok wr, w1)" and t: "touches (w_ino wr) w1 w'" and wf: "wf_disk (disk w)"
  shows "read_path (disk w') p = Some (contents (node (disk w') (w_ino wr)))"
    "q \<noteq> p \<Longrightarrow> \<not> same_file (disk w) q p \<Longrightarrow> read_path (disk w') q = read_path (disk w) q"
    "wf_disk (disk w')" "rng_state w' = rng_state w"
proof -
  note c = file_create_Ok [OF cr]
  have on: "only_node (w_ino wr) (disk w1) (disk w')" using t by (simp add: touches_def)
  show "read_path (disk w') p = Some (contents (node (disk w') (w_ino wr)))"
    using on c(2) by (simp add: read_path_def only_node_def)
  show "q \<noteq> p \<Longrightarrow> \<not> same_file (disk w) q p \<Longrightarrow> read_path (disk w') q = read_path (disk w) q"
    using on c(2,4) file_create_other_node [OF cr wf]
    by (cases "entries (disk w) q") (auto simp: read_path_def only_node_def)
  show "wf_disk (disk w')" using wf_only_node [OF on c(6) [OF wf]] .
  show "rng_state w' = rng_state w"
    using t file_create_cases(2) [OF cr] by (simp add: touches_def)
qed

lemma rename_cases:
  assumes "rename os p q w = (r, w')"
  shows "r \<noteq> Panic" "rng_state w' = rng_state w" "r = Err () \<Longrightarrow> quiet w w'"
    "entries (disk w) p = Some i \<Longrightarrow> os_ok os \<Longrightarrow> r = Ok ()"
    "entries (disk w) p = Some i \<Longrightarrow> r = Ok () \<Longrightarrow>
       disk w' = (disk w)\<lparr> entries := (entries (disk w))(p := None, q \<mapsto> i) \<rparr> \<and>
       hist w' = hist w @ [disk w']"
  using assms tick_ok [of os w]
  by (auto simp: rename_def Let_def put_disk_def quiet_def tick_def split: io_event.splits option.splits)

lemma remove_file_cases:
  assumes "remove_file os p w = (r, w')"
  shows "rng_state w' = rng_state w"
    "quiet w w' \<or> disk w' = (disk w)\<lparr> entries := (entries (disk w))(p := None) \<rparr> \<and>
       hist w' = hist w @ [disk w']"
    "os_ok os \<Longrightarrow> entries (disk w') = (entries (disk w))(p := None)"
  using assms tick_ok [of os w]
  by (auto simp: remove_file_def Let_def put_disk_def quiet_def tick_def split: io_event.splits if_splits)

subsection \<open>Paths\<close>

text \<open>A file name as it can occur in a path: one non-empty component.\<close>

definition proper_name :: "string \<Rightarrow> bool" where
  "proper_name s \<longleftrightarrow> s \<noteq> [] \<and> CHR ''/'' \<notin> set s \<and> s \<noteq> ''.'' \<and> s \<noteq> ''..''"

definition wf_path :: "path \<Rightarrow> bool" where
  "wf_path p \<longleftrightarrow> (\<forall>s. Normal s \<in> set p \<longrightarrow> proper_name s)"

lemma split_slash_nonempty [simp]: "split_slash s \<noteq> []"
  by (induction s) (auto split: list.split)

lemma split_slash_no_slash: "w \<in> set (split_slash s) \<Longrightarrow> CHR ''/'' \<notin> set w"
proof (induction s arbitrary: w)
  case (Cons c s)
  then show ?case by (cases "split_slash s") (auto split: if_splits)
qed simp

lemma split_slash_single: "CHR ''/'' \<notin> set s \<Longrightarrow> split_slash s = [s]"
  by (induction s) auto

lemma wf_path_components: "wf_path (components s)"
  using split_slash_no_slash [of _ s]
  by (auto simp: wf_path_def components_def component_of_def proper_name_def split: if_splits)

lemma components_proper: "proper_name s \<Longrightarrow> components s = [Normal s]"
  by (cases s) (auto simp: proper_name_def components_def component_of_def split_slash_single)

lemma with_file_name_proper:
  assumes "file_name p = Some n" "proper_name s"
  shows "with_file_name p s = butlast p @ [Normal s]"
  using assms by (auto simp: with_file_name_def path_push_def components_proper Let_def)

lemma file_name_Some: "file_name p = Some n \<longleftrightarrow> p \<noteq> [] \<and> last p = Normal n"
  by (auto simp: file_name_def split: component.splits)

lemma file_name_proper: "wf_path p \<Longrightarrow> file_name p = Some n \<Longrightarrow> proper_name n"
  by (metis file_name_Some last_in_set wf_path_def)

lemma length_hex16 [simp]: "length (hex16 n) = 16"
  by (simp add: hex16_def)

lemma nibble_less: "unat (take_bit 4 (w :: u64)) < 16"
  using take_bit_nat_less_exp [of 4 "unat w"] by (simp add: unsigned_take_bit_eq)

lemma hex_digit_inject: "a < 16 \<Longrightarrow> b < 16 \<Longrightarrow> hex_digit a = hex_digit b \<longleftrightarrow> a = b"
  unfolding hex_digit_def by (subst nth_eq_iff_index_eq) simp_all

lemma hex_digit_no_slash: "a < 16 \<Longrightarrow> hex_digit a \<noteq> CHR ''/''"
proof -
  assume "a < 16"
  then have "hex_digit a \<in> set ''0123456789abcdef''"
    unfolding hex_digit_def by (intro nth_mem) simp
  then show ?thesis by auto
qed

lemma hex16_no_slash: "CHR ''/'' \<notin> set (hex16 n)"
  using hex_digit_no_slash [OF nibble_less] by (auto simp: hex16_def simp del: upt_Suc) metis+

lemma hex16_inject [simp]: "hex16 m = hex16 n \<longleftrightarrow> m = n"
proof
  assume eq: "hex16 m = hex16 n"
  have nib: "take_bit 4 (drop_bit (4 * i) m) = take_bit 4 (drop_bit (4 * i) n)" if "i < 16" for i
  proof -
    have "i \<in> set (rev [0..<16])" using that by simp
    then have "hex_digit (unat (take_bit 4 (drop_bit (4 * i) m))) =
        hex_digit (unat (take_bit 4 (drop_bit (4 * i) n)))"
      using eq unfolding hex16_def map_eq_conv by blast
    then show ?thesis
      by (simp add: hex_digit_inject [OF nibble_less nibble_less] word_unat_eq_iff)
  qed
  show "m = n"
  proof (rule bit_word_eqI)
    fix j assume "j < LENGTH(64)"
    then have "j div 4 < 16" by auto
    from nib [OF this] have "bit (take_bit 4 (drop_bit (4 * (j div 4)) m)) (j mod 4) =
        bit (take_bit 4 (drop_bit (4 * (j div 4)) n)) (j mod 4)" by simp
    then show "bit m j = bit n j" by (simp add: bit_simps)
  qed
qed simp

end
