(* ===== verification/Filum_Blob_File.thy ===== *)
theory Filum_Blob_File
  imports Filum_Blob Filum_Fs
begin

text \<open>
  The file codecs of \<open>blob.rs\<close>: \<open>read_full\<close>, \<open>encrypt_file_chunked\<close>, \<open>TempCleanup\<close>,
  \<open>sibling_temp_path\<close> and \<open>decrypt_file_chunked\<close>, over the file system of \<open>Filum_Fs\<close>.
\<close>

subsection \<open>Definitions\<close>

text \<open>
  \<open>read_full\<close>: the loop \<open>while filled < buf.len()\<close>. Returns the number of bytes read, and the reader and
  the buffer it mutated.
\<close>

function read_full :: "os \<Rightarrow> reader \<Rightarrow> bytes \<Rightarrow> nat \<Rightarrow> ('r world, FilumCryptoError, nat \<times> reader \<times> bytes) st" where
  "read_full os rd buf filled w =
     (if filled < length buf then
        (case read os rd (length buf - filled) w of (r, w1) \<Rightarrow>
           (case map_err (\<lambda>_. Io) r of
              Err e \<Rightarrow> (Err e, w1)
            | Panic \<Rightarrow> (Panic, w1)
            | Ok (bs, rd1) \<Rightarrow>
                if bs = [] then (Ok (filled, rd1, buf), w1)
                else read_full os rd1 (take filled buf @ bs @ drop (filled + length bs) buf)
                       (filled + length bs) w1))
      else (Ok (filled, rd, buf), w))"
  by pat_completeness auto
termination
proof (relation "measure (\<lambda>(os, rd, buf, filled, w). length buf - filled)")
  fix os rd and buf :: bytes and filled and w w1 :: "'r world" and r x y and bs :: bytes and rd1
  assume "filled < length buf" "(r, w1) = read os rd (length buf - filled) w"
    "map_err (\<lambda>_. Io) r = Ok x" "(bs, rd1) = x" "bs \<noteq> []"
  then have "length bs \<le> length buf - filled" "0 < length bs"
    using read_cases(5) [of os rd "length buf - filled" w r w1 bs rd1] by auto
  with \<open>filled < length buf\<close>
  show "((os, rd1, take filled buf @ bs @ drop (filled + length bs) buf, filled + length bs, w1),
      os, rd, buf, filled, w) \<in> measure (\<lambda>(os, rd, buf, filled, w). length buf - filled)"
    by (cases bs) auto
qed simp

declare read_full.simps [simp del]

text \<open>
  \<open>Read::read_exact\<close> of the standard library: the same loop, which fails if the file ends before the
  buffer is full.
\<close>

definition read_exact :: "os \<Rightarrow> reader \<Rightarrow> bytes \<Rightarrow> ('r world, FilumCryptoError, reader \<times> bytes) st" where
  "read_exact os rd buf =
     st_bind (read_full os rd buf 0) (\<lambda>(n, rd1, buf1).
     st_lift (if n < length buf then Err Io else Ok (rd1, buf1)))"

text \<open>
  The two branches of the streaming loops. \<open>write_pending\<close>: a held full chunk, if any, goes through
  \<open>encrypt_next\<close> or \<open>decrypt_next\<close> (\<open>step\<close>) and is written. \<open>write_last\<close>: the final short chunk goes
  through \<open>encrypt_last\<close> or \<open>decrypt_last\<close> (\<open>final\<close>).
\<close>

definition write_pending ::
  "('k \<Rightarrow> bytes \<Rightarrow> bytes \<Rightarrow> (bytes \<times> 'k) option) \<Rightarrow> os \<Rightarrow> bytes \<Rightarrow> bytes option \<Rightarrow> 'k
     \<Rightarrow> (writer \<times> 'r world, FilumCryptoError, 'k) st" where
  "write_pending step os seg_aad pending key =
     (case pending of
        None \<Rightarrow> st_lift (Ok key)
      | Some prev \<Rightarrow>
          st_bind (st_lift (ok_or Aead (step key prev seg_aad))) (\<lambda>(out, key1).
          st_bind (st_map_err (\<lambda>_. Io) (write_all os out)) (\<lambda>_. st_lift (Ok key1))))"

definition write_last ::
  "('k \<Rightarrow> bytes \<Rightarrow> bytes \<Rightarrow> bytes option) \<Rightarrow> os \<Rightarrow> bytes \<Rightarrow> bytes \<Rightarrow> 'k
     \<Rightarrow> (writer \<times> 'r world, FilumCryptoError, unit) st" where
  "write_last final os seg_aad msg key =
     st_bind (st_lift (ok_or Aead (final key msg seg_aad))) (\<lambda>out.
     st_map_err (\<lambda>_. Io) (write_all os out))"

text \<open>
  The body of the streaming loop up to its exit test: read a chunk, write the held one. It yields the
  number of bytes read, the reader, the buffer and the cipher state.
\<close>

definition stream_step ::
  "('k \<Rightarrow> bytes \<Rightarrow> bytes \<Rightarrow> (bytes \<times> 'k) option) \<Rightarrow> os \<Rightarrow> bytes \<Rightarrow> reader \<Rightarrow> bytes \<Rightarrow> bytes option \<Rightarrow> 'k
     \<Rightarrow> (writer \<times> 'r world, FilumCryptoError, nat \<times> reader \<times> bytes \<times> 'k) st" where
  "stream_step step os seg_aad rd buf pending key =
     st_bind (on_world (read_full os rd buf 0)) (\<lambda>(n, rd1, buf1).
     st_bind (write_pending step os seg_aad pending key) (\<lambda>key1.
     st_lift (Ok (n, rd1, buf1, key1))))"

text \<open>
  The loop \<open>loop { ... }\<close> of both file codecs (\<open>sz\<close> is \<open>CHUNK_SIZE\<close> when encrypting and \<open>ct_chunk\<close>
  when decrypting): \<open>None\<close> if it does not return.
\<close>

partial_function (option) stream_loop ::
  "('k \<Rightarrow> bytes \<Rightarrow> bytes \<Rightarrow> (bytes \<times> 'k) option) \<Rightarrow> ('k \<Rightarrow> bytes \<Rightarrow> bytes \<Rightarrow> bytes option) \<Rightarrow> os \<Rightarrow> bytes
     \<Rightarrow> nat \<Rightarrow> reader \<Rightarrow> bytes \<Rightarrow> bytes option \<Rightarrow> 'k \<Rightarrow> writer \<times> 'r world
     \<Rightarrow> (unit Result \<times> writer \<times> 'r world) option" where
  "stream_loop step final os seg_aad sz rd buf pending key s =
     (case stream_step step os seg_aad rd buf pending key s of (r, s1) \<Rightarrow>
        (case r of
           Err e \<Rightarrow> Some (Err e, s1)
         | Panic \<Rightarrow> Some (Panic, s1)
         | Ok (n, rd1, buf1, key1) \<Rightarrow>
             if n < sz then Some (write_last final os seg_aad (take n buf1) key1 s1)
             else stream_loop step final os seg_aad sz rd1 buf1 (Some (take n buf1)) key1 s1))"

text \<open>
  \<open>encrypt_file_chunked\<close>, from the moment the output is open: header, loop, flush. Then, on every
  path, the writer is dropped.
\<close>

definition encrypt_stream ::
  "('e, 'd) aead_lib \<Rightarrow> os \<Rightarrow> bytes \<Rightarrow> bytes \<Rightarrow> bytes \<Rightarrow> bytes \<Rightarrow> reader
     \<Rightarrow> (writer \<times> 'r world, FilumCryptoError, unit) io" where
  "encrypt_stream A os seg_aad data_key nonce_prefix wrapped rd =
     io_bind (io_st (st_map_err (\<lambda>_. Io) (write_all os (write_header [] wrapped nonce_prefix)))) (\<lambda>_.
     io_bind (stream_loop (enc_next A) (enc_last A) os seg_aad CHUNK_SIZE rd (replicate CHUNK_SIZE 0) None
       (enc_from_aead A data_key nonce_prefix)) (\<lambda>_.
     io_st (st_map_err (\<lambda>_. Io) (flush os))))"

definition encrypt_file_chunked ::
  "('e, 'd) aead_lib \<Rightarrow> 'r rng \<Rightarrow> os \<Rightarrow> path \<Rightarrow> path \<Rightarrow> bytes \<Rightarrow> string
     \<Rightarrow> ('r world, FilumCryptoError, unit) io" where
  "encrypt_file_chunked A R os input output wrapping_key blob_id =
     io_bind (io_st (with_rng (new_blob_keys A R wrapping_key blob_id)))
       (\<lambda>(seg_aad, data_key, nonce_prefix, wrapped).
     io_bind (io_st (st_map_err (\<lambda>_. Io) (file_open os input))) (\<lambda>fin.
     io_bind (io_st (st_map_err (\<lambda>_. Io) (file_create os output))) (\<lambda>fout w.
     map_option (\<lambda>(r, s). (r, drop_writer os s))
       (encrypt_stream A os seg_aad data_key nonce_prefix wrapped fin (fout, w)))))"

text \<open>\<open>TempCleanup\<close> and its destructor.\<close>

record TempCleanup =
  cleanup_path :: path
  armed :: bool

definition drop_cleanup :: "os \<Rightarrow> TempCleanup \<Rightarrow> 'r world \<Rightarrow> 'r world" where
  "drop_cleanup os c w = (if armed c then snd (remove_file os (cleanup_path c) w) else w)"

definition sibling_temp_path :: "'r rng \<Rightarrow> path \<Rightarrow> ('r, FilumCryptoError, path) st" where
  "sibling_temp_path R output =
     st_bind (fill_random R (replicate 8 0)) (\<lambda>suffix.
     st_lift (
       res_bind (ok_or Io (file_name output)) (\<lambda>name.
       Ok (with_file_name output (name @ ''.'' @ hex16 (from_be_bytes suffix) @ ''.part'')))))"

text \<open>
  \<open>decrypt_file_chunked\<close> up to the temporary file: identifier, header, key unwrap. Yields the segment
  AAD, the reader (after the header), the decryptor and the ciphertext chunk size.
\<close>

definition decrypt_open ::
  "('e, 'd) aead_lib \<Rightarrow> os \<Rightarrow> path \<Rightarrow> bytes \<Rightarrow> string
     \<Rightarrow> ('r world, FilumCryptoError, bytes \<times> reader \<times> 'd \<times> nat) st" where
  "decrypt_open A os input wrapping_key blob_id =
     st_bind (st_lift (blob_segment_aad blob_id)) (\<lambda>seg_aad.
     st_bind (st_map_err (\<lambda>_. Io) (file_open os input)) (\<lambda>fin.
     st_bind (read_exact os fin (replicate HEADER_LEN 0)) (\<lambda>(fin, header).
     st_lift (
       res_bind (index header 0) (\<lambda>version.
       if version \<noteq> VERSION then Err Aead
       else
         res_bind (open_header A header wrapping_key blob_id) (\<lambda>(nonce_prefix, data_key, chunk_size).
         Ok (seg_aad, fin, dec_from_aead A data_key nonce_prefix, chunk_size + 16)))))))"

text \<open>From the moment the temporary file is open until the writer is dropped: loop, flush, sync.\<close>

definition decrypt_stream ::
  "('e, 'd) aead_lib \<Rightarrow> os \<Rightarrow> bytes \<Rightarrow> reader \<Rightarrow> 'd \<Rightarrow> nat
     \<Rightarrow> (writer \<times> 'r world, FilumCryptoError, unit) io" where
  "decrypt_stream A os seg_aad fin dec ct_chunk =
     io_bind (stream_loop (dec_next A) (dec_last A) os seg_aad ct_chunk fin (replicate ct_chunk 0) None dec) (\<lambda>_.
     io_bind (io_st (st_map_err (\<lambda>_. Io) (flush os))) (\<lambda>_.
     io_st (st_map_err (\<lambda>_. Io) (sync_all os))))"

text \<open>
  The scope of the \<open>TempCleanup\<close> guard: create, stream, drop the writer, rename. The statement after
  it disarms the guard, so the guard is still armed exactly when this part does not return \<open>Ok\<close>.
\<close>

definition decrypt_publish ::
  "('e, 'd) aead_lib \<Rightarrow> os \<Rightarrow> path \<Rightarrow> path \<Rightarrow> bytes \<Rightarrow> reader \<Rightarrow> 'd \<Rightarrow> nat
     \<Rightarrow> ('r world, FilumCryptoError, unit) io" where
  "decrypt_publish A os tmp output seg_aad fin dec ct_chunk =
     io_bind (io_st (st_map_err (\<lambda>_. Io) (file_create os tmp))) (\<lambda>fout.
     io_bind (\<lambda>w. map_option (\<lambda>(r, s). (r, drop_writer os s))
       (decrypt_stream A os seg_aad fin dec ct_chunk (fout, w))) (\<lambda>_.
     io_st (st_map_err (\<lambda>_. Io) (rename os tmp output))))"

definition decrypt_file_chunked ::
  "('e, 'd) aead_lib \<Rightarrow> 'r rng \<Rightarrow> os \<Rightarrow> path \<Rightarrow> path \<Rightarrow> bytes \<Rightarrow> string
     \<Rightarrow> ('r world, FilumCryptoError, unit) io" where
  "decrypt_file_chunked A R os input output wrapping_key blob_id =
     io_bind (io_st (decrypt_open A os input wrapping_key blob_id)) (\<lambda>(seg_aad, fin, dec, ct_chunk).
     io_bind (io_st (with_rng (sibling_temp_path R output))) (\<lambda>tmp w.
     map_option (\<lambda>(r, w1).
         (r, drop_cleanup os \<lparr> cleanup_path = tmp, armed = (r \<noteq> Ok ()) \<rparr> w1))
       (decrypt_publish A os tmp output seg_aad fin dec ct_chunk w)))"

subsection \<open>Reading full chunks\<close>

lemma read_full_Ok:
  assumes "read_full os rd buf filled w = (Ok (n, rd', buf'), w')" "filled \<le> length buf"
  shows "quiet w w' \<and> rng_state w' = rng_state w \<and> length buf' = length buf \<and> filled \<le> n \<and> n \<le> length buf \<and>
    r_ino rd' = r_ino rd \<and>
    (\<exists>bs. take n buf' = take filled buf @ bs \<and> remaining rd w = bs @ remaining rd' w) \<and>
    (n < length buf \<longrightarrow> remaining rd' w = [])"
  using assms
proof (induction os rd buf filled w rule: read_full.induct)
  case (1 os rd buf filled w)
  show ?case
  proof (cases "filled < length buf")
    case False
    then have "read_full os rd buf filled w = (Ok (filled, rd, buf), w)"
      by (simp add: read_full.simps [of os rd buf filled w])
    with False "1.prems" show ?thesis by (auto simp: quiet_def)
  next
    case True
    obtain r w1 where rd: "read os rd (length buf - filled) w = (r, w1)" by (metis surj_pair)
    from "1.prems"(1) True rd obtain bs rd1 where r: "r = Ok (bs, rd1)"
      by (cases r) (auto simp: read_full.simps [of os rd buf filled w] split: if_splits)
    note rc = read_cases(1,2) [OF rd] read_cases(5) [OF rd r]
    show ?thesis
    proof (cases "bs = []")
      case True
      with \<open>filled < length buf\<close> r rd "1.prems"(1)
      have "n = filled" "rd' = rd1" "buf' = buf" "w' = w1"
        by (simp_all add: read_full.simps [of os rd buf filled w])
      with True rc \<open>filled < length buf\<close> show ?thesis by auto
    next
      case False
      let ?buf = "take filled buf @ bs @ drop (filled + length bs) buf"
      have len: "length ?buf = length buf" "filled + length bs \<le> length buf"
        using rc(3) \<open>filled < length buf\<close> by auto
      have rec: "read_full os rd1 ?buf (filled + length bs) w1 = (Ok (n, rd', buf'), w')"
        using "1.prems"(1) False \<open>filled < length buf\<close> r rd
        by (simp add: read_full.simps [of os rd buf filled w])
      have pre: "map_err (\<lambda>_. Io) r = Ok (bs, rd1)" using r by simp
      have fits: "filled + length bs \<le> length ?buf" using len by simp
      note ih = "1.IH" [OF \<open>filled < length buf\<close> rd [symmetric] pre refl False rec fits,
          unfolded len(1) remaining_quiet [OF rc(1)]]
      have "take (filled + length bs) ?buf = take filled buf @ bs"
        using \<open>filled < length buf\<close> by simp
      with ih rc(3) have "\<exists>cs. take n buf' = take filled buf @ cs \<and> remaining rd w = cs @ remaining rd' w"
        by (metis append.assoc)
      moreover have "quiet w w'" "rng_state w' = rng_state w"
        using ih rc(1,2) by (auto simp: quiet_def)
      ultimately show ?thesis using ih rc(3) by simp
    qed
  qed
qed

lemma read_full_total:
  "(\<exists>x w'. read_full os rd buf filled w = (Ok x, w')) \<or>
   (\<exists>w'. read_full os rd buf filled w = (Err Io, w') \<and> quiet w w' \<and> rng_state w' = rng_state w \<and> \<not> os_ok os)"
proof (induction os rd buf filled w rule: read_full.induct)
  case (1 os rd buf filled w)
  show ?case
  proof (cases "filled < length buf")
    case False
    then show ?thesis by (simp add: read_full.simps [of os rd buf filled w])
  next
    case True
    obtain r w1 where rd: "read os rd (length buf - filled) w = (r, w1)" by (metis surj_pair)
    note rc = read_cases(1-4) [OF rd]
    show ?thesis
    proof (cases r)
      case (Ok x)
      obtain bs rd1 where x: "x = (bs, rd1)" by (cases x)
      show ?thesis
      proof (cases "bs = []")
        case False
        then have eq: "read_full os rd buf filled w = read_full os rd1
            (take filled buf @ bs @ drop (filled + length bs) buf) (filled + length bs) w1"
          using \<open>filled < length buf\<close> rd Ok x by (simp add: read_full.simps [of os rd buf filled w])
        show ?thesis
          using "1.IH" [OF True rd [symmetric] _ refl, of bs rd1] False Ok x rc
          unfolding eq by (auto simp: quiet_def)
      qed (use True rd Ok x in \<open>simp add: read_full.simps [of os rd buf filled w]\<close>)
    qed (use True rd rc in \<open>auto simp: read_full.simps [of os rd buf filled w]\<close>)
  qed
qed

text \<open>
  The contract of \<open>read_full\<close> the loops rely on: it fails with \<open>Io\<close>, or it delivers the next bytes of the
  file, as many as fit, and fewer only at the end of the file.
\<close>

lemma read_full_cases:
  assumes "read_full os rd buf 0 w = (r, w')"
  shows "quiet w w'" "rng_state w' = rng_state w" "r \<noteq> Panic" "r = Err e \<Longrightarrow> e = Io \<and> \<not> os_ok os"
    "r = Ok (n, rd', buf') \<Longrightarrow> n = min (length buf) (length (remaining rd w)) \<and> r_ino rd' = r_ino rd \<and>
       remaining rd' w = drop n (remaining rd w) \<and> length buf' = length buf \<and>
       take n buf' = take n (remaining rd w)"
proof -
  have ok: "quiet w w' \<and> rng_state w' = rng_state w \<and>
      n = min (length buf) (length (remaining rd w)) \<and> r_ino rd' = r_ino rd \<and>
      remaining rd' w = drop n (remaining rd w) \<and> length buf' = length buf \<and>
      take n buf' = take n (remaining rd w)"
    if "r = Ok (n, rd', buf')" for n rd' buf'
  proof -
    have f: "read_full os rd buf 0 w = (Ok (n, rd', buf'), w')" using assms that by simp
    note c = read_full_Ok [OF f le0]
    then obtain bs where bs: "take n buf' = bs" "remaining rd w = bs @ remaining rd' w" by auto
    from c have "n \<le> length buf'" by simp
    then have "length bs = n" using bs(1) by auto
    with c bs show ?thesis by auto
  qed
  from read_full_total [of os rd buf 0 w] assms
  consider x where "r = Ok x" | "r = Err Io" "quiet w w'" "rng_state w' = rng_state w" "\<not> os_ok os"
    by auto
  then have "quiet w w' \<and> rng_state w' = rng_state w \<and> r \<noteq> Panic \<and> (\<forall>e. r = Err e \<longrightarrow> e = Io \<and> \<not> os_ok os)"
  proof cases
    case (1 x)
    then show ?thesis using ok by (cases x) auto
  qed simp
  then show "quiet w w'" "rng_state w' = rng_state w" "r \<noteq> Panic" "r = Err e \<Longrightarrow> e = Io \<and> \<not> os_ok os"
    by auto
  show "r = Ok (n, rd', buf') \<Longrightarrow> n = min (length buf) (length (remaining rd w)) \<and> r_ino rd' = r_ino rd \<and>
       remaining rd' w = drop n (remaining rd w) \<and> length buf' = length buf \<and>
       take n buf' = take n (remaining rd w)"
    using ok by blast
qed

subsection \<open>The streaming loop against the reference\<close>

text \<open>
  Any STREAM direction on a message sequence: \<open>step\<close> on all but the last message, \<open>final\<close> on the last.
\<close>

fun run_stream ::
  "('k \<Rightarrow> bytes \<Rightarrow> bytes \<Rightarrow> (bytes \<times> 'k) option) \<Rightarrow> ('k \<Rightarrow> bytes \<Rightarrow> bytes \<Rightarrow> bytes option) \<Rightarrow> bytes \<Rightarrow> 'k
     \<Rightarrow> bytes list \<Rightarrow> bytes \<Rightarrow> bytes list option" where
  "run_stream step final a k [] m = map_option (\<lambda>c. [c]) (final k m a)"
| "run_stream step final a k (x # xs) m =
     (case step k x a of None \<Rightarrow> None
      | Some (c, k') \<Rightarrow> map_option ((#) c) (run_stream step final a k' xs m))"

lemma seal_segments_run: "seal_segments A a e xs m = run_stream (enc_next A) (enc_last A) a e xs m"
  by (induction xs arbitrary: e) (auto split: option.split)

lemma open_segments_run:
  "open_segments A a d (xs @ [m]) = map_option concat (run_stream (dec_next A) (dec_last A) a d xs m)"
proof (induction xs arbitrary: d)
  case Nil
  then show ?case by (simp add: option.map_comp comp_def option.map_ident)
next
  case (Cons x xs)
  have "open_segments A a d (x # zs) =
      (case dec_next A d x a of None \<Rightarrow> None | Some (p, d') \<Rightarrow> map_option ((@) p) (open_segments A a d' zs))"
    if "zs \<noteq> []" for zs
    using that by (cases zs) (simp_all split: option.split)
  then show ?case
    by (simp add: Cons.IH option.map_comp comp_def split: option.split)
qed

definition held :: "bytes option \<Rightarrow> bytes list" where
  "held pending = (case pending of None \<Rightarrow> [] | Some x \<Rightarrow> [x])"

lemma on_world_apply: "on_world m s = (fst (m (snd s)), (fst s, snd (m (snd s))))"
  by (simp add: on_world_def split: prod.split)

lemma writes_quiet: "quiet w w' \<Longrightarrow> rng_state w' = rng_state w \<Longrightarrow> writes (wr, w) (wr, w')"
  by (simp add: writes_def touches_def quiet_def only_node_refl)

lemma written_quiet: "quiet w w' \<Longrightarrow> written (wr, w') = written (wr, w)"
  by (simp add: written_def quiet_def)

lemma write_pending_cases:
  assumes "write_pending step os a pending key s = (r, s')"
  shows "writes s s' \<and> r \<noteq> Panic \<and>
    (\<forall>e. r = Err e \<longrightarrow> e = Io \<and> \<not> os_ok os \<or> e = Aead \<and> (\<exists>x. pending = Some x \<and> step key x a = None)) \<and>
    (\<forall>key'. r = Ok key' \<longrightarrow>
       pending = None \<and> key' = key \<and> written s' = written s \<or>
       (\<exists>x out. pending = Some x \<and> step key x a = Some (out, key') \<and> written s' = written s @ out))"
proof (cases pending)
  case None
  then show ?thesis using assms by (auto simp: write_pending_def wrt.rel_refl)
next
  case (Some x)
  show ?thesis
  proof (cases "step key x a")
    case None
    then show ?thesis using assms Some by (auto simp: write_pending_def wrt.rel_refl)
  next
    case (Some y)
    then obtain out key1 where y: "step key x a = Some (out, key1)" by (cases y) simp
    obtain r1 s1 where wa: "write_all os out s = (r1, s1)" by (metis surj_pair)
    show ?thesis
      using assms write_all_cases [OF wa]
      by (cases r1) (auto simp: write_pending_def \<open>pending = Some x\<close> y st_bind_def st_map_err_apply wa)
  qed
qed

lemma write_last_cases:
  assumes "write_last final os a m key s = (r, s')"
  shows "writes s s' \<and> r \<noteq> Panic \<and>
    (\<forall>e. r = Err e \<longrightarrow> e = Io \<and> \<not> os_ok os \<or> e = Aead \<and> final key m a = None) \<and>
    (r = Ok () \<longrightarrow> (\<exists>out. final key m a = Some out \<and> written s' = written s @ out))"
proof (cases "final key m a")
  case None
  then show ?thesis using assms by (auto simp: write_last_def wrt.rel_refl)
next
  case (Some out)
  obtain r1 s1 where wa: "write_all os out s = (r1, s1)" by (metis surj_pair)
  show ?thesis
    using assms write_all_cases [OF wa]
    by (cases r1) (auto simp: write_last_def Some st_map_err_apply wa)
qed

text \<open>
  What a part of the loop that stands for the message sequence with outcome \<open>target\<close> does: it only
  writes to the output node, never panics, fails with \<open>Aead\<close> only if the cipher refuses a message and
  with \<open>Io\<close> only if a call failed, and on success has written exactly the cipher's outputs.
\<close>

definition stream_result ::
  "os \<Rightarrow> writer \<times> 'r world \<Rightarrow> bytes list option \<Rightarrow> unit Result \<Rightarrow> writer \<times> 'r world \<Rightarrow> bool" where
  "stream_result os s target r s' \<longleftrightarrow>
     writes s s' \<and> r \<noteq> Panic \<and>
     (\<forall>e. r = Err e \<longrightarrow> e = Io \<and> \<not> os_ok os \<or> e = Aead \<and> target = None) \<and>
     (r = Ok () \<longrightarrow> (\<exists>outs. target = Some outs \<and> written s' = written s @ concat outs))"

lemma stream_result_prefix:
  assumes "writes s s1" "written s1 = written s @ concat em" "target = map_option ((@) em) target1"
    and "stream_result os s1 target1 r s'"
  shows "stream_result os s target r s'"
  using assms wrt.rel_trans [OF assms(1), of s'] by (auto simp: stream_result_def)

text \<open>The held chunk, if any, went through the cipher and gave the outputs \<open>em\<close>.\<close>

definition held_through ::
  "('k \<Rightarrow> bytes \<Rightarrow> bytes \<Rightarrow> (bytes \<times> 'k) option) \<Rightarrow> bytes \<Rightarrow> bytes option \<Rightarrow> 'k \<Rightarrow> 'k \<Rightarrow> bytes list \<Rightarrow> bool" where
  "held_through step a pending key key' em \<longleftrightarrow>
     pending = None \<and> key' = key \<and> em = [] \<or>
     (\<exists>x out. pending = Some x \<and> step key x a = Some (out, key') \<and> em = [out])"

lemma run_stream_held:
  assumes "held_through step a pending key key' em"
  shows "run_stream step final a key (held pending @ xs) m = map_option ((@) em) (run_stream step final a key' xs m)"
  using assms by (cases "run_stream step final a key' xs m") (auto simp: held_def held_through_def)

lemma stream_step_cases:
  assumes st: "stream_step step os a rd buf pending key s = (r, s')"
  shows "writes s s' \<and> r \<noteq> Panic \<and>
    (\<forall>e. r = Err e \<longrightarrow> e = Io \<and> \<not> os_ok os \<or> e = Aead \<and> (\<exists>x. pending = Some x \<and> step key x a = None)) \<and>
    (\<forall>n rd' buf' key'. r = Ok (n, rd', buf', key') \<longrightarrow>
       n = min (length buf) (length (remaining rd (snd s))) \<and> r_ino rd' = r_ino rd \<and>
       remaining rd' (snd s) = drop n (remaining rd (snd s)) \<and>
       length buf' = length buf \<and> take n buf' = take n (remaining rd (snd s)) \<and>
       (\<exists>em. held_through step a pending key key' em \<and>
          written s' = written s @ concat em))"
proof -
  obtain wr w where s: "s = (wr, w)" by (cases s)
  obtain r1 w1 where rf: "read_full os rd buf 0 w = (r1, w1)" by (metis surj_pair)
  note rc = read_full_cases [OF rf]
  have w1: "writes s (wr, w1)" "written (wr, w1) = written s"
    using writes_quiet [OF rc(1,2)] written_quiet [OF rc(1)] by (simp_all add: s)
  show ?thesis
  proof (cases r1)
    case (Ok x)
    obtain n rd1 buf1 where x: "x = (n, rd1, buf1)" by (cases x) auto
    obtain r2 s2 where wp: "write_pending step os a pending key (wr, w1) = (r2, s2)" by (metis surj_pair)
    note pc = write_pending_cases [OF wp]
    have "writes s s2" by (rule wrt.rel_trans [OF w1(1) pc [THEN conjunct1]])
    then show ?thesis
      using st pc rc(5) [of n rd1 buf1] Ok x rf wp w1(2)
      by (cases r2) (auto simp: stream_step_def st_bind_def on_world_apply s held_through_def)
  qed (use st rf rc w1 in \<open>auto simp: stream_step_def st_bind_def on_world_apply s\<close>)
qed

lemmas stream_step_writes = stream_step_cases [THEN conjunct1]

lemma stream_step_Ok:
  assumes "stream_step step os a rd buf pending key s = (Ok (n, rd', buf', key'), s')"
  obtains em where "n = min (length buf) (length (remaining rd (snd s)))" "r_ino rd' = r_ino rd"
    "remaining rd' (snd s) = drop n (remaining rd (snd s))" "length buf' = length buf" "take n buf' = take n (remaining rd (snd s))"
    "held_through step a pending key key' em" "written s' = written s @ concat em"
proof -
  note c = stream_step_cases [OF assms, THEN conjunct2, THEN conjunct2, THEN conjunct2, rule_format, OF refl]
  then obtain em where "held_through step a pending key key' em" "written s' = written s @ concat em"
    by blast
  moreover from c have "n = min (length buf) (length (remaining rd (snd s)))" "r_ino rd' = r_ino rd"
    "remaining rd' (snd s) = drop n (remaining rd (snd s))" "length buf' = length buf" "take n buf' = take n (remaining rd (snd s))"
    by blast+
  ultimately show thesis by (rule that [rotated 5])
qed

lemma remaining_writes:
  "writes s s' \<Longrightarrow> r_ino rd \<noteq> w_ino (fst s) \<Longrightarrow> remaining rd (snd s') = remaining rd (snd s)"
  by (auto simp: remaining_def writes_def touches_def only_node_def node_bytes_def)

lemma stream_loop_failed:
  assumes "stream_step step os a rd buf pending key s = (Err e, s1)"
  shows "stream_loop step final os a sz rd buf pending key s = Some (Err e, s1) \<and>
    stream_result os s (run_stream step final a key (held pending @ xs) m) (Err e) s1"
proof
  show "stream_loop step final os a sz rd buf pending key s = Some (Err e, s1)"
    by (subst stream_loop.simps) (simp add: assms)
  show "stream_result os s (run_stream step final a key (held pending @ xs) m) (Err e) s1"
    using stream_step_cases [OF assms] by (auto simp: stream_result_def held_def)
qed

text \<open>One turn of the loop: the last one, when less than a chunk is left, and one that goes on.\<close>

lemma stream_loop_last:
  assumes "stream_step step os a rd buf pending key s = (Ok (n, rd1, buf1, key1), s1)"
    and "length rest < sz" "remaining rd (snd s) = rest" "length buf = sz"
  shows "\<exists>r s'. stream_loop step final os a sz rd buf pending key s = Some (r, s') \<and>
    stream_result os s (run_stream step final a key (held pending @ full_parts sz rest) (last_part sz rest)) r s'"
proof -
  obtain em where n: "n = min (length buf) (length (remaining rd (snd s)))"
    "take n buf1 = take n (remaining rd (snd s))"
    and em: "held_through step a pending key key1 em" and wr: "written s1 = written s @ concat em"
    using stream_step_Ok [OF assms(1)] .
  have len: "n < sz" "take n buf1 = rest" using n assms(2-4) by simp_all
  obtain r2 s2 where wl: "write_last final os a rest key1 s1 = (r2, s2)" by (metis surj_pair)
  have "stream_result os s1 (run_stream step final a key1 [] rest) r2 s2"
    using write_last_cases [OF wl] by (auto simp: stream_result_def)
  then have "stream_result os s
      (run_stream step final a key (held pending @ full_parts sz rest) (last_part sz rest)) r2 s2"
    unfolding parts_short [OF assms(2)]
    by (rule stream_result_prefix [OF stream_step_writes [OF assms(1)] wr run_stream_held [OF em]])
  then show ?thesis
    using assms(1) len wl by (subst stream_loop.simps) simp
qed

lemma stream_loop_next:
  fixes s :: "writer \<times> 'r world"
  assumes st: "stream_step step os a rd buf pending key s = (Ok (n, rd1, buf1, key1), s1)"
    and "0 < sz" "sz \<le> length rest" "remaining rd (snd s) = rest" "length buf = sz" "r_ino rd \<noteq> w_ino (fst s)"
    and IH: "\<And>rd buf pending key (s :: writer \<times> 'r world). remaining rd (snd s) = drop sz rest \<Longrightarrow> length buf = sz \<Longrightarrow>
      r_ino rd \<noteq> w_ino (fst s) \<Longrightarrow>
      \<exists>r s'. stream_loop step final os a sz rd buf pending key s = Some (r, s') \<and>
        stream_result os s (run_stream step final a key (held pending @ full_parts sz (drop sz rest))
          (last_part sz (drop sz rest))) r s'"
  shows "\<exists>r s'. stream_loop step final os a sz rd buf pending key s = Some (r, s') \<and>
    stream_result os s (run_stream step final a key (held pending @ full_parts sz rest) (last_part sz rest)) r s'"
proof -
  have le: "min sz (length (remaining rd (snd s))) = sz" using assms(3,4) by simp
  obtain em where n: "n = sz" "r_ino rd1 = r_ino rd" "length buf1 = sz"
    "take n buf1 = take n (remaining rd (snd s))" "remaining rd1 (snd s) = drop n (remaining rd (snd s))"
    and em: "held_through step a pending key key1 em" and wr: "written s1 = written s @ concat em"
    using stream_step_Ok [OF st] unfolding le assms(5) .
  have w: "writes s s1" using st by (rule stream_step_writes)
  then have ino: "r_ino rd1 \<noteq> w_ino (fst s)" "r_ino rd1 \<noteq> w_ino (fst s1)"
    using n(2) assms(6) by (simp_all add: writes_def)
  then have "remaining rd1 (snd s1) = drop sz rest"
    using remaining_writes [OF w ino(1)] n(1,5) assms(4) by simp
  from IH [OF this n(3) ino(2), of "Some (take sz rest)" key1]
  obtain r2 s2 where loop: "stream_loop step final os a sz rd1 buf1 (Some (take sz rest)) key1 s1 = Some (r2, s2)"
    and res: "stream_result os s1 (run_stream step final a key1 (full_parts sz rest) (last_part sz rest)) r2 s2"
    by (auto simp: parts_long [OF assms(2,3)] held_def)
  have "stream_result os s
      (run_stream step final a key (held pending @ full_parts sz rest) (last_part sz rest)) r2 s2"
    by (rule stream_result_prefix [OF w wr run_stream_held [OF em] res])
  then show ?thesis
    using st n loop assms(4) by (subst stream_loop.simps) simp
qed

text \<open>
  The loop returns, and does to the rest of the input what the reference does to its full parts
  and its last part.
\<close>

lemma stream_loop_spec:
  assumes "0 < sz"
  shows "remaining rd (snd s) = rest \<Longrightarrow> length buf = sz \<Longrightarrow> r_ino rd \<noteq> w_ino (fst s) \<Longrightarrow>
    \<exists>r s'. stream_loop step final os a sz rd buf pending key s = Some (r, s') \<and>
      stream_result os s (run_stream step final a key (held pending @ full_parts sz rest) (last_part sz rest)) r s'"
  using assms
proof (induction rest arbitrary: rd buf pending key s rule: parts_induct)
  case (short rest)
  obtain r1 s1 where st: "stream_step step os a rd buf pending key s = (r1, s1)" by (metis surj_pair)
  show ?case
  proof (cases r1)
    case (Ok x)
    obtain n rd1 buf1 key1 where x: "x = (n, rd1, buf1, key1)" by (cases x) auto
    show ?thesis
      by (rule stream_loop_last [OF st [unfolded Ok x] short.hyps short.prems(1,2)])
  next
    case (Err e)
    show ?thesis using stream_loop_failed [OF st [unfolded Err]] by blast
  qed (use stream_step_cases [OF st] in blast)
next
  case (long rest)
  obtain r1 s1 where st: "stream_step step os a rd buf pending key s = (r1, s1)" by (metis surj_pair)
  show ?case
  proof (cases r1)
    case (Ok x)
    obtain n rd1 buf1 key1 where x: "x = (n, rd1, buf1, key1)" by (cases x) auto
    show ?thesis
      by (rule stream_loop_next [OF st [unfolded Ok x] assms long.hyps long.prems long.IH])
  next
    case (Err e)
    show ?thesis using stream_loop_failed [OF st [unfolded Err]] by blast
  qed (use stream_step_cases [OF st] in blast)
qed

subsection \<open>Encrypting a file\<close>

lemma io_bind_st: "io_bind (io_st m) f s = (case m s of (r, s') \<Rightarrow>
    (case r of Ok x \<Rightarrow> f x s' | Err e \<Rightarrow> Some (Err e, s') | Panic \<Rightarrow> Some (Panic, s')))"
  by (simp add: io_bind_def io_st_def)

text \<open>What is written after the output is opened, against the reference body.\<close>

lemma encrypt_stream_spec:
  assumes "r_ino rd \<noteq> w_ino (fst s)" "remaining rd (snd s) = pt" "written s = []"
  obtains r s' where "encrypt_stream A os a dk np w rd s = Some (r, s')" "writes s s'" "r \<noteq> Panic"
    "r = Ok () \<Longrightarrow> w_buf (fst s') = [] \<and> body_result (write_header [] w np) (seal_segments A a
       (enc_from_aead A dk np) (full_parts CHUNK_SIZE pt) (last_part CHUNK_SIZE pt)) = Ok (written s')"
    "\<And>e. r = Err e \<Longrightarrow> e = Io \<and> \<not> os_ok os \<or> e = Aead \<and> seal_segments A a
       (enc_from_aead A dk np) (full_parts CHUNK_SIZE pt) (last_part CHUNK_SIZE pt) = None"
proof -
  let ?run = "seal_segments A a (enc_from_aead A dk np) (full_parts CHUNK_SIZE pt) (last_part CHUNK_SIZE pt)"
  obtain r1 s1 where h: "write_all os (write_header [] w np) s = (r1, s1)" by (metis surj_pair)
  note hc = write_all_cases [OF h]
  have rd1: "remaining rd (snd s1) = pt" "r_ino rd \<noteq> w_ino (fst s1)"
    using remaining_writes [OF hc(1) assms(1)] assms(1,2) hc(1) by (simp_all add: writes_def)
  obtain r2 s2 where loop: "stream_loop (enc_next A) (enc_last A) os a CHUNK_SIZE rd (replicate CHUNK_SIZE 0) None
      (enc_from_aead A dk np) s1 = Some (r2, s2)"
    and res: "stream_result os s1 ?run r2 s2"
    using stream_loop_spec [OF CHUNK_SIZE_pos rd1(1) length_replicate [of _ 0] rd1(2), where pending = None and a = a
        and os = os and step = "enc_next A" and final = "enc_last A" and key = "enc_from_aead A dk np"]
    by (auto simp: held_def seal_segments_run)
  obtain r3 s3 where f: "flush os s2 = (r3, s3)" by (metis surj_pair)
  note fc = flush_cases [OF f]
  have w: "writes s s2" "writes s s3"
    using wrt.rel_trans [OF hc(1), of s2] wrt.rel_trans [OF _ fc(1), of s] res by (auto simp: stream_result_def)
  from hc(2) res consider "r1 = Err ()" | e where "r1 = Ok ()" "r2 = Err e" | "r1 = Ok ()" "r2 = Ok ()"
    by (cases r1; cases r2) (auto simp: stream_result_def)
  then show thesis
  proof cases
    case 1
    then have "encrypt_stream A os a dk np w rd s = Some (Err Io, s1)"
      by (simp add: encrypt_stream_def io_bind_def io_st_def st_map_err_apply h)
    then show thesis by (rule that) (use 1 hc in auto)
  next
    case (2 e)
    then have "encrypt_stream A os a dk np w rd s = Some (Err e, s2)"
      by (simp add: encrypt_stream_def io_bind_def io_st_def st_map_err_apply h loop)
    then show thesis by (rule that) (use 2 w(1) res in \<open>auto simp: stream_result_def\<close>)
  next
    case 3
    with res obtain outs where o: "?run = Some outs" "written s2 = written s1 @ concat outs"
      by (auto simp: stream_result_def)
    have "encrypt_stream A os a dk np w rd s = Some (map_err (\<lambda>_. Io) r3, s3)"
      using 3 by (simp add: encrypt_stream_def io_bind_def io_st_def st_map_err_apply h loop f)
    then show thesis
      by (rule that) (use 3 o fc hc(4) assms(3) w(2) in \<open>cases r3; auto simp: body_result_def\<close>)+
  qed
qed

text \<open>From the moment both files are open, with the writer dropped at the end.\<close>

lemma encrypt_opened:
  assumes wf: "wf_disk (disk w)" and pt: "read_path (disk w) input = Some pt"
    and ns: "\<not> same_file (disk w) input output"
    and rd: "entries (disk w) input = Some (r_ino rd)" "r_pos rd = 0" "r_buf rd = []"
    and cr: "file_create os output w = (Ok wr, w1)"
  obtains r s' where "encrypt_stream A os a dk np wk rd (wr, w1) = Some (r, s')" "r \<noteq> Panic"
    "r = Ok () \<Longrightarrow> body_result (write_header [] wk np) (seal_segments A a
       (enc_from_aead A dk np) (full_parts CHUNK_SIZE pt) (last_part CHUNK_SIZE pt)) =
         Ok (contents (node (disk (drop_writer os s')) (w_ino wr)))"
    "\<And>e. r = Err e \<Longrightarrow> e = Io \<and> \<not> os_ok os \<or> e = Aead \<and> seal_segments A a
       (enc_from_aead A dk np) (full_parts CHUNK_SIZE pt) (last_part CHUNK_SIZE pt) = None"
    "touches (w_ino wr) w1 (drop_writer os s')"
proof -
  note c = file_create_Ok [OF cr]
  have "r_ino rd \<noteq> w_ino wr"
    by (rule file_create_other_node [OF cr wf rd(1) ns])
  moreover have "remaining rd w1 = pt"
    using pt rd c(4) [of "r_ino rd"] calculation by (simp add: read_path_def remaining_def node_bytes_def)
  moreover have "written (wr, w1) = []"
    using c(1,3) by (simp add: written_def)
  ultimately obtain r s' where e: "encrypt_stream A os a dk np wk rd (wr, w1) = Some (r, s')"
    "writes (wr, w1) s'" "r \<noteq> Panic"
    "r = Ok () \<Longrightarrow> w_buf (fst s') = [] \<and> body_result (write_header [] wk np) (seal_segments A a
       (enc_from_aead A dk np) (full_parts CHUNK_SIZE pt) (last_part CHUNK_SIZE pt)) = Ok (written s')"
    "\<And>e. r = Err e \<Longrightarrow> e = Io \<and> \<not> os_ok os \<or> e = Aead \<and> seal_segments A a
       (enc_from_aead A dk np) (full_parts CHUNK_SIZE pt) (last_part CHUNK_SIZE pt) = None"
    using encrypt_stream_spec [of rd "(wr, w1)" pt A os a dk np wk] by auto
  have ino: "w_ino (fst s') = w_ino wr" using e(2) by (simp add: writes_def)
  have "touches (w_ino wr) w1 (snd s')" using e(2) by (simp add: writes_def)
  from tch.rel_trans [OF this drop_writer_touches [of s' os, unfolded ino]]
  have t: "touches (w_ino wr) w1 (drop_writer os s')" .
  have "contents (node (disk (drop_writer os s')) (w_ino wr)) = written s'" if "r = Ok ()"
    using e(4) [OF that] by (simp add: drop_writer_flushed written_def ino)
  with e(4) show thesis
    by (intro that [OF e(1,3) _ e(5) t]) auto
qed

lemma encrypt_file_eq:
  assumes "new_blob_keys A R wk i (rng_state w) = (k, g)"
    and op: "file_open os input (w\<lparr> rng_state := g \<rparr>) = (r1, w1)"
    and cr: "file_create os output w1 = (r2, w2)"
  shows "encrypt_file_chunked A R os input output wk i w =
    (case k of Ok (a, dk, np, wrapped) \<Rightarrow>
      (case r1 of Ok rd \<Rightarrow>
        (case r2 of Ok wr \<Rightarrow>
           map_option (\<lambda>(r, s). (r, drop_writer os s)) (encrypt_stream A os a dk np wrapped rd (wr, w2))
         | Err _ \<Rightarrow> Some (Err Io, w2) | Panic \<Rightarrow> Some (Panic, w2))
       | Err _ \<Rightarrow> Some (Err Io, w1) | Panic \<Rightarrow> Some (Panic, w1))
    | Err e \<Rightarrow> Some (Err e, w\<lparr> rng_state := g \<rparr>) | Panic \<Rightarrow> Some (Panic, w\<lparr> rng_state := g \<rparr>))"
proof -
  have "with_rng (new_blob_keys A R wk i) w = (k, w\<lparr> rng_state := g \<rparr>)"
    by (simp add: with_rng_def assms(1))
  then show ?thesis
    by (simp add: encrypt_file_chunked_def io_bind_st st_map_err_apply op cr split: outcome.split prod.split)
qed

text \<open>The whole operation. Its random draws are those of \<open>encrypt_chunked\<close>.\<close>

text \<open>The outcome of a file encryption against the in-memory encoder.\<close>

definition encrypt_outcome ::
  "os \<Rightarrow> path \<Rightarrow> bytes Result \<times> 'r \<Rightarrow> 'r world \<Rightarrow> unit Result \<Rightarrow> 'r world \<Rightarrow> bool" where
  "encrypt_outcome os output enc w r w' \<longleftrightarrow> r \<noteq> Panic \<and> rng_state w' = snd enc \<and>
     (r = Ok () \<longrightarrow> (\<exists>framed. fst enc = Ok framed \<and> read_path (disk w') output = Some framed)) \<and>
     (\<forall>e. r = Err e \<longrightarrow> e = Io \<and> \<not> os_ok os \<or> fst enc = Err e) \<and>
     (\<forall>q. q \<noteq> output \<longrightarrow> \<not> same_file (disk w) q output \<longrightarrow> read_path (disk w') q = read_path (disk w) q) \<and>
     wf_disk (disk w')"

lemma encrypt_refused:
  assumes "wf_disk (disk w)" "disk w' = disk w" "rng_state w' = snd enc" "e = Io \<and> \<not> os_ok os \<or> fst enc = Err e"
  shows "encrypt_outcome os output enc w (Err e) w'"
  using assms by (simp add: encrypt_outcome_def)

lemma encrypt_streamed:
  assumes wf: "wf_disk (disk w)" and pt: "read_path (disk w) input = Some pt"
    and ns: "\<not> same_file (disk w) input output"
    and keys: "new_blob_keys A R wk i (rng_state w) = (Ok (a, dk, np, wp), g)"
    and op: "file_open os input (w\<lparr> rng_state := g \<rparr>) = (Ok rd, w1)"
    and cr: "file_create os output w1 = (Ok wr, w2)"
  obtains r w' where "encrypt_file_chunked A R os input output wk i w = Some (r, w')"
    "encrypt_outcome os output (encrypt_chunked A R pt wk i (rng_state w)) w r w'"
proof -
  note oc = file_open_cases [OF op]
  have d1: "disk w1 = disk w" "rng_state w1 = g" using oc(1,2) by (simp_all add: quiet_def)
  have ro: "entries (disk w1) input = Some (r_ino rd)" "r_pos rd = 0" "r_buf rd = []"
    using oc(4) d1 by auto
  obtain r s' where e: "encrypt_stream A os a dk np wp rd (wr, w2) = Some (r, s')" "r \<noteq> Panic"
    "r = Ok () \<Longrightarrow> body_result (write_header [] wp np) (seal_segments A a
       (enc_from_aead A dk np) (full_parts CHUNK_SIZE pt) (last_part CHUNK_SIZE pt)) =
         Ok (contents (node (disk (drop_writer os s')) (w_ino wr)))"
    "\<And>e. r = Err e \<Longrightarrow> e = Io \<and> \<not> os_ok os \<or> e = Aead \<and> seal_segments A a
       (enc_from_aead A dk np) (full_parts CHUNK_SIZE pt) (last_part CHUNK_SIZE pt) = None"
    "touches (w_ino wr) w2 (drop_writer os s')"
    using encrypt_opened [OF _ _ _ ro cr, of pt A a dk np wp] wf pt ns unfolding d1 by blast
  note after = create_then_write [OF cr e(5), unfolded d1, OF wf]
  have "encrypt_outcome os output (encrypt_chunked A R pt wk i (rng_state w)) w r (drop_writer os s')"
    unfolding encrypt_outcome_def encrypt_chunked_eq [of A R pt wk i "rng_state w", unfolded keys]
    using e(2-4) after by (auto simp: body_result_def)
  moreover have "encrypt_file_chunked A R os input output wk i w = Some (r, drop_writer os s')"
    using encrypt_file_eq [OF keys op cr] e(1) by simp
  ultimately show thesis by (rule that [rotated])
qed

lemma encrypt_runs:
  assumes wf: "wf_disk (disk w)" and pt: "read_path (disk w) input = Some pt"
    and ns: "\<not> same_file (disk w) input output"
  obtains r w' where "encrypt_file_chunked A R os input output wk i w = Some (r, w')"
    "encrypt_outcome os output (encrypt_chunked A R pt wk i (rng_state w)) w r w'"
proof -
  obtain k g where keys: "new_blob_keys A R wk i (rng_state w) = (k, g)" by (metis surj_pair)
  obtain r1 w1 where op: "file_open os input (w\<lparr> rng_state := g \<rparr>) = (r1, w1)" by (metis surj_pair)
  note oc = file_open_cases [OF op]
  obtain r2 w2 where cr: "file_create os output w1 = (r2, w2)" by (metis surj_pair)
  note cc = file_create_cases(1-4) [OF cr]
  have d1: "disk w1 = disk w" "rng_state w1 = g" using oc(1,2) by (simp_all add: quiet_def)
  note run = encrypt_file_eq [OF keys op cr]
  have exists: "entries (disk w) input \<noteq> None" using pt by (auto simp: read_path_def)
  note enc = encrypt_chunked_eq [of A R pt wk i "rng_state w", unfolded keys]
  consider e where "k = Err e" | a dk np wp where "k = Ok (a, dk, np, wp)" "r1 = Err ()"
    | a dk np wp rd where "k = Ok (a, dk, np, wp)" "r1 = Ok rd" "r2 = Err ()"
    | a dk np wp rd wr where "k = Ok (a, dk, np, wp)" "r1 = Ok rd" "r2 = Ok wr"
    using new_blob_keys_errors(3) [of A R wk i "rng_state w" g] keys oc(3) cc(1)
    by (cases k; cases r1; cases r2) auto
  then show thesis
  proof cases
    case (1 e)
    then show thesis
      by (intro that [of "Err e" "w\<lparr> rng_state := g \<rparr>"] encrypt_refused [OF wf]) (simp_all add: run enc)
  next
    case 2
    moreover have "\<not> os_ok os" using 2 oc(5) exists by auto
    ultimately show thesis
      by (intro that [of "Err Io" w1] encrypt_refused [OF wf]) (use enc d1 in \<open>simp_all add: run\<close>)
  next
    case 3
    moreover have "\<not> os_ok os" using 3 cc(3) by auto
    moreover have "disk w2 = disk w" "rng_state w2 = g" using 3 cc(2,4) d1 by (auto simp: quiet_def)
    ultimately show thesis
      by (intro that [of "Err Io" w2] encrypt_refused [OF wf]) (use enc in \<open>simp_all add: run\<close>)
  next
    case 4
    show thesis
      by (rule encrypt_streamed [OF wf pt ns keys [unfolded 4(1)] op [unfolded 4(2)] cr [unfolded 4(3)]]) (rule that)
  qed
qed

lemma encrypt_file_spec:
  assumes "wf_disk (disk w)" "read_path (disk w) input = Some pt" "\<not> same_file (disk w) input output"
  obtains r w' where "encrypt_file_chunked A R os input output wk i w = Some (r, w')" "r \<noteq> Panic"
    "rng_state w' = snd (encrypt_chunked A R pt wk i (rng_state w))"
    "r = Ok () \<Longrightarrow> \<exists>framed. fst (encrypt_chunked A R pt wk i (rng_state w)) = Ok framed \<and>
       read_path (disk w') output = Some framed"
    "\<And>e. r = Err e \<Longrightarrow> e = Io \<and> \<not> os_ok os \<or> fst (encrypt_chunked A R pt wk i (rng_state w)) = Err e"
    "\<And>q. q \<noteq> output \<Longrightarrow> \<not> same_file (disk w) q output \<Longrightarrow> read_path (disk w') q = read_path (disk w) q"
    "wf_disk (disk w')"
proof (rule encrypt_runs [OF assms])
  fix r w'
  assume "encrypt_file_chunked A R os input output wk i w = Some (r, w')"
    and "encrypt_outcome os output (encrypt_chunked A R pt wk i (rng_state w)) w r w'"
  then show thesis by (intro that [of r w']) (simp_all add: encrypt_outcome_def)
qed

end
