(* ===== verification/Filum_Decrypt_File.thy ===== *)
theory Filum_Decrypt_File
  imports Filum_Blob_File
begin

text \<open>
  What \<open>decrypt_file_chunked\<close> does to the file system: the temporary file, the publication by rename, the
  cleanup, and the states a crash can leave behind.
\<close>

subsection \<open>Changes beside the files of the caller\<close>

text \<open>
  Two file systems with the same names except \<open>tmp\<close> and the same nodes below \<open>n\<close>; a run that stays
  there at every moment.
\<close>

definition beside :: "path \<Rightarrow> nat \<Rightarrow> disk \<Rightarrow> disk \<Rightarrow> bool" where
  "beside tmp n d d' \<longleftrightarrow> (\<forall>q. q \<noteq> tmp \<longrightarrow> entries d' q = entries d q) \<and> (\<forall>j < n. node d' j = node d j)"

definition aside :: "path \<Rightarrow> nat \<Rightarrow> 'r world \<Rightarrow> 'r world \<Rightarrow> bool" where
  "aside tmp n w w' \<longleftrightarrow>
     beside tmp n (disk w) (disk w') \<and> (\<exists>ds. hist w' = hist w @ ds \<and> (\<forall>d \<in> set ds. beside tmp n (disk w) d))"

lemma beside_refl: "beside tmp n d d"
  by (simp add: beside_def)

lemma beside_trans: "beside tmp n d e \<Longrightarrow> beside tmp n e f \<Longrightarrow> beside tmp n d f"
  by (simp add: beside_def)

interpretation asd: run_relation "aside tmp n"
proof
  show "aside tmp n s s" for s :: "'a world"
    by (auto simp: aside_def beside_refl)
  fix s t u :: "'a world"
  assume st: "aside tmp n s t" and tu: "aside tmp n t u"
  from st obtain ds where ds: "hist t = hist s @ ds" "\<forall>d \<in> set ds. beside tmp n (disk s) d"
    by (auto simp: aside_def)
  from tu obtain es where es: "hist u = hist t @ es" "\<forall>d \<in> set es. beside tmp n (disk t) d"
    by (auto simp: aside_def)
  have "\<forall>d \<in> set (ds @ es). beside tmp n (disk s) d"
    using ds(2) es(2) st by (auto simp: aside_def intro: beside_trans)
  moreover have "hist u = hist s @ (ds @ es)" using ds(1) es(1) by simp
  ultimately show "aside tmp n s u"
    using st tu unfolding aside_def by (metis beside_trans)
qed

lemma aside_quiet: "quiet w w' \<Longrightarrow> aside tmp n w w'"
  by (simp add: aside_def quiet_def beside_refl)

lemma aside_touches: "touches i w w' \<Longrightarrow> n \<le> i \<Longrightarrow> aside tmp n w w'"
  by (auto simp: aside_def touches_def only_node_def beside_def)

lemma aside_create:
  assumes "file_create os tmp w = (r, w')" "entries (disk w) tmp = None" "n \<le> next_ino (disk w)"
  shows "aside tmp n w w'"
proof (cases r)
  case (Ok wr)
  then show ?thesis
    using file_create_cases(5) [OF assms(1,2)] assms(3) by (auto simp: aside_def beside_def disk_with_new_def)
qed (use file_create_cases(1,4) [OF assms(1)] aside_quiet in auto)

lemma aside_remove: "aside tmp n w (snd (remove_file os tmp w))"
  using remove_file_cases(2) [of os tmp w "fst (remove_file os tmp w)" "snd (remove_file os tmp w)"]
  by (auto simp: quiet_def aside_def beside_def)

lemma read_path_beside:
  assumes "beside tmp (next_ino d) d d'" "wf_disk d" "q \<noteq> tmp"
  shows "read_path d' q = read_path d q"
  using assms by (cases "entries d q") (auto simp: beside_def read_path_def wf_disk_def)

subsection \<open>Up to the temporary file\<close>

lemma read_exact_cases:
  assumes "read_exact os rd buf w = (r, w')"
  shows "quiet w w'" "rng_state w' = rng_state w" "r \<noteq> Panic"
    "r = Ok (rd', bs) \<Longrightarrow> length buf \<le> length (remaining rd w) \<and> r_ino rd' = r_ino rd \<and>
       remaining rd' w = drop (length buf) (remaining rd w) \<and> bs = take (length buf) (remaining rd w)"
    "r = Err e \<Longrightarrow> e = Io \<and> (\<not> os_ok os \<or> length (remaining rd w) < length buf)"
proof -
  obtain r1 w1 where rf: "read_full os rd buf 0 w = (r1, w1)" by (metis surj_pair)
  note rc = read_full_cases [OF rf]
  have len: "n < length buf \<longrightarrow> length (remaining rd w) < length buf"
    "\<not> n < length buf \<longrightarrow> length buf \<le> length (remaining rd w) \<and> r_ino rd1 = r_ino rd \<and>
       remaining rd1 w = drop (length buf) (remaining rd w) \<and> buf1 = take (length buf) (remaining rd w)"
    if "r1 = Ok (n, rd1, buf1)" for n rd1 buf1
    using rc(5) [OF that] by (auto simp: min_def split: if_splits)
  show "quiet w w'" "rng_state w' = rng_state w" "r \<noteq> Panic"
    using assms rc(1-3) by (cases r1; auto simp: read_exact_def st_bind_def rf split: if_splits)+
  show "length buf \<le> length (remaining rd w) \<and> r_ino rd' = r_ino rd \<and>
       remaining rd' w = drop (length buf) (remaining rd w) \<and> bs = take (length buf) (remaining rd w)" if "r = Ok (rd', bs)"
    using assms len(2) that by (cases r1) (auto simp: read_exact_def st_bind_def rf split: if_splits)
  show "e = Io \<and> (\<not> os_ok os \<or> length (remaining rd w) < length buf)" if "r = Err e"
    using assms len(1) that rc(4) by (cases r1) (auto simp: read_exact_def st_bind_def rf split: if_splits)
qed
text \<open>
  The opening against the file's bytes: on success the header is the one \<open>decrypt_chunked\<close> would
  accept, and the reader stands behind it.
\<close>

lemma decrypt_open_eq:
  assumes "valid_context i" and op: "file_open os input w = (r1, w1)"
  shows "decrypt_open A os input wk i w =
    (case r1 of Ok rd \<Rightarrow>
       (case read_exact os rd (replicate 72 0) w1 of
          (Ok (rd2, h), w2) \<Rightarrow>
            (res_bind (index h 0) (\<lambda>version.
             if version \<noteq> VERSION then Err Aead
             else res_bind (open_header A h wk i) (\<lambda>(np, dk, cs).
               Ok (seg_aad_bytes i, rd2, dec_from_aead A dk np, cs + 16))), w2)
        | (Err e, w2) \<Rightarrow> (Err e, w2)
        | (Panic, w2) \<Rightarrow> (Panic, w2))
     | Err _ \<Rightarrow> (Err Io, w1) | Panic \<Rightarrow> (Panic, w1))"
  by (simp add: decrypt_open_def blob_segment_aad_eq assms(1) seg_aad_bytes_def [symmetric] st_bind_def
      st_map_err_apply op split: outcome.split prod.split)

text \<open>A reader that has delivered the first \<open>n\<close> bytes of a node.\<close>

definition stands_behind :: "nat \<Rightarrow> disk \<Rightarrow> nat \<Rightarrow> reader \<Rightarrow> bool" where
  "stands_behind n d ino rd \<longleftrightarrow>
     r_ino rd = ino \<and> r_buf rd @ drop (r_pos rd) (contents (node d ino)) = drop n (contents (node d ino))"

definition opened ::
  "('e, 'd) aead_lib \<Rightarrow> disk \<Rightarrow> path \<Rightarrow> bytes \<Rightarrow> string \<Rightarrow> bytes \<times> reader \<times> 'd \<times> nat \<Rightarrow> bool" where
  "opened A d input wk i x \<longleftrightarrow>
     (\<exists>ino np dk rd.
        entries d input = Some ino \<and> valid_context i \<and>
        72 \<le> length (contents (node d ino)) \<and> hd (contents (node d ino)) = VERSION \<and>
        open_header A (contents (node d ino)) wk i = Ok (np, dk, CHUNK_SIZE) \<and>
        stands_behind 72 d ino rd \<and>
        x = (seg_aad_bytes i, rd, dec_from_aead A dk np, CHUNK_SIZE + 16))"

lemma open_header_cases:
  assumes "72 \<le> length h" "valid_context i"
  shows "open_header A h wk i \<noteq> Panic" "open_header A h wk i = Err e \<Longrightarrow> e = Aead"
    "open_header A h wk i = Ok (np, dk, cs) \<Longrightarrow> cs = CHUNK_SIZE"
  using assms
  by (auto simp: open_header_eq unwrap_data_key_eq res_bind_eq_Ok res_bind_eq_Err res_bind_eq_Panic
      split: if_splits option.splits)

lemma parsed_header_cases:
  assumes "entries d input = Some ino" "h = contents (node d ino)" "72 \<le> length h" "valid_context i"
    and rd: "stands_behind 72 d ino rd" and r: "r = (if hd h \<noteq> VERSION then Err Aead
      else res_bind (open_header A h wk i) (\<lambda>(np, dk, cs).
        Ok (seg_aad_bytes i, rd, dec_from_aead A dk np, cs + 16)))"
  shows "r \<noteq> Panic" "r = Ok x \<Longrightarrow> opened A d input wk i x" "r = Err e \<Longrightarrow> decrypt_chunked A h wk i = Err e"
proof -
  note hc = open_header_cases [OF assms(3,4), of A wk]
  show "r \<noteq> Panic" using hc(1) by (cases "open_header A h wk i") (auto simp: r)
  show "opened A d input wk i x" if "r = Ok x"
  proof -
    from that obtain np dk cs where o: "hd h = VERSION" "open_header A h wk i = Ok (np, dk, cs)"
      "x = (seg_aad_bytes i, rd, dec_from_aead A dk np, cs + 16)"
      by (auto simp: r res_bind_eq_Ok split: if_splits)
    then show ?thesis
      using hc(3) [OF o(2)] assms(1-4) rd by (auto simp: opened_def)
  qed
  show "decrypt_chunked A h wk i = Err e" if "r = Err e"
    using that assms(3) hc(2)
    by (cases "open_header A h wk i") (auto simp: r decrypt_chunked_eq [OF assms(4)] split: if_splits)
qed

text \<open>The outcome of opening a blob file, for the disk it was opened on.\<close>

definition open_outcome ::
  "('e, 'd) aead_lib \<Rightarrow> os \<Rightarrow> disk \<Rightarrow> path \<Rightarrow> bytes \<Rightarrow> string \<Rightarrow> (bytes \<times> reader \<times> 'd \<times> nat) Result \<Rightarrow> bool" where
  "open_outcome A os d input wk i r \<longleftrightarrow> r \<noteq> Panic \<and> (\<forall>x. r = Ok x \<longrightarrow> opened A d input wk i x) \<and>
     (\<forall>e data. r = Err e \<longrightarrow> read_path d input = Some data \<longrightarrow> os_ok os \<longrightarrow>
       (if valid_context i \<and> length data < 72 then e = Io else decrypt_chunked A data wk i = Err e))"

lemma header_read:
  assumes i: "valid_context i" and op: "file_open os input w = (Ok rd, w1)"
    and re: "read_exact os rd (replicate 72 0) w1 = (Ok y, w2)" and run: "decrypt_open A os input wk i w = (r, w')"
  shows "open_outcome A os (disk w) input wk i r"
proof -
  note rc = read_exact_cases [OF re] and oc = file_open_cases [OF op] and rd = file_open_remaining [OF op]
  define data where "data = contents (node (disk w) (r_ino rd))"
  have rem: "remaining rd w1 = data" using rd(2) remaining_quiet [OF oc(1)] by (simp add: data_def)
  obtain rd2 where y: "y = (rd2, take 72 data)" "72 \<le> length data" "stands_behind 72 (disk w) (r_ino rd) rd2"
    using rc(4) [of "fst y" "snd y"] oc(1) unfolding rem data_def
    by (cases y) (auto simp: stands_behind_def remaining_def node_bytes_def quiet_def)
  have idx: "(index (take 72 data) 0 :: u8 Result) = Ok (hd data)"
    using y(2) by (cases data) (simp_all add: index_def)
  have res: "r = (if hd data \<noteq> VERSION then Err Aead
      else res_bind (open_header A data wk i) (\<lambda>(np, dk, cs).
        Ok (seg_aad_bytes i, rd2, dec_from_aead A dk np, cs + 16)))"
    using run re idx unfolding decrypt_open_eq [OF i op, of A wk] y(1)
    by (auto simp: open_header_take [OF y(2) i])
  have "read_path (disk w) input = Some data" by (simp add: read_path_def rd data_def)
  then show ?thesis
    using parsed_header_cases [OF rd(1) data_def y(2) i y(3) res] y(2) by (auto simp: open_outcome_def)
qed

lemma decrypt_open_outcome:
  assumes run: "decrypt_open A os input wk i w = (r, w')"
  shows "quiet w w' \<and> rng_state w' = rng_state w \<and> open_outcome A os (disk w) input wk i r"
proof (cases "valid_context i")
  case False
  then show ?thesis
    using run by (auto simp: open_outcome_def decrypt_open_def blob_segment_aad_eq decrypt_chunked_errors(1) qt.rel_refl)
next
  case True
  obtain r1 w1 where op: "file_open os input w = (r1, w1)" by (metis surj_pair)
  note oc = file_open_cases [OF op] and eq = decrypt_open_eq [OF True op, of A wk]
  show ?thesis
  proof (cases r1)
    case (Ok rd)
    obtain r2 w2 where re: "read_exact os rd (replicate 72 0) w1 = (r2, w2)" by (metis surj_pair)
    note rc = read_exact_cases [OF re]
    note rd = file_open_remaining [OF op [unfolded Ok]]
    have rem: "remaining rd w1 = contents (node (disk w) (r_ino rd))"
      using rd(2) remaining_quiet [OF oc(1)] by simp
    have q: "quiet w w2" "rng_state w2 = rng_state w" "w' = w2"
      using oc(1,2) rc(1,2) run Ok re unfolding eq by (auto simp: quiet_def split: outcome.splits prod.splits)
    show ?thesis
    proof (cases r2)
      case 2: (Ok y)
      show ?thesis using header_read [OF True op [unfolded Ok] re [unfolded 2] run] q by simp
    qed (use run \<open>r1 = _\<close> re rc(3,5) rem q rd(1) True in \<open>auto simp: open_outcome_def eq read_path_def\<close>)
  qed (use run oc in \<open>auto simp: open_outcome_def eq read_path_def\<close>)
qed

lemma decrypt_open_cases:
  assumes "decrypt_open A os input wk i w = (r, w')"
  shows "quiet w w'" "rng_state w' = rng_state w" "r \<noteq> Panic"
    "r = Ok x \<Longrightarrow> opened A (disk w) input wk i x"
    "r = Err e \<Longrightarrow> read_path (disk w) input = Some data \<Longrightarrow> os_ok os \<Longrightarrow>
       (if valid_context i \<and> length data < 72 then e = Io else decrypt_chunked A data wk i = Err e)"
  using decrypt_open_outcome [OF assms] unfolding open_outcome_def by blast+

subsection \<open>The temporary file\<close>

text \<open>The outcome of the streaming loop on a body: what the file decoder takes the body to say.\<close>

definition stream_body :: "('e, 'd) aead_lib \<Rightarrow> bytes \<Rightarrow> 'd \<Rightarrow> bytes \<Rightarrow> bytes option" where
  "stream_body A a dec body =
     open_segments A a dec (full_parts (CHUNK_SIZE + 16) body @ [last_part (CHUNK_SIZE + 16) body])"

lemma decrypt_stream_spec:
  assumes "r_ino rd \<noteq> w_ino (fst s)" "remaining rd (snd s) = body" "written s = []"
  obtains r s' where "decrypt_stream A os a rd dec (CHUNK_SIZE + 16) s = Some (r, s')" "writes s s'" "r \<noteq> Panic"
    "r = Ok () \<Longrightarrow> w_buf (fst s') = [] \<and> stream_body A a dec body = Some (written s') \<and>
       synced_mark (node (disk (snd s')) (w_ino (fst s')))"
    "\<And>e. r = Err e \<Longrightarrow> e = Io \<and> \<not> os_ok os \<or> e = Aead \<and> stream_body A a dec body = None"
proof -
  let ?n = "CHUNK_SIZE + 16"
  obtain r1 s1 where loop: "stream_loop (dec_next A) (dec_last A) os a ?n rd (replicate ?n 0) None dec s = Some (r1, s1)"
    and res: "stream_result os s (run_stream (dec_next A) (dec_last A) a dec (full_parts ?n body) (last_part ?n body)) r1 s1"
    using stream_loop_spec [OF _ assms(2) length_replicate [of ?n 0] assms(1), where pending = None and a = a
        and os = os and step = "dec_next A" and final = "dec_last A" and key = dec]
    by (auto simp: held_def)
  have body: "stream_body A a dec body = map_option concat
      (run_stream (dec_next A) (dec_last A) a dec (full_parts ?n body) (last_part ?n body))"
    by (simp add: stream_body_def open_segments_run)
  obtain r2 s2 where f: "flush os s1 = (r2, s2)" by (metis surj_pair)
  note fc = flush_cases [OF f]
  obtain r3 s3 where sy: "sync_all os s2 = (r3, s3)" by (metis surj_pair)
  note sc = sync_all_cases [OF sy]
  have w: "writes s s1" "writes s s2" "writes s s3"
    using wrt.rel_trans [OF _ fc(1), of s] wrt.rel_trans [OF wrt.rel_trans [OF _ fc(1)] sc(1), of s] res
    by (auto simp: stream_result_def)
  from res fc(2) consider e where "r1 = Err e" | "r1 = Ok ()" "r2 = Err ()" | "r1 = Ok ()" "r2 = Ok ()"
    by (cases r1; cases r2) (auto simp: stream_result_def)
  then show thesis
  proof cases
    case (1 e)
    then have "decrypt_stream A os a rd dec ?n s = Some (Err e, s1)"
      by (simp add: decrypt_stream_def io_bind_def loop)
    then show thesis by (rule that) (use 1 w res body in \<open>auto simp: stream_result_def\<close>)
  next
    case 2
    then have "decrypt_stream A os a rd dec ?n s = Some (Err Io, s2)"
      by (simp add: decrypt_stream_def io_bind_def io_st_def st_map_err_apply loop f)
    then show thesis by (rule that) (use 2 w fc in auto)
  next
    case 3
    then have "decrypt_stream A os a rd dec ?n s = Some (map_err (\<lambda>_. Io) r3, s3)"
      by (simp add: decrypt_stream_def io_bind_def io_st_def st_map_err_apply loop f sy)
    then show thesis
      by (rule that) (use 3 w fc sc res body assms(3) in \<open>cases r3; auto simp: stream_result_def\<close>)+
  qed
qed

text \<open>The state just before the rename: the temporary file holds the plaintext, on stable storage.\<close>

definition staged :: "path \<Rightarrow> bytes \<Rightarrow> 'r world \<Rightarrow> nat \<Rightarrow> 'r world \<Rightarrow> bool" where
  "staged tmp pt w j w3 \<longleftrightarrow>
     aside tmp (next_ino (disk w)) w w3 \<and> next_ino (disk w) \<le> j \<and> entries (disk w3) tmp = Some j \<and>
     node (disk w3) j = \<lparr> contents = pt, synced_mark = True \<rparr>"

lemma stage_spec:
  assumes free: "entries (disk w) tmp = None" and rd: "r_ino rd < next_ino (disk w)" "remaining rd w = body"
    and wf: "wf_disk (disk w)" and cr: "file_create os tmp w = (Ok wr, w1)"
  obtains r s' where "decrypt_stream A os a rd dec (CHUNK_SIZE + 16) (wr, w1) = Some (r, s')" "r \<noteq> Panic"
    "aside tmp (next_ino (disk w)) w (drop_writer os s')"
    "entries (disk (drop_writer os s')) tmp = Some (next_ino (disk w))"
    "wf_disk (disk (drop_writer os s'))" "rng_state (drop_writer os s') = rng_state w"
    "\<And>e. r = Err e \<Longrightarrow> e = Io \<and> \<not> os_ok os \<or> e = Aead \<and> stream_body A a dec body = None"
    "r = Ok () \<Longrightarrow> \<exists>pt. stream_body A a dec body = Some pt \<and> staged tmp pt w (next_ino (disk w)) (drop_writer os s')"
proof -
  let ?n = "next_ino (disk w)"
  note co = file_create_Ok [OF cr]
  have ino: "w_ino wr = ?n" using co(5) free by simp
  have "r_ino rd \<noteq> w_ino wr" "remaining rd w1 = body" "written (wr, w1) = []"
    using rd co(1,3) co(4) [of "r_ino rd"] ino by (simp_all add: remaining_def node_bytes_def written_def)
  then obtain r s' where st: "decrypt_stream A os a rd dec (CHUNK_SIZE + 16) (wr, w1) = Some (r, s')"
    "writes (wr, w1) s'" "r \<noteq> Panic"
    "r = Ok () \<Longrightarrow> w_buf (fst s') = [] \<and> stream_body A a dec body = Some (written s') \<and>
       synced_mark (node (disk (snd s')) (w_ino (fst s')))"
    "\<And>e. r = Err e \<Longrightarrow> e = Io \<and> \<not> os_ok os \<or> e = Aead \<and> stream_body A a dec body = None"
    using decrypt_stream_spec [of rd "(wr, w1)" body A os a dec] by auto
  have w: "touches ?n w1 (snd s')" "w_ino (fst s') = ?n" using st(2) ino by (simp_all add: writes_def)
  then have t: "touches ?n w1 (drop_writer os s')"
    using tch.rel_trans drop_writer_touches [of s' os] by metis
  have as: "aside tmp ?n w (drop_writer os s')"
    by (rule asd.rel_trans [OF aside_create [OF cr free order.refl] aside_touches [OF t order.refl]])
  have en: "entries (disk (drop_writer os s')) tmp = Some ?n"
    using t co(2) ino by (simp add: touches_def only_node_def)
  have "staged tmp (written s') w ?n (drop_writer os s')" if "r = Ok ()"
    using st(4) [OF that] w(2) as en
    by (cases "node (disk (snd s')) ?n") (simp add: staged_def drop_writer_flushed written_def)
  with st(4) show thesis
    by (intro that [OF st(1,3) as en create_then_write(3,4) [OF cr t [folded ino] wf] st(5)]) auto
qed

text \<open>The outcome of writing, and renaming, the temporary file.\<close>

definition publish_outcome ::
  "os \<Rightarrow> path \<Rightarrow> path \<Rightarrow> bytes option \<Rightarrow> 'r world \<Rightarrow> unit Result \<Rightarrow> 'r world \<Rightarrow> bool" where
  "publish_outcome os tmp output body w r w' \<longleftrightarrow> r \<noteq> Panic \<and> rng_state w' = rng_state w \<and> wf_disk (disk w') \<and>
     (\<forall>e. r = Err e \<longrightarrow> aside tmp (next_ino (disk w)) w w' \<and> (e = Io \<and> \<not> os_ok os \<or> e = Aead \<and> body = None)) \<and>
     (r = Ok () \<longrightarrow> (\<exists>pt j w3. body = Some pt \<and> staged tmp pt w j w3 \<and>
       disk w' = (disk w3)\<lparr> entries := (entries (disk w3))(tmp := None, output \<mapsto> j) \<rparr> \<and>
       hist w' = hist w3 @ [disk w']))"

lemma publish_staged:
  assumes free: "entries (disk w) tmp = None" and rd: "r_ino rd < next_ino (disk w)" "remaining rd w = body"
    and wf: "wf_disk (disk w)" and cr: "file_create os tmp w = (Ok wr, w1)"
  obtains r w' where "decrypt_publish A os tmp output a rd dec (CHUNK_SIZE + 16) w = Some (r, w')"
    "publish_outcome os tmp output (stream_body A a dec body) w r w'"
proof (rule stage_spec [OF free rd wf cr, of A a dec])
  let ?n = "next_ino (disk w)"
  fix r s'
  assume st: "decrypt_stream A os a rd dec (CHUNK_SIZE + 16) (wr, w1) = Some (r, s')" "r \<noteq> Panic"
    and as: "aside tmp ?n w (drop_writer os s')" and en: "entries (disk (drop_writer os s')) tmp = Some ?n"
    and wf3: "wf_disk (disk (drop_writer os s'))" and rng: "rng_state (drop_writer os s') = rng_state w"
    and err: "\<And>e. r = Err e \<Longrightarrow> e = Io \<and> \<not> os_ok os \<or> e = Aead \<and> stream_body A a dec body = None"
    and ok: "r = Ok () \<Longrightarrow> \<exists>pt. stream_body A a dec body = Some pt \<and> staged tmp pt w ?n (drop_writer os s')"
  obtain r4 w4 where rn: "rename os tmp output (drop_writer os s') = (r4, w4)" by (metis surj_pair)
  note rc = rename_cases [OF rn]
    and eqs = decrypt_publish_def io_bind_def io_st_def st_map_err_apply cr st(1) rn
  from st(2) consider e where "r = Err e" | "r = Ok ()" "r4 = Err ()" | "r = Ok ()" "r4 = Ok ()"
    using rc(1) by (cases r; cases r4) auto
  then show thesis
  proof cases
    case (1 e)
    show thesis
      by (rule that [of "Err e" "drop_writer os s'"])
        (use 1 err as wf3 rng in \<open>simp_all add: publish_outcome_def eqs\<close>)
  next
    case 2
    then have "quiet (drop_writer os s') w4" "\<not> os_ok os" using rc(3) rc(4) [OF en] by auto
    then show thesis
      by (intro that [of "Err Io" w4])
        (use 2 asd.rel_trans [OF as aside_quiet] rc(2) wf3 rng in \<open>auto simp: publish_outcome_def eqs quiet_def\<close>)
  next
    case 3
    show thesis
      by (rule that [of "Ok ()" w4])
        (use ok 3 rc(2) rc(5) [OF en] wf_disk_renamed [OF wf3 en] rng in \<open>auto simp: publish_outcome_def eqs\<close>)
  qed
qed

lemma decrypt_publish_spec:
  assumes free: "entries (disk w) tmp = None" and rd: "r_ino rd < next_ino (disk w)" "remaining rd w = body"
    and wf: "wf_disk (disk w)"
  obtains r w' where "decrypt_publish A os tmp output a rd dec (CHUNK_SIZE + 16) w = Some (r, w')" "r \<noteq> Panic"
    "rng_state w' = rng_state w" "wf_disk (disk w')"
    "\<And>e. r = Err e \<Longrightarrow> aside tmp (next_ino (disk w)) w w' \<and>
       (e = Io \<and> \<not> os_ok os \<or> e = Aead \<and> stream_body A a dec body = None)"
    "r = Ok () \<Longrightarrow> \<exists>pt j w3. stream_body A a dec body = Some pt \<and> staged tmp pt w j w3 \<and>
       disk w' = (disk w3)\<lparr> entries := (entries (disk w3))(tmp := None, output \<mapsto> j) \<rparr> \<and>
       hist w' = hist w3 @ [disk w']"
proof -
  obtain r1 w1 where cr: "file_create os tmp w = (r1, w1)" by (metis surj_pair)
  note cc = file_create_cases(1-4) [OF cr] and a1 = aside_create [OF cr free order.refl]
  obtain r w' where run: "decrypt_publish A os tmp output a rd dec (CHUNK_SIZE + 16) w = Some (r, w')"
    and out: "publish_outcome os tmp output (stream_body A a dec body) w r w'"
  proof (cases r1)
    case (Ok wr)
    show thesis by (rule publish_staged [OF free rd wf cr [unfolded Ok]]) (rule that)
  next
    case (Err u)
    show thesis
      by (rule that [of "Err Io" w1])
        (use Err cc a1 wf in \<open>auto simp: publish_outcome_def decrypt_publish_def io_bind_st st_map_err_apply cr quiet_def\<close>)
  qed (use cc(1) in simp)
  then show thesis using that [OF run] unfolding publish_outcome_def by blast
qed

subsection \<open>Temporary names\<close>

text \<open>The names \<open>sibling_temp_path\<close> can produce for an output.\<close>

definition temp_name :: "path \<Rightarrow> path \<Rightarrow> bool" where
  "temp_name output p \<longleftrightarrow>
     (\<exists>name n. file_name output = Some name \<and> p = with_file_name output (name @ ''.'' @ hex16 n @ ''.part''))"

text \<open>The name the next call will produce is not in use.\<close>

definition temp_free :: "'r rng \<Rightarrow> path \<Rightarrow> 'r world \<Rightarrow> bool" where
  "temp_free R output w \<longleftrightarrow>
     (\<forall>p. fst (sibling_temp_path R output (rng_state w)) = Ok p \<longrightarrow> entries (disk w) p = None)"

lemma sibling_temp_path_cases:
  assumes "sibling_temp_path R output g = (r, g')"
  shows "r \<noteq> Panic" "r = Ok p \<Longrightarrow> temp_name output p"
    "r = Err e \<Longrightarrow> e = Randomness \<and> \<not> rng_available R \<or> e = Io \<and> file_name output = None"
proof -
  obtain r1 g1 where f: "fill_random R (replicate 8 0) g = (r1, g1)" by (metis surj_pair)
  show "r \<noteq> Panic" "r = Ok p \<Longrightarrow> temp_name output p"
    using assms f fill_random_not_Panic [of R "replicate 8 0" g g1]
    by (cases r1; auto simp: sibling_temp_path_def st_bind_def temp_name_def res_bind_eq_Ok res_bind_eq_Panic)+
  show "e = Randomness \<and> \<not> rng_available R \<or> e = Io \<and> file_name output = None" if "r = Err e"
    using assms f that fill_random_Err [of R "replicate 8 0" g _ g1] fill_random_available [of R "replicate 8 0" g]
    by (cases r1) (auto simp: sibling_temp_path_def st_bind_def res_bind_eq_Err)
qed

lemma temp_suffix_proper:
  assumes "proper_name name"
  shows "proper_name (name @ ''.'' @ hex16 n @ ''.part'')"
  using assms hex16_no_slash [of n] by (auto simp: proper_name_def)

lemma temp_path_eq:
  assumes "wf_path output" "file_name output = Some name"
  shows "with_file_name output (name @ ''.'' @ hex16 n @ ''.part'') =
    butlast output @ [Normal (name @ ''.'' @ hex16 n @ ''.part'')]"
  using assms by (intro with_file_name_proper temp_suffix_proper file_name_proper)

lemma temp_name_sibling:
  assumes "wf_path output" "temp_name output p"
  shows "p \<noteq> output" "butlast p = butlast output"
proof -
  from assms obtain name n where name: "file_name output = Some name"
    and p: "p = butlast output @ [Normal (name @ ''.'' @ hex16 n @ ''.part'')]"
    unfolding temp_name_def using temp_path_eq [OF assms(1)] by metis
  show "butlast p = butlast output" by (simp add: p)
  have "last output = Normal name" using name by (simp add: file_name_Some)
  moreover have "last p \<noteq> Normal name" by (simp add: p)
  ultimately show "p \<noteq> output" by metis
qed

subsection \<open>The two decoders\<close>

lemma stream_body_chunks:
  assumes "\<not> (CHUNK_SIZE + 16) dvd length body"
  shows "stream_body A a dec body = open_segments A a dec (chunks (CHUNK_SIZE + 16) body)"
  using assms chunks_parts [of "CHUNK_SIZE + 16" body] by (simp add: stream_body_def)

lemma stream_body_aligned:
  assumes "stream_min16 A" "(CHUNK_SIZE + 16) dvd length body"
  shows "stream_body A a dec body = None"
proof -
  have "last_part (CHUNK_SIZE + 16) body = []"
    using assms(2) length_last_part [of "CHUNK_SIZE + 16" body] by (simp add: mod_eq_0_iff_dvd)
  moreover have "run_stream (dec_next A) (dec_last A) a d xs [] = None" for d xs
    using assms(1) by (induction xs arbitrary: d) (auto simp: stream_min16_def split: option.split)
  ultimately show ?thesis by (simp add: stream_body_def open_segments_run)
qed

lemma both_decoders:
  assumes "stream_min16 A"
  shows "stream_body A a dec (drop 72 data) =
    (if (CHUNK_SIZE + 16) dvd (length data - 72) then None
     else open_segments A a dec (chunks (CHUNK_SIZE + 16) (drop 72 data)))"
  using stream_body_aligned [OF assms, of "drop 72 data"] stream_body_chunks [of "drop 72 data" A] by auto

lemma decrypt_chunked_opened:
  assumes "opened A d input wk i (a, rd, dec, n)" "entries d input = Some ino"
  shows "decrypt_chunked A (contents (node d ino)) wk i =
      ok_or Aead (open_segments A a dec (chunks (CHUNK_SIZE + 16) (drop 72 (contents (node d ino)))))"
    "stands_behind 72 d ino rd" "n = CHUNK_SIZE + 16" "72 \<le> length (contents (node d ino))"
  using assms by (auto simp: opened_def decrypt_chunked_eq)

subsection \<open>The whole operation\<close>

lemma decrypt_file_eq:
  assumes "decrypt_open A os input wk i w = (r1, w1)"
    and "sibling_temp_path R output (rng_state w1) = (r2, g)"
  shows "decrypt_file_chunked A R os input output wk i w =
    (case r1 of Ok (a, fin, dec, n) \<Rightarrow>
      (case r2 of Ok tmp \<Rightarrow>
         map_option (\<lambda>(r, w3). (r, drop_cleanup os \<lparr> cleanup_path = tmp, armed = (r \<noteq> Ok ()) \<rparr> w3))
           (decrypt_publish A os tmp output a fin dec n (w1\<lparr> rng_state := g \<rparr>))
       | Err e \<Rightarrow> Some (Err e, w1\<lparr> rng_state := g \<rparr>) | Panic \<Rightarrow> Some (Panic, w1\<lparr> rng_state := g \<rparr>))
    | Err e \<Rightarrow> Some (Err e, w1) | Panic \<Rightarrow> Some (Panic, w1))"
proof -
  have "with_rng (sibling_temp_path R output) w1 = (r2, w1\<lparr> rng_state := g \<rparr>)"
    by (simp add: with_rng_def assms(2))
  then show ?thesis
    by (simp add: decrypt_file_chunked_def io_bind_st assms(1) split: outcome.split prod.split)
qed

text \<open>What a failed run leaves, and what a successful run did.\<close>

definition left_aside :: "os \<Rightarrow> path \<Rightarrow> 'r world \<Rightarrow> 'r world \<Rightarrow> bool" where
  "left_aside os output w w' \<longleftrightarrow>
     quiet w w' \<or>
     (\<exists>tmp. temp_name output tmp \<and> entries (disk w) tmp = None \<and> aside tmp (next_ino (disk w)) w w' \<and>
        (os_ok os \<longrightarrow> entries (disk w') tmp = None))"

definition published :: "path \<Rightarrow> bytes \<Rightarrow> 'r world \<Rightarrow> 'r world \<Rightarrow> bool" where
  "published output pt w w' \<longleftrightarrow>
     (\<exists>tmp j w3. temp_name output tmp \<and> entries (disk w) tmp = None \<and> staged tmp pt w j w3 \<and>
        disk w' = (disk w3)\<lparr> entries := (entries (disk w3))(tmp := None, output \<mapsto> j) \<rparr> \<and>
        hist w' = hist w3 @ [disk w'])"

lemma drop_cleanup_armed:
  assumes "drop_cleanup os \<lparr> cleanup_path = tmp, armed = True \<rparr> w = w'"
  shows "aside tmp n w w'" "os_ok os \<Longrightarrow> entries (disk w') tmp = None" "wf_disk (disk w) \<Longrightarrow> wf_disk (disk w')"
proof -
  obtain r where rm: "remove_file os tmp w = (r, w')"
    using assms by (metis (mono_tags) TempCleanup.select_convs drop_cleanup_def prod.collapse)
  show "aside tmp n w w'" using aside_remove [of tmp n w os] rm by simp
  show "os_ok os \<Longrightarrow> entries (disk w') tmp = None" using remove_file_cases(3) [OF rm] by simp
  show "wf_disk (disk w) \<Longrightarrow> wf_disk (disk w')"
    using remove_file_cases(2) [OF rm] wf_disk_removed [of "disk w" tmp] by (auto simp: quiet_def)
qed

lemma same_files_cong:
  assumes "quiet w u"
  shows "left_aside os output u w' = left_aside os output w w'" "published output pt u w' = published output pt w w'"
  using assms by (simp_all add: left_aside_def published_def staged_def aside_def quiet_def)

lemma publish_with_cleanup:
  assumes free: "entries (disk w) tmp = None" and tmp: "temp_name output tmp"
    and rd: "r_ino rd < next_ino (disk w)" "remaining rd w = body" and wf: "wf_disk (disk w)"
  obtains r w' where
    "map_option (\<lambda>(r, w3). (r, drop_cleanup os \<lparr> cleanup_path = tmp, armed = (r \<noteq> Ok ()) \<rparr> w3))
       (decrypt_publish A os tmp output a rd dec (CHUNK_SIZE + 16) w) = Some (r, w')" "r \<noteq> Panic" "wf_disk (disk w')"
    "\<And>e. r = Err e \<Longrightarrow> left_aside os output w w' \<and>
       (e = Io \<and> \<not> os_ok os \<or> e = Aead \<and> stream_body A a dec body = None)"
    "r = Ok () \<Longrightarrow> \<exists>pt. stream_body A a dec body = Some pt \<and> published output pt w w'"
proof (rule decrypt_publish_spec [OF free rd wf, of A os "output" a dec])
  fix r w4
  assume p: "decrypt_publish A os tmp output a rd dec (CHUNK_SIZE + 16) w = Some (r, w4)" "r \<noteq> Panic"
    "rng_state w4 = rng_state w" "wf_disk (disk w4)"
    "\<And>e. r = Err e \<Longrightarrow> aside tmp (next_ino (disk w)) w w4 \<and>
       (e = Io \<and> \<not> os_ok os \<or> e = Aead \<and> stream_body A a dec body = None)"
    "r = Ok () \<Longrightarrow> \<exists>pt j w3. stream_body A a dec body = Some pt \<and> staged tmp pt w j w3 \<and>
       disk w4 = (disk w3)\<lparr> entries := (entries (disk w3))(tmp := None, output \<mapsto> j) \<rparr> \<and>
       hist w4 = hist w3 @ [disk w4]"
  show thesis
  proof (cases r)
    case Panic
    with p(2) show thesis by simp
  next
    case (Ok u)
    then show thesis
      by (intro that [of r w4]) (use p(1,4,6) tmp free in \<open>auto simp: drop_cleanup_def published_def\<close>)
  next
    case (Err e)
    define w' where "w' = drop_cleanup os \<lparr> cleanup_path = tmp, armed = True \<rparr> w4"
    note dc = drop_cleanup_armed [OF w'_def [symmetric]]
    have "aside tmp (next_ino (disk w)) w w'"
      using asd.rel_trans [OF _ dc(1)] p(5) [OF Err] by blast
    then have "left_aside os output w w'" using dc(2) tmp free by (auto simp: left_aside_def)
    with Err show thesis
      by (intro that [of r w']) (use p(1,5) dc(3) [OF p(4)] in \<open>auto simp: w'_def\<close>)
  qed
qed

text \<open>From the moment the header is accepted.\<close>

lemma decrypt_file_opened:
  assumes wf: "wf_disk (disk w)" and tmp: "temp_name output tmp" "entries (disk w) tmp = None"
    and m16: "stream_min16 A" and opd: "opened A (disk w) input wk i (a, rd, dec, n)" and q: "quiet w w2"
  obtains r w' where
    "map_option (\<lambda>(r, w3). (r, drop_cleanup os \<lparr> cleanup_path = tmp, armed = (r \<noteq> Ok ()) \<rparr> w3))
       (decrypt_publish A os tmp output a rd dec n w2) = Some (r, w')" "r \<noteq> Panic" "wf_disk (disk w')"
    "\<And>e. r = Err e \<Longrightarrow> left_aside os output w w'"
    "r = Ok () \<Longrightarrow> \<exists>data pt. read_path (disk w) input = Some data \<and> decrypt_chunked A data wk i = Ok pt \<and>
       \<not> (CHUNK_SIZE + 16) dvd (length data - 72) \<and> published output pt w w'"
    "\<And>e data. r = Err e \<Longrightarrow> os_ok os \<Longrightarrow> read_path (disk w) input = Some data \<Longrightarrow> 72 \<le> length data \<and>
       (decrypt_chunked A data wk i = Err e \<or> (CHUNK_SIZE + 16) dvd (length data - 72) \<and> e = Aead)"
proof -
  obtain ino where ino: "entries (disk w) input = Some ino" using opd by (auto simp: opened_def)
  define data where "data = contents (node (disk w) ino)"
  have data: "read_path (disk w) input = Some data" by (simp add: read_path_def ino data_def)
  note od = decrypt_chunked_opened [OF opd ino, folded data_def]
  have pre: "entries (disk w2) tmp = None" "r_ino rd < next_ino (disk w2)" "wf_disk (disk w2)"
    "remaining rd w2 = drop 72 data"
    using od(2) ino wf tmp(2) q by (auto simp: wf_disk_def remaining_def node_bytes_def data_def quiet_def stands_behind_def)
  show thesis
  proof (rule publish_with_cleanup [OF pre(1) tmp(1) pre(2,4,3), of os A a dec])
    fix r w'
    assume p: "map_option (\<lambda>(r, w3). (r, drop_cleanup os \<lparr> cleanup_path = tmp, armed = (r \<noteq> Ok ()) \<rparr> w3))
       (decrypt_publish A os tmp output a rd dec (CHUNK_SIZE + 16) w2) = Some (r, w')" "r \<noteq> Panic" "wf_disk (disk w')"
      "\<And>e. r = Err e \<Longrightarrow> left_aside os output w2 w' \<and>
         (e = Io \<and> \<not> os_ok os \<or> e = Aead \<and> stream_body A a dec (drop 72 data) = None)"
      "r = Ok () \<Longrightarrow> \<exists>pt. stream_body A a dec (drop 72 data) = Some pt \<and> published output pt w2 w'"
    show thesis
    proof (rule that [OF p(1) [folded od(3)] p(2,3)])
      show "left_aside os output w w'" if "r = Err e" for e
        using p(4) [OF that] same_files_cong(1) [OF q] by blast
    qed (use p(4,5) od(1) data od(4) both_decoders [OF m16, where data = data] same_files_cong(2) [OF q] in
          \<open>auto split: if_splits\<close>)
  qed
qed

lemma decrypt_file_spec:
  assumes wf: "wf_disk (disk w)" and tf: "temp_free R output w" and m16: "stream_min16 A"
  obtains r w' where "decrypt_file_chunked A R os input output wk i w = Some (r, w')" "r \<noteq> Panic" "wf_disk (disk w')"
    "\<And>e. r = Err e \<Longrightarrow> left_aside os output w w'"
    "r = Ok () \<Longrightarrow> \<exists>data pt. read_path (disk w) input = Some data \<and> decrypt_chunked A data wk i = Ok pt \<and>
       \<not> (CHUNK_SIZE + 16) dvd (length data - 72) \<and> published output pt w w'"
    "\<And>e data. r = Err e \<Longrightarrow> os_ok os \<Longrightarrow> read_path (disk w) input = Some data \<Longrightarrow>
       (if valid_context i \<and> length data < 72 then e = Io
        else decrypt_chunked A data wk i = Err e \<or> (CHUNK_SIZE + 16) dvd (length data - 72) \<and> e = Aead) \<or>
       e = Randomness \<and> \<not> rng_available R \<or> e = Io \<and> file_name output = None"
proof -
  obtain r1 w1 where op: "decrypt_open A os input wk i w = (r1, w1)" by (metis surj_pair)
  note oc = decrypt_open_cases [OF op]
  obtain r2 g where st: "sibling_temp_path R output (rng_state w1) = (r2, g)" by (metis surj_pair)
  note sc = sibling_temp_path_cases [OF st] and run = decrypt_file_eq [OF op st]
  have q: "quiet w (w1\<lparr> rng_state := g \<rparr>)" using oc(1) by (simp add: quiet_def)
  consider e where "r1 = Err e" | x e where "r1 = Ok x" "r2 = Err e"
    | a rd dec n tmp where "r1 = Ok (a, rd, dec, n)" "r2 = Ok tmp"
    using oc(3) sc(1) by (cases r1; cases r2) auto
  then show thesis
  proof cases
    case (1 e)
    then have "decrypt_file_chunked A R os input output wk i w = Some (Err e, w1)" by (simp add: run)
    then show thesis
      by (rule that) (use 1 oc(1) oc(5) [of e] wf in \<open>auto simp: left_aside_def quiet_def\<close>)
  next
    case (2 x e)
    then have "decrypt_file_chunked A R os input output wk i w = Some (Err e, w1\<lparr> rng_state := g \<rparr>)"
      by (cases x) (simp add: run)
    then show thesis
      by (rule that) (use 2 sc(3) q wf in \<open>auto simp: left_aside_def quiet_def\<close>)
  next
    case (3 a rd dec n tmp)
    have opd: "opened A (disk w) input wk i (a, rd, dec, n)" using oc(4) 3 by simp
    have tmp: "temp_name output tmp" "entries (disk w) tmp = None"
      using sc(2) 3 tf st oc(2) by (auto simp: temp_free_def)
    show thesis
    proof (rule decrypt_file_opened [OF wf tmp m16 opd q, of os], goal_cases)
      case (1 r w')
      have run3: "decrypt_file_chunked A R os input output wk i w = Some (r, w')" using 1(1) 3 run by simp
      have "(if valid_context i \<and> length data < 72 then e = Io
          else decrypt_chunked A data wk i = Err e \<or> (CHUNK_SIZE + 16) dvd (length data - 72) \<and> e = Aead)"
        if "r = Err e" "os_ok os" "read_path (disk w) input = Some data" for e data
        using 1(6) [OF that] by simp
      then show thesis by (intro that [OF run3 1(2,3,4,5)]) simp_all
    qed
  qed
qed

text \<open>The same for a run at hand.\<close>

lemma decrypt_file_run:
  assumes "wf_disk (disk w)" "temp_free R output w" "stream_min16 A"
    and run: "decrypt_file_chunked A R os input output wk i w = Some (r, w')"
  shows "r \<noteq> Panic" "wf_disk (disk w')" "r = Err e \<Longrightarrow> left_aside os output w w'"
    "r = Ok () \<Longrightarrow> \<exists>data pt. read_path (disk w) input = Some data \<and> decrypt_chunked A data wk i = Ok pt \<and>
       \<not> (CHUNK_SIZE + 16) dvd (length data - 72) \<and> published output pt w w'"
    "r = Err e \<Longrightarrow> os_ok os \<Longrightarrow> read_path (disk w) input = Some data \<Longrightarrow>
       (if valid_context i \<and> length data < 72 then e = Io
        else decrypt_chunked A data wk i = Err e \<or> (CHUNK_SIZE + 16) dvd (length data - 72) \<and> e = Aead) \<or>
       e = Randomness \<and> \<not> rng_available R \<or> e = Io \<and> file_name output = None"
proof -
  have "r \<noteq> Panic \<and> wf_disk (disk w') \<and> (r = Err e \<longrightarrow> left_aside os output w w') \<and>
    (r = Ok () \<longrightarrow> (\<exists>data pt. read_path (disk w) input = Some data \<and> decrypt_chunked A data wk i = Ok pt \<and>
       \<not> (CHUNK_SIZE + 16) dvd (length data - 72) \<and> published output pt w w')) \<and>
    (r = Err e \<longrightarrow> os_ok os \<longrightarrow> read_path (disk w) input = Some data \<longrightarrow>
       (if valid_context i \<and> length data < 72 then e = Io
        else decrypt_chunked A data wk i = Err e \<or> (CHUNK_SIZE + 16) dvd (length data - 72) \<and> e = Aead) \<or>
       e = Randomness \<and> \<not> rng_available R \<or> e = Io \<and> file_name output = None)"
  proof (rule decrypt_file_spec [OF assms(1-3), of os input wk i], goal_cases)
    case (1 r2 w2)
    then have eq: "r2 = r" "w2 = w'" using run by simp_all
    show ?case
      using 1(2,3) 1(4) [of e] 1(5) 1(6) [of e data] unfolding eq by (intro conjI impI) simp_all
  qed
  then show "r \<noteq> Panic" "wf_disk (disk w')" "r = Err e \<Longrightarrow> left_aside os output w w'"
    "r = Ok () \<Longrightarrow> \<exists>data pt. read_path (disk w) input = Some data \<and> decrypt_chunked A data wk i = Ok pt \<and>
       \<not> (CHUNK_SIZE + 16) dvd (length data - 72) \<and> published output pt w w'"
    "r = Err e \<Longrightarrow> os_ok os \<Longrightarrow> read_path (disk w) input = Some data \<Longrightarrow>
       (if valid_context i \<and> length data < 72 then e = Io
        else decrypt_chunked A data wk i = Err e \<or> (CHUNK_SIZE + 16) dvd (length data - 72) \<and> e = Aead) \<or>
       e = Randomness \<and> \<not> rng_available R \<or> e = Io \<and> file_name output = None" by argo+
qed

lemma decrypt_file_returns:
  assumes "wf_disk (disk w)" "temp_free R output w" "stream_min16 A"
  obtains r w' where "decrypt_file_chunked A R os input output wk i w = Some (r, w')"
  by (rule decrypt_file_spec [OF assms, of os input wk i]) (rule that)

text \<open>What the two outcomes mean for the names of the file system.\<close>

definition on_stable_storage :: "disk \<Rightarrow> path \<Rightarrow> bool" where
  "on_stable_storage d p \<longleftrightarrow> (\<exists>j. entries d p = Some j \<and> synced_mark (node d j))"

definition unchanged_but_temp :: "path \<Rightarrow> disk \<Rightarrow> disk \<Rightarrow> bool" where
  "unchanged_but_temp output d d' \<longleftrightarrow> (\<forall>q. \<not> temp_name output q \<longrightarrow> read_path d' q = read_path d q)"

lemma aside_unchanged:
  assumes "aside tmp (next_ino (disk w)) w w'" "wf_disk (disk w)" "temp_name output tmp"
  shows "unchanged_but_temp output (disk w) (disk w')"
    "\<exists>ds. hist w' = hist w @ ds \<and> (\<forall>d \<in> set ds. unchanged_but_temp output (disk w) d)"
proof -
  have un: "unchanged_but_temp output (disk w) d" if "beside tmp (next_ino (disk w)) (disk w) d" for d
    using read_path_beside [OF that assms(2)] assms(3) unfolding unchanged_but_temp_def by metis
  then show "unchanged_but_temp output (disk w) (disk w')" using assms(1) by (simp add: aside_def)
  show "\<exists>ds. hist w' = hist w @ ds \<and> (\<forall>d \<in> set ds. unchanged_but_temp output (disk w) d)"
    using assms(1) un unfolding aside_def by blast
qed

lemma left_aside_effects:
  assumes "left_aside os output w w'" "wf_disk (disk w)"
  shows "unchanged_but_temp output (disk w) (disk w')"
    "os_ok os \<Longrightarrow> read_path (disk w') q = read_path (disk w) q"
    "\<exists>ds. hist w' = hist w @ ds \<and> (\<forall>d \<in> set ds. unchanged_but_temp output (disk w) d)"
proof -
  consider "quiet w w'" | tmp where "temp_name output tmp" "entries (disk w) tmp = None"
      "aside tmp (next_ino (disk w)) w w'" "os_ok os \<longrightarrow> entries (disk w') tmp = None"
    using assms(1) by (auto simp: left_aside_def)
  then have "unchanged_but_temp output (disk w) (disk w') \<and>
    (os_ok os \<longrightarrow> read_path (disk w') q = read_path (disk w) q) \<and>
    (\<exists>ds. hist w' = hist w @ ds \<and> (\<forall>d \<in> set ds. unchanged_but_temp output (disk w) d))"
  proof cases
    case 1
    then show ?thesis by (simp add: quiet_def unchanged_but_temp_def)
  next
    case (2 tmp)
    have "read_path (disk w') q = read_path (disk w) q" if "os_ok os"
    proof (cases "q = tmp")
      case True
      then show ?thesis using 2 that by (simp add: read_path_def)
    next
      case False
      then show ?thesis using 2(3) read_path_beside [OF _ assms(2)] by (auto simp: aside_def)
    qed
    then show ?thesis using aside_unchanged [OF 2(3) assms(2) 2(1)] by blast
  qed
  then show "unchanged_but_temp output (disk w) (disk w')"
    "os_ok os \<Longrightarrow> read_path (disk w') q = read_path (disk w) q"
    "\<exists>ds. hist w' = hist w @ ds \<and> (\<forall>d \<in> set ds. unchanged_but_temp output (disk w) d)" by auto
qed

lemma published_effects:
  assumes "published output pt w w'" "wf_disk (disk w)" "wf_path output"
  shows "read_path (disk w') output = Some pt" "on_stable_storage (disk w') output"
    "q \<noteq> output \<Longrightarrow> read_path (disk w') q = read_path (disk w) q"
    "\<exists>ds. hist w' = hist w @ ds @ [disk w'] \<and> (\<forall>d \<in> set ds. unchanged_but_temp output (disk w) d)"
proof -
  from assms(1) obtain tmp j w3 where t: "temp_name output tmp" "entries (disk w) tmp = None"
    and a: "aside tmp (next_ino (disk w)) w w3" and j: "node (disk w3) j = \<lparr> contents = pt, synced_mark = True \<rparr>"
    and d: "disk w' = (disk w3)\<lparr> entries := (entries (disk w3))(tmp := None, output \<mapsto> j) \<rparr>"
    and h: "hist w' = hist w3 @ [disk w']"
    unfolding published_def staged_def by blast
  show "read_path (disk w') output = Some pt" "on_stable_storage (disk w') output"
    using j by (simp_all add: d read_path_def on_stable_storage_def)
  show "read_path (disk w') q = read_path (disk w) q" if "q \<noteq> output"
  proof (cases "q = tmp")
    case True
    then show ?thesis using t(2) that by (simp add: d read_path_def)
  next
    case False
    then have "read_path (disk w3) q = read_path (disk w) q"
      using a by (intro read_path_beside [OF _ assms(2)]) (auto simp: aside_def)
    then show ?thesis using False that by (simp add: d read_path_def)
  qed
  show "\<exists>ds. hist w' = hist w @ ds @ [disk w'] \<and> (\<forall>d \<in> set ds. unchanged_but_temp output (disk w) d)"
    using aside_unchanged(2) [OF a assms(2) t(1)] h by auto
qed

end
