(* ===== verification/Filum_Blob_Guarantees.thy ===== *)
theory Filum_Blob_Guarantees
  imports Filum_Blob
begin

text \<open>
  What callers of the in-memory codec (\<open>encrypt_chunked\<close>, \<open>decrypt_chunked\<close>) may rely on.
\<close>

subsection \<open>A sample blob\<close>

definition sample_key :: bytes where
  "sample_key = replicate 32 7"

definition sample_blob :: bytes where
  "sample_blob = (case encrypt_chunked ref_aead ref_rng [1, 2, 3] sample_key ''ab'' 0 of
     (Ok framed, _) \<Rightarrow> framed | _ \<Rightarrow> [])"

lemma sample_facts: "length sample_key = 32" "valid_context ''ab''" "valid_context ''ba''"
  by (simp_all add: sample_key_def valid_context_def)

lemma chunk_size_be_value: "chunk_size_be = [0, 16, 0, 0]"
  by (simp add: chunk_size_be_def CHUNK_SIZE_def to_be_bytes_def drop_bit_eq_div) code_simp

lemma ref_lawful: "aead_lawful ref_aead"
  by (simp add: aead_lawful_def ref_aead_laws)

lemma sample_encrypted:
  obtains s where "encrypt_chunked ref_aead ref_rng [1, 2, 3] sample_key ''ab'' 0 = (Ok sample_blob, s)"
proof -
  have small: "length [1, 2, 3 :: u8] < 2 ^ 32 * CHUNK_SIZE" by (simp add: CHUNK_SIZE_def)
  obtain framed s where "encrypt_chunked ref_aead ref_rng [1, 2, 3] sample_key ''ab'' 0 = (Ok framed, s)"
    by (rule encrypt_chunked_succeeds [OF ref_rng_available ref_gcm_laws(4,3) ref_stream_laws(4)
          sample_facts(1,2) small])
  then show thesis using that by (simp add: sample_blob_def)
qed

lemma sample_decrypted: "decrypt_chunked ref_aead sample_blob sample_key ''ab'' = Ok [1, 2, 3]"
  by (rule sample_encrypted) (rule blob_box.roundtrip [OF ref_lawful sample_facts(1)])

lemma sample_unaligned: "\<not> (CHUNK_SIZE + 16) dvd (length sample_blob - 72)"
  by (rule sample_encrypted) (rule encrypt_chunked_unaligned [OF ref_stream_laws(3)])

text \<open>The checksum of the reference cipher does not see the order of bytes, so it accepts \<open>ba\<close> for \<open>ab\<close>.\<close>

lemma ref_aad_sum:
  assumes "sum_list a = sum_list a'"
  shows "ref_gcm_decrypt k n c a = ref_gcm_decrypt k n c a'"
  using assms by (simp add: ref_gcm_decrypt_def ref_tag_def)

lemma open_segments_aad_sum:
  assumes "sum_list a = sum_list a'"
  shows "open_segments ref_aead a d cs = open_segments ref_aead a' d cs"
proof -
  have "ref_dec_next d c a = ref_dec_next d c a'" "ref_dec_last d c a = ref_dec_last d c a'" for d c
    using ref_aad_sum [OF assms] by (cases d; simp)+
  then show ?thesis
    by (induction cs arbitrary: d rule: induct_list012) (auto split: option.split)
qed

lemma sample_swapped: "decrypt_chunked ref_aead sample_blob sample_key ''ba'' = Ok [1, 2, 3]"
proof -
  have "sum_list (seg_aad_bytes ''ab'') = sum_list (seg_aad_bytes ''ba'')"
    "\<And>p. sum_list (wrap_aad_bytes ''ab'' p) = sum_list (wrap_aad_bytes ''ba'' p)"
    by (simp_all add: seg_aad_bytes_def wrap_aad_bytes_def length_prefixed_def as_bytes_def)
  note sums = open_segments_aad_sum [OF this(1)] ref_aad_sum [OF this(2)]
  have un: "unwrap_data_key ref_aead w k (wrap_aad_bytes ''ab'' p) = unwrap_data_key ref_aead w k (wrap_aad_bytes ''ba'' p)"
    for w k p
    by (simp add: unwrap_data_key_eq sums(2))
  have "decrypt_chunked ref_aead sample_blob sample_key ''ab'' = decrypt_chunked ref_aead sample_blob sample_key ''ba''"
    by (simp add: decrypt_chunked_eq sample_facts open_header_eq un sums(1) not_less)
  then show ?thesis using sample_decrypted by simp
qed

subsection \<open>Properties\<close>

text \<open>
  C1: blob round trip. Whatever \<open>encrypt_chunked\<close> returns, for any plaintext, identifier and random draws,
  \<open>decrypt_chunked\<close> turns back into the plaintext under the same key and identifier.
\<close>

theorem blob_decrypts_to_plaintext:
  assumes "gcm_correct A" "stream_correct A" "stream_tag16 A" "length wrapping_key = 32"
    and "encrypt_chunked A R pt wrapping_key blob_id s = (Ok framed, s')"
  shows "decrypt_chunked A framed wrapping_key blob_id = Ok pt"
  by (rule blob_box.roundtrip [OF _ assms(4,5)]) (simp add: aead_lawful_def assms)

theorem blob_decrypts_to_plaintext_witness:
  "decrypt_chunked ref_aead sample_blob sample_key ''ab'' = Ok [1, 2, 3]"
  by (rule sample_encrypted)
    (rule blob_decrypts_to_plaintext [OF ref_gcm_laws(1) ref_stream_laws(1,3) sample_facts(1)])

text \<open>
  C25: blob encryption succeeds. With a working random source and a valid identifier, every plaintext of
  less than \<open>2 ^ 32\<close> chunks (4 PiB, the reach of the 32-bit segment counter) is encrypted.
\<close>

theorem blob_encryption_succeeds:
  assumes "rng_available R" "gcm_total A" "gcm_tag16 A" "stream_total A" "length wrapping_key = 32"
    and "valid_context blob_id" "length pt < 2 ^ 32 * CHUNK_SIZE"
  shows "\<exists>framed s'. encrypt_chunked A R pt wrapping_key blob_id s = (Ok framed, s')"
  using encrypt_chunked_succeeds [OF assms] by blast

theorem blob_encryption_succeeds_witness:
  "\<exists>framed s'. encrypt_chunked ref_aead ref_rng [1, 2, 3] sample_key ''ab'' 0 = (Ok framed, s')"
proof -
  have "length [1, 2, 3 :: u8] < 2 ^ 32 * CHUNK_SIZE" by (simp add: CHUNK_SIZE_def)
  from blob_encryption_succeeds [OF ref_rng_available ref_gcm_laws(4,3) ref_stream_laws(4) sample_facts(1,2) this]
  show ?thesis .
qed

text \<open>
  C34: blob layout. A blob is its 72-byte header (version 2, wrapped key, nonce prefix, chunk size 1 MiB
  big-endian) and one 16-byte tag per segment on top of the plaintext, with one more segment than there
  are full chunks: at exact multiples of the chunk size the last segment is empty.
\<close>

theorem blob_layout:
  assumes "stream_tag16 A" "encrypt_chunked A R pt wrapping_key blob_id s = (Ok framed, s')"
  shows "length framed = 72 + length pt + 16 * (length pt div CHUNK_SIZE + 1) \<and>
    hd framed = 2 \<and> take 4 (drop 68 framed) = [0, 16, 0, 0]"
proof -
  obtain np w cts where "length w = 60" "length np = 7" "framed = write_header [] w np @ concat cts"
  proof (rule encrypt_chunked_Ok [OF assms(2)], goal_cases)
    case (1 dk np iv ct cts)
    then show thesis by (intro 1(1) [of "iv @ ct" np cts]) simp_all
  qed
  then have "hd framed = 2" "take 4 (drop 68 framed) = chunk_size_be"
    by (simp_all add: write_header_def VERSION_def)
  moreover note chunk_size_be_value
  ultimately show ?thesis
    using encrypt_chunked_size [OF assms] mult_div_mod_eq [of CHUNK_SIZE "length pt"]
    by (simp add: algebra_simps)
qed

theorem blob_layout_witness:
  "length sample_blob = 91 \<and> hd sample_blob = 2 \<and> take 4 (drop 68 sample_blob) = [0, 16, 0, 0]"
proof (rule sample_encrypted)
  fix s
  assume "encrypt_chunked ref_aead ref_rng [1, 2, 3] sample_key ''ab'' 0 = (Ok sample_blob, s)"
  from blob_layout [OF ref_stream_laws(3) this] show ?thesis by (simp add: CHUNK_SIZE_def)
qed

text \<open>
  C21: \<open>decrypt_chunked\<close> never panics, on any input bytes. It returns a plaintext or \<open>Aead\<close> for a valid
  identifier, and \<open>InvalidContext\<close> exactly for an invalid one.
\<close>

theorem blob_decryption_total:
  "((\<exists>pt. decrypt_chunked A framed wrapping_key blob_id = Ok pt) \<or>
    decrypt_chunked A framed wrapping_key blob_id =
      Err (if blob_id = [] \<or> 2 ^ 32 \<le> length blob_id then InvalidContext else Aead)) \<and>
   (decrypt_chunked A framed wrapping_key blob_id = Err InvalidContext \<longleftrightarrow>
      blob_id = [] \<or> 2 ^ 32 \<le> length blob_id)"
proof -
  have v: "valid_context blob_id \<longleftrightarrow> \<not> (blob_id = [] \<or> 2 ^ 32 \<le> length blob_id)"
    by (auto simp: valid_context_def)
  show ?thesis
    using blob_box.unseal_cases [of A framed wrapping_key blob_id] v by auto
qed

text \<open>
  Malformed blobs are rejected before any key is used. A blob shorter than its header, of another
  version, with another chunk size, or without a body is refused with \<open>Aead\<close> under every key.
\<close>

theorem malformed_blob_rejected:
  assumes "valid_context blob_id"
    and "length framed \<le> 72 \<or> hd framed \<noteq> 2 \<or> take 4 (drop 68 framed) \<noteq> chunk_size_be"
  shows "decrypt_chunked A framed wrapping_key blob_id = Err Aead"
proof (cases "length framed = 72")
  case True
  then show ?thesis
    using assms
    by (auto simp: decrypt_chunked_eq open_header_eq unwrap_data_key_eq split: option.split if_splits)
next
  case False
  then show ?thesis
    using assms by (auto simp: decrypt_chunked_eq open_header_eq VERSION_def not_less)
qed

theorem malformed_blob_rejected_witness:
  "decrypt_chunked ref_aead (1 # tl sample_blob) sample_key ''ab'' = Err Aead"
  by (rule malformed_blob_rejected [OF sample_facts(2)]) simp

text \<open>
  C3: nothing but sealed blobs is accepted. Every blob that \<open>decrypt_chunked\<close> accepts is, byte for byte,
  the header and the STREAM of some 32-byte data key, 7-byte nonce prefix and 12-byte initialisation
  vector under the same wrapping key and identifier, over messages that concatenate to the plaintext
  returned: all but the last of exactly one chunk, the last of at most one chunk. Unless the last
  segment is full (a blob that \<open>encrypt_chunked\<close> never emits), \<open>encrypt_chunked\<close> itself produces the blob
  from that plaintext when its three random draws are those values. In particular a truncated,
  reordered or extended blob is accepted only if it is such a sealed blob itself.
\<close>

theorem accepted_blob_was_sealed:
  assumes "gcm_exact A" "stream_exact A" "stream_tag16 A" "length wrapping_key = 32"
    and "decrypt_chunked A framed wrapping_key blob_id = Ok pt"
  shows "\<exists>dk np iv xs m. length dk = 32 \<and> length np = 7 \<and> length iv = 12 \<and>
    seal_parts A wrapping_key blob_id dk np iv xs m = Ok framed \<and> pt = concat xs @ m \<and>
    (\<forall>x \<in> set xs. length x = CHUNK_SIZE) \<and> length m \<le> CHUNK_SIZE \<and>
    (if (CHUNK_SIZE + 16) dvd (length framed - 72) then length m = CHUNK_SIZE
     else encrypt_chunked A (replay_rng [dk, np, iv]) pt wrapping_key blob_id 0 = (Ok framed, 3))"
proof (rule decrypt_then_seal [OF assms])
  fix dk np iv xs m
  assume d: "length dk = 32" "length np = 7" "length iv = 12"
    "map_option length (gcm_encrypt A wrapping_key iv dk (wrap_aad_bytes blob_id np)) = Some 48"
    and sealed: "seal_parts A wrapping_key blob_id dk np iv xs m = Ok framed"
    and pt: "pt = concat xs @ m" "\<forall>x \<in> set xs. length x = CHUNK_SIZE" "length m \<le> CHUNK_SIZE"
    and short: "\<not> (CHUNK_SIZE + 16) dvd (length framed - 72) \<Longrightarrow> length m < CHUNK_SIZE"
  have replay: "encrypt_chunked A (replay_rng [dk, np, iv]) pt wrapping_key blob_id 0 = (Ok framed, 3)"
    if "length m < CHUNK_SIZE"
    using encrypt_chunked_replay [OF sealed d pt(2) that] pt(1) by simp
  have "\<not> (CHUNK_SIZE + 16) dvd (length framed - 72)" if "length m < CHUNK_SIZE"
    using encrypt_chunked_unaligned [OF assms(3) replay [OF that]] .
  then have "length m = CHUNK_SIZE" if "(CHUNK_SIZE + 16) dvd (length framed - 72)"
    using that pt(3) by (metis le_neq_implies_less)
  with replay short have last: "if (CHUNK_SIZE + 16) dvd (length framed - 72) then length m = CHUNK_SIZE
      else encrypt_chunked A (replay_rng [dk, np, iv]) pt wrapping_key blob_id 0 = (Ok framed, 3)" by simp
  show ?thesis
    by (intro exI [of _ dk] exI [of _ np] exI [of _ iv] exI [of _ xs] exI [of _ m] conjI d(1-3) sealed pt last)
qed

theorem accepted_blob_was_sealed_witness:
  "\<exists>dk np iv. encrypt_chunked ref_aead (replay_rng [dk, np, iv]) [1, 2, 3] sample_key ''ab'' 0 = (Ok sample_blob, 3)"
  using accepted_blob_was_sealed [OF ref_gcm_laws(2) ref_stream_laws(2,3) sample_facts(1) sample_decrypted]
    sample_unaligned by auto

text \<open>
  C5: the header is bound to the identifier and to itself. Take a sealed blob, and any blob that carries
  the same wrapped key but is presented for another identifier or carries another nonce prefix. It is
  accepted only if AES-GCM accepts the wrapped key under AAD bytes different from those it was made
  with: without a forgery against AES-GCM, a transplanted or header-tampered blob is refused.
\<close>

theorem header_is_bound:
  assumes "encrypt_chunked A R pt wrapping_key blob_id s = (Ok framed, s')"
    and "decrypt_chunked A framed' wrapping_key blob_id' = Ok pt'"
    and "take 60 (drop 1 framed') = take 60 (drop 1 framed)"
    and "blob_id' \<noteq> blob_id \<or> take 7 (drop 61 framed') \<noteq> take 7 (drop 61 framed)"
  shows "\<exists>aad aad' m m'.
    blob_wrap_aad blob_id VERSION (take 7 (drop 61 framed)) chunk_size_be = Ok aad \<and>
    blob_wrap_aad blob_id' VERSION (take 7 (drop 61 framed')) chunk_size_be = Ok aad' \<and> aad' \<noteq> aad \<and>
    gcm_encrypt A wrapping_key (take 12 (drop 1 framed)) m aad = Some (take 48 (drop 13 framed)) \<and>
    gcm_decrypt A wrapping_key (take 12 (drop 1 framed)) (take 48 (drop 13 framed)) aad' = Some m'"
proof -
  have valid: "valid_context blob_id" "valid_context blob_id'"
    using blob_box.seal_ctx_ok [OF assms(1)] blob_box.unseal_ctx_ok [OF assms(2)] .
  have len: "length (take 7 (drop 61 framed)) = 7"
    by (rule encrypt_chunked_Ok [OF assms(1)]) simp
  have len': "length (take 7 (drop 61 framed')) = 7"
    by (rule decrypt_chunked_Ok [OF assms(2)]) simp
  have "length (take 7 (drop 61 framed')) = length (take 7 (drop 61 framed))"
    by (simp only: len len')
  then have "header_aad blob_id' framed' \<noteq> header_aad blob_id framed"
    using wrap_aad_bytes_inject [OF valid(2,1)] assms(4) unfolding header_aad_def by blast
  moreover have "take 12 (take 60 (drop 1 f)) = header_iv f" "drop 12 (take 60 (drop 1 f)) = header_ct f" for f
    by (simp_all add: header_iv_def header_ct_def drop_take min_def)
  then have "header_iv framed' = header_iv framed" "header_ct framed' = header_ct framed"
    using assms(3) by metis+
  moreover note blob_box.sealed_under [OF assms(1)] blob_box.authenticated [OF assms(2)]
  ultimately show ?thesis
    using valid by (auto simp: blob_wrap_aad_eq wrap_aad_bytes_def header_aad_def header_iv_def header_ct_def)
qed

theorem header_is_bound_witness:
  "\<exists>aad aad' m m'.
    blob_wrap_aad ''ab'' VERSION (take 7 (drop 61 sample_blob)) chunk_size_be = Ok aad \<and>
    blob_wrap_aad ''ba'' VERSION (take 7 (drop 61 sample_blob)) chunk_size_be = Ok aad' \<and> aad' \<noteq> aad \<and>
    gcm_encrypt ref_aead sample_key (take 12 (drop 1 sample_blob)) m aad = Some (take 48 (drop 13 sample_blob)) \<and>
    gcm_decrypt ref_aead sample_key (take 12 (drop 1 sample_blob)) (take 48 (drop 13 sample_blob)) aad' = Some m'"
  by (rule sample_encrypted) (rule header_is_bound [OF _ sample_swapped refl], auto)

text \<open>
  An invalid identifier is refused before anything else happens: no randomness is drawn (the state of
  the random source is unchanged). For a valid one the only failures are those of the random source and
  of the cipher, and encryption never panics.
\<close>

theorem blob_encryption_errors:
  "(case encrypt_chunked A R pt wrapping_key blob_id s of
      (Ok _, _) \<Rightarrow> valid_context blob_id
    | (Err e, s') \<Rightarrow> (if valid_context blob_id then e = Randomness \<or> e = Aead else e = InvalidContext \<and> s' = s)
    | (Panic, _) \<Rightarrow> False)"
  using blob_box.seal_invalid [of blob_id A R pt wrapping_key s] blob_box.seal_errors [of blob_id A R pt wrapping_key s]
    blob_box.seal_no_panic [of A R pt wrapping_key blob_id s] blob_box.seal_ctx_ok [of A R pt wrapping_key blob_id s]
  by (auto split: prod.split outcome.split)

text \<open>
  C24: the chunk loop computes the STREAM of the plaintext. The body of a blob is the concatenation of
  \<open>encrypt_next\<close> of each full chunk in order and \<open>encrypt_last\<close> of the remainder, and the chunks put back
  together are the plaintext.
\<close>

theorem encrypt_loop_is_stream:
  assumes "new_blob_keys A R wrapping_key blob_id s = (Ok (aad, dk, np, wrapped), s')"
  shows "encrypt_chunked A R pt wrapping_key blob_id s =
      ((case seal_segments A aad (enc_from_aead A dk np) (full_parts CHUNK_SIZE pt) (last_part CHUNK_SIZE pt) of
          None \<Rightarrow> Err Aead
        | Some cts \<Rightarrow> Ok (write_header [] wrapped np @ concat cts)), s') \<and>
    concat (full_parts CHUNK_SIZE pt) @ last_part CHUNK_SIZE pt = pt \<and>
    map length (full_parts CHUNK_SIZE pt) = replicate (length pt div CHUNK_SIZE) CHUNK_SIZE \<and>
    length (last_part CHUNK_SIZE pt) < CHUNK_SIZE"
proof -
  have "map length (full_parts CHUNK_SIZE pt) = map (\<lambda>_. CHUNK_SIZE) (full_parts CHUNK_SIZE pt)"
    by (rule map_cong) (simp_all add: full_parts_length)
  then have "map length (full_parts CHUNK_SIZE pt) = replicate (length pt div CHUNK_SIZE) CHUNK_SIZE"
    by (simp only: map_replicate_const length_full_parts)
  then show ?thesis
    using assms by (simp add: encrypt_chunked_eq body_result_def concat_parts last_part_short)
qed

theorem encrypt_loop_is_stream_witness:
  "\<exists>aad dk np wrapped s'. new_blob_keys ref_aead ref_rng sample_key ''ab'' 0 = (Ok (aad, dk, np, wrapped), s') \<and>
    length (last_part CHUNK_SIZE [1, 2, 3 :: u8]) < CHUNK_SIZE"
proof (rule new_blob_keys_succeeds [OF ref_rng_available ref_gcm_laws(4,3) sample_facts(1,2), of 0], goal_cases)
  case (1 aad dk np w s')
  then show ?case using encrypt_loop_is_stream [OF 1, of "[1, 2, 3]"] by blast
qed

end
