(* ===== verification/Filum_File_Guarantees.thy ===== *)
theory Filum_File_Guarantees
  imports Filum_Decrypt_File Filum_Blob_Guarantees
begin

text \<open>
  What callers of \<open>encrypt_file_chunked\<close> and \<open>decrypt_file_chunked\<close> may rely on: equivalence with the
  in-memory codec, atomicity of the output under failures and crashes, and the cases in which the two
  decoders differ.
\<close>

subsection \<open>A small file system\<close>

text \<open>
  One file \<open>in\<close> with given bytes, and an environment in which every call succeeds and the file system
  delivers one byte per read.
\<close>

definition calm :: os where
  "calm n = Go 0"

definition in_path :: path where
  "in_path = [RootDir, Normal ''in'']"

definition out_path :: path where
  "out_path = [RootDir, Normal ''out'']"

definition back_path :: path where
  "back_path = [RootDir, Normal ''back'']"

definition one_file :: "bytes \<Rightarrow> nat world" where
  "one_file data =
     \<lparr> rng_state = 0,
       disk = \<lparr> entries = [in_path \<mapsto> 0], node = (\<lambda>_. \<lparr> contents = data, synced_mark = True \<rparr>), next_ino = 1 \<rparr>,
       hist = [], clock = 0 \<rparr>"

lemma calm_ok: "os_ok calm"
  by (simp add: os_ok_def calm_def)

lemma one_file_facts:
  "wf_disk (disk (one_file data))" "read_path (disk (one_file data)) in_path = Some data"
  "read_path (disk (one_file data)) out_path = None" "\<not> same_file (disk (one_file data)) in_path out_path"
  "wf_path out_path" "file_name out_path = Some ''out''" "rng_state (one_file data) = 0" "in_path \<noteq> out_path"
  by (auto simp: one_file_def wf_disk_def read_path_def in_path_def out_path_def same_file_def wf_path_def
      proper_name_def file_name_def)

lemma one_file_temp_free: "temp_free R out_path (one_file data)"
proof -
  have "entries (disk (one_file data)) p = None" if t: "temp_name out_path p" for p
  proof -
    obtain n where "p = butlast out_path @ [Normal (''out'' @ ''.'' @ hex16 n @ ''.part'')]"
      using t temp_path_eq [OF one_file_facts(5,6)] one_file_facts(6) by (auto simp: temp_name_def)
    then show ?thesis by (simp add: one_file_def in_path_def)
  qed
  then show ?thesis
    unfolding temp_free_def by (metis prod.collapse sibling_temp_path_cases(2))
qed

subsection \<open>Runs in a calm environment\<close>

lemma decrypt_file_succeeds:
  assumes "wf_disk (disk w)" "temp_free R output w" "stream_min16 A" "os_ok os" "rng_available R"
    "file_name output \<noteq> None" "read_path (disk w) input = Some data" "decrypt_chunked A data wk i = Ok pt"
    "\<not> (CHUNK_SIZE + 16) dvd (length data - 72)"
  obtains w' where "decrypt_file_chunked A R os input output wk i w = Some (Ok (), w')" "published output pt w w'"
proof -
  obtain r w' where run: "decrypt_file_chunked A R os input output wk i w = Some (r, w')"
    using decrypt_file_returns [OF assms(1-3)] .
  note dr = decrypt_file_run [OF assms(1-3) run]
  have "valid_context i" "72 \<le> length data" by (rule decrypt_chunked_Ok [OF assms(8)], assumption)+
  then have "r \<noteq> Err e" for e
    using dr(5) [of e data] assms(4-9) by auto
  then have r: "r = Ok ()" using dr(1) by (cases r) auto
  with dr(4) assms(7,8) have "published output pt w w'" by auto
  with run r show thesis using that by simp
qed

lemma sample_file_decrypted:
  obtains w' where
    "decrypt_file_chunked ref_aead ref_rng calm in_path out_path sample_key ''ab'' (one_file sample_blob) = Some (Ok (), w')"
    "published out_path [1, 2, 3] (one_file sample_blob) w'"
  by (rule decrypt_file_succeeds [OF one_file_facts(1) one_file_temp_free ref_stream_laws(5) calm_ok
        ref_rng_available _ one_file_facts(2) sample_decrypted sample_unaligned])
     (simp add: one_file_facts(6), rule that)

lemma back_path_facts: "wf_path back_path" "file_name back_path \<noteq> None"
  by (auto simp: back_path_def wf_path_def proper_name_def file_name_def)

lemma sample_file_encrypted:
  assumes "length wk = 32"
  obtains w1 where
    "encrypt_file_chunked ref_aead ref_rng calm in_path out_path wk ''ab'' (one_file [1, 2, 3]) = Some (Ok (), w1)"
    "temp_free ref_rng back_path w1"
proof (rule encrypt_file_spec [OF one_file_facts(1,2,4), of ref_aead ref_rng calm wk "''ab''" "[1, 2, 3]"], goal_cases)
  case (1 r w1)
  have small: "length [1, 2, 3 :: u8] < 2 ^ 32 * CHUNK_SIZE" by (simp add: CHUNK_SIZE_def)
  obtain framed s where "encrypt_chunked ref_aead ref_rng [1, 2, 3] wk ''ab'' 0 = (Ok framed, s)"
    by (rule encrypt_chunked_succeeds [OF ref_rng_available ref_gcm_laws(4,3) ref_stream_laws(4) assms
          sample_facts(2) small])
  then have "r = Ok ()" using 1(3) 1(6) calm_ok by (cases r) (auto simp: one_file_facts(7))
  moreover have "entries (disk w1) p = None" if t: "temp_name back_path p" for p
  proof -
    have "file_name back_path = Some ''back''" by (simp add: back_path_def file_name_def)
    from temp_path_eq [OF back_path_facts(1) this] t this
    obtain n where "p = butlast back_path @ [Normal (''back'' @ ''.'' @ hex16 n @ ''.part'')]"
      by (auto simp: temp_name_def)
    then have "p \<noteq> out_path" "entries (disk (one_file [1, 2, 3])) p = None"
      by (simp_all add: back_path_def out_path_def in_path_def one_file_def)
    then show ?thesis using 1(7) [of p] by (simp add: same_file_def read_path_def)
  qed
  then have "temp_free ref_rng back_path w1"
    unfolding temp_free_def by (metis prod.collapse sibling_temp_path_cases(2))
  ultimately show thesis using 1(1) [of w1] 1(2) by simp
qed

subsection \<open>Encrypting a file\<close>

text \<open>
  C4: the file encoder and the in-memory encoder are one codec. If no call fails and the output is not the
  input file itself, \<open>encrypt_file_chunked\<close> returns, and it succeeds or fails exactly as \<open>encrypt_chunked\<close> does
  on the file's bytes with the same random draws; on success the output holds exactly the same blob,
  whatever sizes the reads returned.
\<close>

theorem encrypt_file_is_encrypt_chunked:
  assumes "os_ok os" "wf_disk (disk w)" "read_path (disk w) input = Some pt" "\<not> same_file (disk w) input output"
  shows "\<exists>w'. encrypt_file_chunked A R os input output wk i w =
      Some (case fst (encrypt_chunked A R pt wk i (rng_state w)) of Ok _ \<Rightarrow> Ok () | Err e \<Rightarrow> Err e | Panic \<Rightarrow> Panic, w') \<and>
    rng_state w' = snd (encrypt_chunked A R pt wk i (rng_state w)) \<and>
    (\<forall>framed. fst (encrypt_chunked A R pt wk i (rng_state w)) = Ok framed \<longrightarrow> read_path (disk w') output = Some framed)"
proof (rule encrypt_file_spec [OF assms(2-4), of A R os wk i], goal_cases)
  case (1 r w')
  then show ?case using assms(1) by (cases r) auto
qed

theorem encrypt_file_is_encrypt_chunked_witness:
  "\<exists>w'. encrypt_file_chunked ref_aead ref_rng calm in_path out_path sample_key ''ab'' (one_file [1, 2, 3]) = Some (Ok (), w') \<and>
    read_path (disk w') out_path = Some sample_blob"
proof (rule sample_encrypted)
  fix s
  assume "encrypt_chunked ref_aead ref_rng [1, 2, 3] sample_key ''ab'' 0 = (Ok sample_blob, s)"
  then show ?thesis
    using encrypt_file_is_encrypt_chunked [OF calm_ok one_file_facts(1,2,4), of ref_aead ref_rng sample_key "''ab''" "[1, 2, 3]"]
    by (auto simp: one_file_facts(7))
qed

text \<open>
  C14: \<open>Ok\<close> from the file encoder means a complete blob, in every environment. Whatever calls fail or
  return short counts, if \<open>encrypt_file_chunked\<close> returns \<open>Ok\<close>, and the output is not the input file itself,
  then the output holds the blob \<open>encrypt_chunked\<close> makes of the input, and every file that is not the
  output is unchanged.
\<close>

theorem encrypt_file_ok_is_complete:
  assumes "wf_disk (disk w)" "read_path (disk w) input = Some pt" "\<not> same_file (disk w) input output"
    and "encrypt_file_chunked A R os input output wk i w = Some (Ok (), w')"
  shows "(\<exists>framed. fst (encrypt_chunked A R pt wk i (rng_state w)) = Ok framed \<and>
      read_path (disk w') output = Some framed) \<and>
    (\<forall>q. q \<noteq> output \<and> \<not> same_file (disk w) q output \<longrightarrow> read_path (disk w') q = read_path (disk w) q)"
proof (rule encrypt_file_spec [OF assms(1-3), of A R os wk i], goal_cases)
  case (1 r w2)
  then have "r = Ok ()" "w2 = w'" using assms(4) by auto
  then show ?case using 1(4,6) by blast
qed

theorem encrypt_file_ok_is_complete_witness:
  "\<exists>w'. encrypt_file_chunked ref_aead ref_rng calm in_path out_path sample_key ''ab'' (one_file [1, 2, 3]) = Some (Ok (), w') \<and>
    read_path (disk w') in_path = Some [1, 2, 3]"
proof (rule sample_file_encrypted [OF sample_facts(1)])
  fix w1
  assume run: "encrypt_file_chunked ref_aead ref_rng calm in_path out_path sample_key ''ab'' (one_file [1, 2, 3]) = Some (Ok (), w1)"
  from encrypt_file_ok_is_complete [OF one_file_facts(1,2,4) run] show ?thesis
    using run one_file_facts(2,4,8) by auto
qed

lemma encrypt_then_decrypt_file:
  assumes "gcm_correct A" "stream_correct A" "stream_tag16 A" "stream_min16 A" "length wk = 32"
    and "wf_disk (disk w)" "read_path (disk w) input = Some pt" "\<not> same_file (disk w) input output"
    and "encrypt_file_chunked A R os input output wk i w = Some (Ok (), w1)"
    and "os_ok os'" "rng_available R" "wf_path restored" "file_name restored \<noteq> None" "temp_free R restored w1"
  shows "\<exists>w2. decrypt_file_chunked A R os' output restored wk i w1 = Some (Ok (), w2) \<and>
    read_path (disk w2) restored = Some pt"
proof (rule encrypt_file_spec [OF assms(6-8), of A R os wk i], goal_cases)
  case (1 r w')
  then have eq: "r = Ok ()" "w' = w1" using assms(9) by auto
  with 1(4) obtain framed s' where enc: "encrypt_chunked A R pt wk i (rng_state w) = (Ok framed, s')"
    and out: "read_path (disk w1) output = Some framed" by (metis prod.collapse)
  have "aead_lawful A" using assms(1-3) by (simp add: aead_lawful_def)
  then have dec: "decrypt_chunked A framed wk i = Ok pt" by (rule blob_box.roundtrip [OF _ assms(5) enc])
  obtain w2 where w2: "decrypt_file_chunked A R os' output restored wk i w1 = Some (Ok (), w2)"
    "published restored pt w1 w2"
    using decrypt_file_succeeds [OF 1(7) [unfolded eq(2)] assms(14,4,10,11,13) out dec
        encrypt_chunked_unaligned [OF assms(3) enc]] .
  then show ?case
    using published_effects(1) [OF w2(2) 1(7) [unfolded eq(2)] assms(12)] by blast
qed

text \<open>
  Files survive encryption and decryption. If \<open>encrypt_file_chunked\<close> returned \<open>Ok\<close> in any environment, then in
  an environment in which no call fails \<open>decrypt_file_chunked\<close> of its output restores the original
  bytes, at any other destination.
\<close>

theorem file_roundtrip:
  assumes "gcm_correct A" "stream_correct A" "stream_tag16 A" "stream_min16 A" "length wk = 32"
    and "wf_disk (disk w)" "read_path (disk w) input = Some pt" "\<not> same_file (disk w) input output"
    and "encrypt_file_chunked A R os input output wk i w = Some (Ok (), w1)"
    and "os_ok os'" "rng_available R" "wf_path restored" "file_name restored \<noteq> None" "temp_free R restored w1"
  shows "\<exists>w2. decrypt_file_chunked A R os' output restored wk i w1 = Some (Ok (), w2) \<and>
    read_path (disk w2) restored = Some pt"
  by (rule encrypt_then_decrypt_file [OF assms])

theorem file_roundtrip_witness:
  "\<exists>w1 w2. encrypt_file_chunked ref_aead ref_rng calm in_path out_path sample_key ''ab'' (one_file [1, 2, 3]) = Some (Ok (), w1) \<and>
    decrypt_file_chunked ref_aead ref_rng calm out_path back_path sample_key ''ab'' w1 = Some (Ok (), w2) \<and>
    read_path (disk w2) back_path = Some [1, 2, 3]"
proof (rule sample_file_encrypted [OF sample_facts(1)])
  fix w1
  assume run: "encrypt_file_chunked ref_aead ref_rng calm in_path out_path sample_key ''ab'' (one_file [1, 2, 3]) = Some (Ok (), w1)"
    and "temp_free ref_rng back_path w1"
  with file_roundtrip [OF ref_gcm_laws(1) ref_stream_laws(1,3,5) sample_facts(1) one_file_facts(1,2,4) run calm_ok
      ref_rng_available back_path_facts] show ?thesis by blast
qed

subsection \<open>Decrypting a file\<close>

text \<open>
  C2: decryption to a file is atomic. \<open>decrypt_file_chunked\<close> always returns, in every environment, and at every
  moment of the run (so also after a crash at any point) every file other than the output and the
  temporary \<open>*.part\<close> sibling is as before, and the output is either as before or holds the complete
  plaintext the in-memory decoder returns for the input, on stable storage.
\<close>

theorem decrypt_file_atomic:
  assumes "wf_disk (disk w)" "wf_path output" "temp_free R output w" "stream_min16 A"
  shows "\<exists>r w' ds. decrypt_file_chunked A R os input output wk i w = Some (r, w') \<and> hist w' = hist w @ ds \<and>
    (\<forall>d \<in> set ds.
       (\<forall>q. q \<noteq> output \<longrightarrow> temp_name output q \<or> read_path d q = read_path (disk w) q) \<and>
       (read_path d output = read_path (disk w) output \<or>
        (\<exists>data pt. read_path (disk w) input = Some data \<and> decrypt_chunked A data wk i = Ok pt \<and>
           read_path d output = Some pt \<and> on_stable_storage d output)))"
proof -
  obtain r w' where run: "decrypt_file_chunked A R os input output wk i w = Some (r, w')"
    using decrypt_file_returns [OF assms(1,3,4)] .
  note dr = decrypt_file_run [OF assms(1,3,4) run]
  have nt: "\<not> temp_name output output" using temp_name_sibling(1) [OF assms(2)] by blast
  show ?thesis
  proof (cases r)
    case (Ok u)
    then obtain data pt where d: "read_path (disk w) input = Some data" "decrypt_chunked A data wk i = Ok pt"
      "published output pt w w'" using dr(4) by auto
    note pe = published_effects [OF d(3) assms(1,2)]
    obtain ds where ds: "hist w' = hist w @ ds @ [disk w']" "\<forall>d \<in> set ds. unchanged_but_temp output (disk w) d"
      using pe(4) by blast
    have "\<forall>d \<in> set (ds @ [disk w']).
       (\<forall>q. q \<noteq> output \<longrightarrow> temp_name output q \<or> read_path d q = read_path (disk w) q) \<and>
       (read_path d output = read_path (disk w) output \<or>
        (\<exists>data pt. read_path (disk w) input = Some data \<and> decrypt_chunked A data wk i = Ok pt \<and>
           read_path d output = Some pt \<and> on_stable_storage d output))"
      using ds(2) nt d pe(1-3) by (auto simp: unchanged_but_temp_def)
    with run ds(1) show ?thesis by blast
  next
    case (Err e)
    obtain ds where "hist w' = hist w @ ds" "\<forall>d \<in> set ds. unchanged_but_temp output (disk w) d"
      using left_aside_effects(3) [OF dr(3) [OF Err] assms(1)] by blast
    with run nt show ?thesis unfolding unchanged_but_temp_def by blast
  qed (use dr(1) in simp)
qed

theorem decrypt_file_atomic_witness:
  "\<exists>r w' ds. decrypt_file_chunked ref_aead ref_rng calm in_path out_path sample_key ''ab'' (one_file sample_blob) = Some (r, w') \<and>
    hist w' = hist (one_file sample_blob) @ ds \<and> (\<forall>d \<in> set ds. read_path d in_path = Some sample_blob)"
proof -
  have "in_path \<noteq> out_path" by (rule one_file_facts)
  moreover have "\<not> temp_name out_path in_path"
    using temp_path_eq [OF one_file_facts(5,6)] one_file_facts(6)
    by (auto simp: temp_name_def in_path_def out_path_def)
  ultimately show ?thesis
    using decrypt_file_atomic [OF one_file_facts(1,5) one_file_temp_free ref_stream_laws(5), of ref_rng calm in_path
        sample_key "''ab''" sample_blob] one_file_facts(2) by metis
qed

text \<open>
  C10: a failed decryption leaves no trace. If \<open>decrypt_file_chunked\<close> returns an error (and the temporary name it
  draws is not in use beforehand), the output is as before, and so is the whole file system, with one
  exception: when a system call failed, at most one new file remains, a temporary sibling of the output
  whose name was not in use before. No file that existed is changed, removed or replaced, other
  \<open>.part\<close> siblings included.
\<close>

theorem failed_decrypt_leaves_files:
  assumes "wf_disk (disk w)" "wf_path output" "temp_free R output w" "stream_min16 A"
    and "decrypt_file_chunked A R os input output wk i w = Some (Err e, w')"
  shows "read_path (disk w') output = read_path (disk w) output \<and>
    (read_path (disk w') = read_path (disk w) \<or>
     \<not> os_ok os \<and>
     (\<exists>tmp. temp_name output tmp \<and> tmp \<noteq> output \<and> read_path (disk w) tmp = None \<and>
        (\<forall>q. q \<noteq> tmp \<longrightarrow> read_path (disk w') q = read_path (disk w) q)))"
proof -
  note la = decrypt_file_run(3) [OF assms(1,3-5) refl]
  have disk: "read_path (disk w') = read_path (disk w) \<or>
      (\<exists>tmp. temp_name output tmp \<and> read_path (disk w) tmp = None \<and>
        (\<forall>q. q \<noteq> tmp \<longrightarrow> read_path (disk w') q = read_path (disk w) q))"
    using la read_path_beside [OF _ assms(1)]
    by (auto simp: left_aside_def quiet_def aside_def read_path_def [of _ tmp for tmp])
  moreover have "read_path (disk w') = read_path (disk w)" if "os_ok os"
    using left_aside_effects(2) [OF la assms(1) that] by blast
  ultimately show ?thesis using temp_name_sibling(1) [OF assms(2)] by metis
qed

theorem failed_decrypt_leaves_files_witness:
  "\<exists>w'. decrypt_file_chunked ref_aead ref_rng calm in_path out_path sample_key ''ab'' (one_file []) = Some (Err Io, w') \<and>
    read_path (disk w') out_path = None \<and> read_path (disk w') in_path = Some []"
proof (rule decrypt_file_returns [OF one_file_facts(1) one_file_temp_free ref_stream_laws(5),
      of ref_rng calm in_path sample_key "''ab''" "[]"])
  fix r w'
  assume run: "decrypt_file_chunked ref_aead ref_rng calm in_path out_path sample_key ''ab'' (one_file []) = Some (r, w')"
  note dr = decrypt_file_run [OF one_file_facts(1) one_file_temp_free ref_stream_laws(5) run]
  have "r \<noteq> Ok ()"
    using dr(4) one_file_facts(2) [of "[]"] by (auto elim!: decrypt_chunked_Ok)
  then obtain e where "r = Err e" using dr(1) by (cases r) auto
  moreover from this have "e = Io"
    using dr(5) [of e "[]"] calm_ok one_file_facts(2,6) ref_rng_available sample_facts(2) by simp
  ultimately have err: "decrypt_file_chunked ref_aead ref_rng calm in_path out_path sample_key ''ab'' (one_file []) =
      Some (Err Io, w')" using run by simp
  then show ?thesis
    using failed_decrypt_leaves_files [OF one_file_facts(1,5) one_file_temp_free ref_stream_laws(5) err] calm_ok
      one_file_facts(2,3) by auto
qed

text \<open>
  C11: a successful decryption wrote exactly the authenticated plaintext. If \<open>decrypt_file_chunked\<close> returns \<open>Ok\<close>, in any
  environment, the output holds the plaintext \<open>decrypt_chunked\<close> returns for the input's bytes, it is on
  stable storage, and every other file (the temporary sibling included) is as before.
\<close>

theorem successful_decrypt_is_authentic:
  assumes "wf_disk (disk w)" "wf_path output" "temp_free R output w" "stream_min16 A"
    and "decrypt_file_chunked A R os input output wk i w = Some (Ok (), w')"
  shows "\<exists>data pt. read_path (disk w) input = Some data \<and> decrypt_chunked A data wk i = Ok pt \<and>
    read_path (disk w') output = Some pt \<and> on_stable_storage (disk w') output \<and>
    (\<forall>q. q \<noteq> output \<longrightarrow> read_path (disk w') q = read_path (disk w) q)"
proof -
  obtain data pt where d: "read_path (disk w) input = Some data" "decrypt_chunked A data wk i = Ok pt"
    "published output pt w w'"
    using decrypt_file_run(4) [OF assms(1,3-5) refl] by blast
  with published_effects [OF d(3) assms(1,2)] show ?thesis by blast
qed

theorem successful_decrypt_is_authentic_witness:
  "\<exists>w' data pt. decrypt_file_chunked ref_aead ref_rng calm in_path out_path sample_key ''ab'' (one_file sample_blob) = Some (Ok (), w') \<and>
    read_path (disk (one_file sample_blob)) in_path = Some data \<and>
    decrypt_chunked ref_aead data sample_key ''ab'' = Ok pt \<and> read_path (disk w') out_path = Some pt"
proof (rule sample_file_decrypted)
  fix w'
  assume run: "decrypt_file_chunked ref_aead ref_rng calm in_path out_path sample_key ''ab'' (one_file sample_blob) = Some (Ok (), w')"
  from successful_decrypt_is_authentic [OF one_file_facts(1,5) one_file_temp_free ref_stream_laws(5) run] run
  show ?thesis by blast
qed

text \<open>
  C12: the file decoder accepts what the in-memory decoder accepts. If no call fails, a blob that
  \<open>decrypt_chunked\<close> accepts and whose last segment is short (as in every blob the encoders make) is
  decrypted to the output.
\<close>

theorem decrypt_file_complete:
  assumes "wf_disk (disk w)" "wf_path output" "temp_free R output w" "stream_min16 A" "os_ok os" "rng_available R"
    and "file_name output \<noteq> None" "read_path (disk w) input = Some data" "decrypt_chunked A data wk i = Ok pt"
    and "\<not> (CHUNK_SIZE + 16) dvd (length data - 72)"
  shows "\<exists>w'. decrypt_file_chunked A R os input output wk i w = Some (Ok (), w') \<and> read_path (disk w') output = Some pt"
proof -
  obtain w' where "decrypt_file_chunked A R os input output wk i w = Some (Ok (), w')" "published output pt w w'"
    using decrypt_file_succeeds [OF assms(1,3-10)] .
  then show ?thesis using published_effects(1) [OF _ assms(1,2)] by blast
qed

theorem decrypt_file_complete_witness:
  "\<exists>w'. decrypt_file_chunked ref_aead ref_rng calm in_path out_path sample_key ''ab'' (one_file sample_blob) = Some (Ok (), w') \<and>
    read_path (disk w') out_path = Some [1, 2, 3]"
proof -
  have "file_name out_path \<noteq> None" by (simp add: one_file_facts(6))
  from decrypt_file_complete [OF one_file_facts(1,5) one_file_temp_free ref_stream_laws(5) calm_ok ref_rng_available this
      one_file_facts(2) sample_decrypted sample_unaligned]
  show ?thesis .
qed

subsection \<open>Where the decoders differ\<close>

text \<open>A blob whose last segment is a full chunk, as the format description allows it.\<close>

lemma full_last_segment_accepted:
  obtains framed where "decrypt_chunked ref_aead framed sample_key ''ab'' = Ok (replicate CHUNK_SIZE 0)"
    "length framed = 72 + (CHUNK_SIZE + 16)"
proof (rule new_blob_keys_succeeds [OF ref_rng_available ref_gcm_laws(4,3) sample_facts(1,2), of 0], goal_cases)
  case (1 aad dk np w s')
  obtain iv ct where k: "aad = seg_aad_bytes ''ab''" "length dk = 32" "length np = 7" "w = iv @ ct"
    "length iv = 12" "length ct = 48" "gcm_encrypt ref_aead sample_key iv dk (wrap_aad_bytes ''ab'' np) = Some ct"
    using new_blob_keys_Ok [OF 1(2)] by metis
  let ?m = "replicate CHUNK_SIZE 0 :: bytes"
  obtain c where c: "enc_last ref_aead (dk, np, 0) ?m aad = Some c" by (simp add: ref_gcm_encrypt_def)
  have len: "length c = CHUNK_SIZE + 16" using stream_tag16_last [OF ref_stream_laws(3) c] by simp
  have "dec_last ref_aead (dk, np, 0) c aad = Some ?m" using c by (simp add: ref_gcm_inverse)
  moreover have "chunks (CHUNK_SIZE + 16) c = [c]" using len by (intro chunks_short) auto
  moreover have "open_header ref_aead (write_header [] w np @ c) sample_key ''ab'' = Ok (np, dk, CHUNK_SIZE)"
    using k gcm_correctD [OF ref_gcm_laws(1) sample_facts(1) k(5,7)]
    by (simp add: open_header_written sample_facts unwrap_data_key_eq)
  moreover have "length (write_header [] w np @ c) = 72 + (CHUNK_SIZE + 16)" "hd (write_header [] w np @ c) = VERSION"
    "drop 72 (write_header [] w np @ c) = c"
    using k len by (simp_all add: write_header_def)
  ultimately show thesis
    using k(1) by (intro that [of "write_header [] w np @ c"]) (simp_all add: decrypt_chunked_eq sample_facts)
qed

text \<open>
  C29: the decoders disagree on full last segments. A blob whose body is a positive multiple of the
  ciphertext chunk size, which the format description allows (the last segment is at most
  \<open>chunk_size + 16\<close> bytes), may be accepted by \<open>decrypt_chunked\<close>, but \<open>decrypt_file_chunked\<close> refuses it with \<open>Aead\<close>: it takes the
  full segment for a non-final one and expects another after it. The encoders never emit such blobs.
\<close>

theorem decoders_disagree_on_full_last_segment:
  assumes "wf_disk (disk w)" "temp_free R output w" "stream_min16 A" "os_ok os" "rng_available R"
    and "file_name output \<noteq> None" "read_path (disk w) input = Some data" "decrypt_chunked A data wk i = Ok pt"
    and "(CHUNK_SIZE + 16) dvd (length data - 72)"
  shows "\<exists>w'. decrypt_file_chunked A R os input output wk i w = Some (Err Aead, w')"
proof -
  obtain r w' where run: "decrypt_file_chunked A R os input output wk i w = Some (r, w')"
    using decrypt_file_returns [OF assms(1-3)] .
  note dr = decrypt_file_run [OF assms(1-3) run]
  have "72 \<le> length data" by (rule decrypt_chunked_Ok [OF assms(8)])
  moreover have "r \<noteq> Ok ()" using dr(4) assms(7,9) by auto
  ultimately show ?thesis
    using run dr(1) dr(5) [of _ data] assms(4-8) by (cases r) (auto split: if_splits)
qed

theorem decoders_disagree_on_full_last_segment_witness:
  "\<exists>framed w'. decrypt_chunked ref_aead framed sample_key ''ab'' = Ok (replicate CHUNK_SIZE 0) \<and>
    decrypt_file_chunked ref_aead ref_rng calm in_path out_path sample_key ''ab'' (one_file framed) = Some (Err Aead, w')"
proof (rule full_last_segment_accepted)
  fix framed
  assume dec: "decrypt_chunked ref_aead framed sample_key ''ab'' = Ok (replicate CHUNK_SIZE 0)"
    and "length framed = 72 + (CHUNK_SIZE + 16)"
  then have "(CHUNK_SIZE + 16) dvd (length framed - 72)" "file_name out_path \<noteq> None"
    by (simp_all add: one_file_facts(6) add.commute [of 16])
  with decoders_disagree_on_full_last_segment [OF one_file_facts(1) one_file_temp_free ref_stream_laws(5) calm_ok
      ref_rng_available _ one_file_facts(2) dec] dec
  show ?thesis by blast
qed

text \<open>
  C31: a truncated header is reported differently. For an input shorter than the header,
  \<open>decrypt_chunked\<close> returns \<open>Aead\<close> but \<open>decrypt_file_chunked\<close> returns \<open>Io\<close>, in every environment; either way
  nothing is written.
\<close>

theorem truncated_header_is_io_error:
  assumes "valid_context i" "read_path (disk w) input = Some data" "length data < 72"
  shows "decrypt_chunked A data wk i = Err Aead \<and>
    (\<exists>w'. decrypt_file_chunked A R os input output wk i w = Some (Err Io, w') \<and> disk w' = disk w \<and> hist w' = hist w)"
proof -
  obtain r1 w1 where op: "decrypt_open A os input wk i w = (r1, w1)" by (metis surj_pair)
  note oc = decrypt_open_cases [OF op]
  have "r1 \<noteq> Ok x" for x
    using oc(4) [of x] assms(2,3) by (auto simp: opened_def read_path_def)
  then obtain e where e: "r1 = Err e" using oc(3) by (cases r1) auto
  obtain r2 w2 where fo: "file_open os input w = (r2, w2)" by (metis surj_pair)
  have "e = Io"
  proof (cases r2)
    case (Ok rd)
    obtain r3 w3 where re: "read_exact os rd (replicate 72 0) w2 = (r3, w3)" by (metis surj_pair)
    have "length (remaining rd w2) < 72"
      using file_open_cases(1,4) [OF fo] Ok assms(2,3)
      by (auto simp: remaining_def node_bytes_def quiet_def read_path_def)
    then have "r3 \<noteq> Ok x" for x
      using read_exact_cases(4) [OF re, of "fst x" "snd x"] by auto
    then have "r3 = Err Io"
      using read_exact_cases(3) [OF re] read_exact_cases(5) [OF re] by (cases r3) auto
    then show ?thesis
      using op e re Ok by (simp add: decrypt_open_eq [OF assms(1) fo])
  qed (use op e file_open_cases(3) [OF fo] in \<open>simp_all add: decrypt_open_eq [OF assms(1) fo]\<close>)
  moreover have "decrypt_file_chunked A R os input output wk i w = Some (Err e, w1)"
    by (simp add: decrypt_file_chunked_def io_bind_st op e)
  ultimately show ?thesis
    using assms(1,3) oc(1) by (simp add: decrypt_chunked_eq quiet_def)
qed

theorem truncated_header_is_io_error_witness:
  "decrypt_chunked ref_aead [2] sample_key ''ab'' = Err Aead \<and>
    (\<exists>w'. decrypt_file_chunked ref_aead ref_rng calm in_path out_path sample_key ''ab'' (one_file [2]) = Some (Err Io, w') \<and>
      disk w' = disk (one_file [2]) \<and> hist w' = hist (one_file [2]))"
  by (rule truncated_header_is_io_error [OF sample_facts(2) one_file_facts(2)]) simp

subsection \<open>Before any file is created\<close>

text \<open>
  C27: a blob whose key does not unwrap creates nothing. If the wrapped key in the header is not
  authentic for the key and identifier, \<open>decrypt_file_chunked\<close> fails in every environment without
  changing the file system at any moment and without drawing randomness.
\<close>

theorem wrong_key_creates_nothing:
  assumes "read_path (disk w) input = Some data"
    and "gcm_decrypt A wk (take 12 (drop 1 data)) (take 48 (drop 13 data)) (wrap_aad_bytes i (take 7 (drop 61 data))) = None"
  shows "\<exists>e w'. decrypt_file_chunked A R os input output wk i w = Some (Err e, w') \<and>
    disk w' = disk w \<and> hist w' = hist w \<and> rng_state w' = rng_state w"
proof -
  obtain r1 w1 where op: "decrypt_open A os input wk i w = (r1, w1)" by (metis surj_pair)
  note oc = decrypt_open_cases [OF op]
  have split: "take 12 (take 60 (drop 1 data)) = take 12 (drop 1 data)"
    "drop 12 (take 60 (drop 1 data)) = take 48 (drop 13 data)"
    by (simp_all add: drop_take min_def)
  have "unwrap_data_key A (take 60 (drop 1 data)) wk (wrap_aad_bytes i (take 7 (drop 61 data))) = Err Aead"
    unfolding unwrap_data_key_eq split assms(2) by simp
  then have "open_header A data wk i \<noteq> Ok y" if "72 \<le> length data" "valid_context i" for y
    using that by (simp add: open_header_eq)
  then have "r1 \<noteq> Ok x" for x
    using oc(4) [of x] assms(1) by (auto simp: opened_def read_path_def)
  then obtain e where "r1 = Err e" using oc(3) by (cases r1) auto
  then have "decrypt_file_chunked A R os input output wk i w = Some (Err e, w1)"
    by (simp add: decrypt_file_chunked_def io_bind_st op)
  then show ?thesis using oc(1,2) by (auto simp: quiet_def)
qed

theorem wrong_key_creates_nothing_witness:
  "\<exists>e w'. decrypt_file_chunked ref_aead ref_rng calm in_path out_path sample_key ''ab'' (one_file (replicate 80 0)) = Some (Err e, w') \<and>
    disk w' = disk (one_file (replicate 80 0)) \<and> hist w' = hist (one_file (replicate 80 0)) \<and>
    rng_state w' = rng_state (one_file (replicate 80 0))"
proof (rule wrong_key_creates_nothing [OF one_file_facts(2)])
  have two: "u32_to_be_bytes 2 = [0, 0, 0, 2]" by code_simp
  have "ref_tag sample_key (take 12 (drop 1 (replicate 80 0)))
      (wrap_aad_bytes ''ab'' (take 7 (drop 61 (replicate 80 0)))) \<noteq> replicate 16 0"
    by (simp add: ref_tag_def sample_key_def wrap_aad_bytes_def BLOB_DOMAIN_def length_prefixed_def as_bytes_def
        chunk_size_be_value VERSION_def sum_list_replicate two)
  then show "gcm_decrypt ref_aead sample_key (take 12 (drop 1 (replicate 80 0))) (take 48 (drop 13 (replicate 80 0)))
      (wrap_aad_bytes ''ab'' (take 7 (drop 61 (replicate 80 0)))) = None"
    by (simp add: ref_gcm_decrypt_def eq_commute)
qed

text \<open>
  The temporary name is a sibling of the output, never the output itself, and different random
  suffixes give different names, so concurrent decryptions to one destination do not share a
  temporary file unless they drew the same 64-bit suffix.
\<close>

theorem temp_names_are_distinct_siblings:
  assumes "wf_path output" "sibling_temp_path R output g = (Ok p, g1)" "sibling_temp_path R output h = (Ok q, h1)"
    and "fst (fill_random R (replicate 8 0) g) \<noteq> fst (fill_random R (replicate 8 0) h)"
  shows "p \<noteq> output \<and> butlast p = butlast output \<and> p \<noteq> q"
proof -
  have sfx: "\<exists>name s. fill_random R (replicate 8 0) g = (Ok s, g1) \<and> length s = 8 \<and> file_name output = Some name \<and>
      p = butlast output @ [Normal (name @ ''.'' @ hex16 (from_be_bytes s) @ ''.part'')]"
    if "sibling_temp_path R output g = (Ok p, g1)" for g p g1
    using that fill_random_length [of R "replicate 8 0" g] temp_path_eq [OF assms(1)]
    by (auto simp: sibling_temp_path_def st_bind_eq_Ok res_bind_eq_Ok)
  obtain name s where s: "fill_random R (replicate 8 0) g = (Ok s, g1)" "length s = 8" "file_name output = Some name"
    "p = butlast output @ [Normal (name @ ''.'' @ hex16 (from_be_bytes s) @ ''.part'')]"
    using sfx [OF assms(2)] by blast
  obtain t where t: "fill_random R (replicate 8 0) h = (Ok t, h1)" "length t = 8"
    "q = butlast output @ [Normal (name @ ''.'' @ hex16 (from_be_bytes t) @ ''.part'')]"
    using sfx [OF assms(3)] s(3) by auto
  have "from_be_bytes s \<noteq> (from_be_bytes t :: u64)"
    using assms(4) s(1,2) t(1,2) be64.enc_dec [of s] be64.enc_dec [of t] by auto
  then show ?thesis
    using temp_name_sibling [OF assms(1) sibling_temp_path_cases(2) [OF assms(2) refl]] s(4) t(3) by simp
qed

theorem temp_names_are_distinct_siblings_witness:
  "\<exists>p q. sibling_temp_path ref_rng out_path 0 = (Ok p, 8) \<and> sibling_temp_path ref_rng out_path 1 = (Ok q, 9) \<and>
    p \<noteq> out_path \<and> p \<noteq> q"
proof -
  have ok: "\<exists>p. sibling_temp_path ref_rng out_path n = (Ok p, n + 8)" for n
    by (simp add: sibling_temp_path_def st_bind_def fill_random_def ref_rng_def one_file_facts(6))
  from ok [of 0] ok [of 1] obtain p q where
    pq: "sibling_temp_path ref_rng out_path 0 = (Ok p, 8)" "sibling_temp_path ref_rng out_path 1 = (Ok q, 9)" by auto
  moreover have "fst (fill_random ref_rng (replicate 8 0) 0) \<noteq> fst (fill_random ref_rng (replicate 8 0) 1)"
    by (auto simp: fill_random_def ref_rng_def intro: exI [of _ 0])
  ultimately show ?thesis using temp_names_are_distinct_siblings [OF one_file_facts(5) pq] by blast
qed

subsection \<open>Encrypting in place\<close>

lemma read_full_at_end:
  assumes "remaining rd w = []" "os_ok os"
  obtains rd' buf' w' where "read_full os rd buf 0 w = (Ok (0, rd', buf'), w')" "quiet w w'" "rng_state w' = rng_state w"
proof -
  obtain r w' where rf: "read_full os rd buf 0 w = (r, w')" by (metis surj_pair)
  note rc = read_full_cases [OF rf]
  obtain n rd' buf' where r: "r = Ok (n, rd', buf')"
    using rc(3) rc(4) assms(2) by (cases r) auto
  have "n = 0" using rc(5) [OF r] assms(1) by simp
  then have "read_full os rd buf 0 w = (Ok (0, rd', buf'), w')" using rf r by simp
  then show thesis using rc(1,2) by (rule that)
qed

lemma encrypt_stream_in_place:
  assumes "os_ok os" "remaining rd w = []" "w_buf wr = []" "contents (node (disk w) (w_ino wr)) = []"
    and "length (write_header [] wrapped np) = 72" "enc_last A (enc_from_aead A dk np) [] a = Some c"
  obtains s' where "encrypt_stream A os a dk np wrapped rd (wr, w) = Some (Ok (), s')" "writes (wr, w) s'"
    "w_buf (fst s') = []" "contents (node (disk (snd s')) (w_ino wr)) = write_header [] wrapped np @ c"
proof -
  let ?h = "write_header [] wrapped np" and ?wr = "wr\<lparr> w_buf := write_header [] wrapped np \<rparr>"
  have h: "write_all os ?h (wr, w) = (Ok (), ?wr, w)"
    using assms(3,5) by (simp add: write_all_def buffer_bytes_def DEFAULT_BUF_SIZE_def)
  obtain rd2 buf2 w2 where rf: "read_full os rd (replicate CHUNK_SIZE 0) 0 w = (Ok (0, rd2, buf2), w2)"
    and q: "quiet w w2" "rng_state w2 = rng_state w"
    using read_full_at_end [OF assms(2,1)] .
  have st: "stream_step (enc_next A) os a rd (replicate CHUNK_SIZE 0) None (enc_from_aead A dk np) (?wr, w) =
      (Ok (0, rd2, buf2, enc_from_aead A dk np), (?wr, w2))"
    by (simp add: stream_step_def st_bind_def on_world_apply rf write_pending_def)
  obtain r3 s3 where wl: "write_all os c (?wr, w2) = (r3, s3)" by (metis surj_pair)
  note wc = write_all_cases(1,3,4) [OF wl]
  have r3: "r3 = Ok ()" using wc(2) assms(1) .
  obtain r4 s4 where fl: "flush os s3 = (r4, s4)" by (metis surj_pair)
  note fc = flush_cases(1,3,4) [OF fl]
  have r4: "r4 = Ok ()" using fc(2) assms(1) .
  have "stream_loop (enc_next A) (enc_last A) os a CHUNK_SIZE rd (replicate CHUNK_SIZE 0) None
      (enc_from_aead A dk np) (?wr, w) = Some (Ok (), s3)"
    using r3 by (subst stream_loop.simps) (simp add: st write_last_def assms(6) st_map_err_apply wl)
  then have run: "encrypt_stream A os a dk np wrapped rd (wr, w) = Some (Ok (), s4)"
    using r4 by (simp add: encrypt_stream_def io_bind_def io_st_def st_map_err_apply h fl)
  have w24: "writes (wr, w2) s4"
    using wrt.rel_trans [OF wc(1) fc(1)] by (simp add: writes_def)
  have w: "writes (wr, w) s4" by (rule wrt.rel_trans [OF writes_quiet [OF q] w24])
  have "written s4 = ?h @ c"
    using wc(3) [OF r3] fc(3) [OF r4] assms(4) q(1) by (auto simp: written_def quiet_def)
  then show thesis
    using fc(3) [OF r4] w by (intro that [OF run w]) (simp_all add: written_def writes_def)
qed

text \<open>
  C30: encrypting a file onto itself destroys it. When input and output are one file, \<open>File::create\<close> truncates
  it before the first byte is read: in an environment where no call fails, \<open>encrypt_file_chunked\<close> returns \<open>Ok\<close> and leaves an encryption of the empty plaintext, whatever the
  file held before.
\<close>

theorem encrypt_in_place_loses_plaintext:
  assumes "os_ok os" "same_file (disk w) input output" "encrypt_chunked A R [] wk i (rng_state w) = (Ok framed, g)"
  shows "\<exists>w'. encrypt_file_chunked A R os input output wk i w = Some (Ok (), w') \<and>
    read_path (disk w') input = Some framed \<and> read_path (disk w') output = Some framed"
proof -
  from assms(2) obtain j where j: "entries (disk w) input = Some j" "entries (disk w) output = Some j"
    by (cases "entries (disk w) output") (auto simp: same_file_def)
  from assms(3) obtain a dk np wp where keys: "new_blob_keys A R wk i (rng_state w) = (Ok (a, dk, np, wp), g)"
    and body: "body_result (write_header [] wp np) (seal_segments A a (enc_from_aead A dk np)
      (full_parts CHUNK_SIZE []) (last_part CHUNK_SIZE [])) = Ok framed"
    by (auto simp: encrypt_chunked_eq split: prod.splits outcome.splits)
  then obtain c where c: "enc_last A (enc_from_aead A dk np) [] a = Some c" "framed = write_header [] wp np @ c"
    by (auto simp: body_result_def full_parts_def last_part_def split: option.splits)
  have len: "length (write_header [] wp np) = 72"
    using keys by (rule new_blob_keys_Ok) (simp add: write_header_def chunk_size_be_def)
  obtain r1 w1 where op: "file_open os input (w\<lparr> rng_state := g \<rparr>) = (r1, w1)" by (metis surj_pair)
  note oc = file_open_cases [OF op]
  obtain r2 w2 where cr: "file_create os output w1 = (r2, w2)" by (metis surj_pair)
  have d1: "disk w1 = disk w" using oc(1) by (simp add: quiet_def)
  let ?rd = "\<lparr> r_ino = j, r_pos = 0, r_buf = [] \<rparr>"
  have r1: "r1 = Ok ?rd" using oc(5) [OF assms(1), of j] j by simp
  obtain wr where r2: "r2 = Ok wr" using file_create_cases(3) [OF cr assms(1)] by blast
  have cc: "wr = \<lparr> w_ino = j, w_buf = [] \<rparr>" "disk w2 = disk_truncated j (disk w)"
    using file_create_cases(6) [OF cr _ r2, of j] j d1 by simp_all
  have "remaining ?rd w2 = []" "w_buf wr = []" "contents (node (disk w2) (w_ino wr)) = []"
    by (simp_all add: remaining_def node_bytes_def cc disk_truncated_def)
  then obtain s' where s: "encrypt_stream A os a dk np wp ?rd (wr, w2) = Some (Ok (), s')" "writes (wr, w2) s'"
    "w_buf (fst s') = []" "contents (node (disk (snd s')) (w_ino wr)) = write_header [] wp np @ c"
    by (rule encrypt_stream_in_place [OF assms(1) _ _ _ len c(1)])
  have "encrypt_file_chunked A R os input output wk i w = Some (Ok (), snd s')"
    using encrypt_file_eq [OF keys op cr] s(1) r1 r2 by (simp add: drop_writer_flushed [OF s(3)])
  moreover have "read_path (disk (snd s')) p = Some framed" if "entries (disk w) p = Some j" for p
    using that s(2,4) c(2) cc by (simp add: read_path_def writes_def touches_def only_node_def disk_truncated_def)
  ultimately show ?thesis using j by blast
qed

theorem encrypt_in_place_loses_plaintext_witness:
  "\<exists>framed w'. encrypt_file_chunked ref_aead ref_rng calm in_path in_path sample_key ''ab'' (one_file [1, 2, 3]) = Some (Ok (), w') \<and>
    read_path (disk w') in_path = Some framed \<and> decrypt_chunked ref_aead framed sample_key ''ab'' = Ok []"
proof -
  have small: "length ([] :: bytes) < 2 ^ 32 * CHUNK_SIZE" by (simp add: CHUNK_SIZE_def)
  obtain framed s where enc: "encrypt_chunked ref_aead ref_rng [] sample_key ''ab'' (rng_state (one_file [1, 2, 3])) = (Ok framed, s)"
    by (rule encrypt_chunked_succeeds [OF ref_rng_available ref_gcm_laws(4,3) ref_stream_laws(4)
          sample_facts(1,2) small])
  have "same_file (disk (one_file [1, 2, 3])) in_path in_path" by (simp add: same_file_def one_file_def)
  from encrypt_in_place_loses_plaintext [OF calm_ok this enc] blob_box.roundtrip [OF ref_lawful sample_facts(1) enc]
  show ?thesis by blast
qed

end
