(* ===== verification/Filum_Metadata.thy ===== *)
theory Filum_Metadata
  imports Filum_Aad Filum_Sealed Filum_Instances
begin

text \<open>
  Field-level metadata encryption (\<open>metadata.rs\<close>): one AES-GCM ciphertext per field, bound to the
  record identifier and the field name through the AAD.
\<close>

subsection \<open>Definitions\<close>

record EncryptedField =
  ciphertext :: bytes
  field_iv :: bytes

definition encrypt_field ::
  "('e, 'd) aead_lib \<Rightarrow> 'r rng \<Rightarrow> bytes \<Rightarrow> bytes \<Rightarrow> string \<Rightarrow> string
     \<Rightarrow> ('r, FilumCryptoError, EncryptedField) st" where
  "encrypt_field A R plaintext key record_id field_name =
     st_bind (st_lift (field_aad record_id field_name)) (\<lambda>aad.
     st_bind (fill_random R (replicate 12 0)) (\<lambda>iv.
     st_lift (
       res_bind (ok_or Aead (gcm_encrypt A key iv plaintext aad)) (\<lambda>ct.
       Ok \<lparr> ciphertext = ct, field_iv = iv \<rparr>))))"

definition decrypt_field ::
  "('e, 'd) aead_lib \<Rightarrow> EncryptedField \<Rightarrow> bytes \<Rightarrow> string \<Rightarrow> string \<Rightarrow> bytes Result" where
  "decrypt_field A field key record_id field_name =
     res_bind (field_aad record_id field_name) (\<lambda>aad.
     ok_or Aead (gcm_decrypt A key (field_iv field) (ciphertext field) aad))"

text \<open>The two operations over a context pair, and the AAD bytes of a valid context.\<close>

abbreviation seal_field ::
  "('e, 'd) aead_lib \<Rightarrow> 'r rng \<Rightarrow> bytes \<Rightarrow> bytes \<Rightarrow> string \<times> string
     \<Rightarrow> ('r, FilumCryptoError, EncryptedField) st" where
  "seal_field A R pt key ctx \<equiv> encrypt_field A R pt key (fst ctx) (snd ctx)"

abbreviation unseal_field ::
  "('e, 'd) aead_lib \<Rightarrow> EncryptedField \<Rightarrow> bytes \<Rightarrow> string \<times> string \<Rightarrow> bytes Result" where
  "unseal_field A field key ctx \<equiv> decrypt_field A field key (fst ctx) (snd ctx)"

definition valid_field_context :: "string \<times> string \<Rightarrow> bool" where
  "valid_field_context ctx \<longleftrightarrow> valid_context (fst ctx) \<and> valid_context (snd ctx)"

definition field_aad_bytes :: "string \<times> string \<Rightarrow> bytes" where
  "field_aad_bytes ctx = FIELD_DOMAIN @ length_prefixed (fst ctx) @ length_prefixed (snd ctx)"

subsection \<open>The field codec keeps the contract\<close>

lemma field_aad_ctx:
  "field_aad (fst ctx) (snd ctx) =
     (if valid_field_context ctx then Ok (field_aad_bytes ctx) else Err InvalidContext)"
  by (simp add: field_aad_eq valid_field_context_def field_aad_bytes_def)

lemma encrypt_field_eq:
  "seal_field A R pt key ctx s =
     (if valid_field_context ctx then
        (case fill_random R (replicate 12 0) s of
           (Ok iv, s') \<Rightarrow>
             (case gcm_encrypt A key iv pt (field_aad_bytes ctx) of
                None \<Rightarrow> (Err Aead, s')
              | Some ct \<Rightarrow> (Ok \<lparr> ciphertext = ct, field_iv = iv \<rparr>, s'))
         | (Err e, s') \<Rightarrow> (Err e, s')
         | (Panic, s') \<Rightarrow> (Panic, s'))
      else (Err InvalidContext, s))"
  by (simp add: encrypt_field_def field_aad_ctx st_bind_def split: prod.split outcome.split option.split)

lemma decrypt_field_eq:
  "unseal_field A field key ctx =
     (if valid_field_context ctx
      then ok_or Aead (gcm_decrypt A key (field_iv field) (ciphertext field) (field_aad_bytes ctx))
      else Err InvalidContext)"
  by (simp add: decrypt_field_def field_aad_ctx)

lemma encrypt_field_Ok:
  assumes "seal_field A R pt key ctx s = (Ok field, s')"
  shows "valid_field_context ctx" "length (field_iv field) = 12"
    "gcm_encrypt A key (field_iv field) pt (field_aad_bytes ctx) = Some (ciphertext field)"
  using assms fill_random_length [of R "replicate 12 0" s]
  by (auto simp: encrypt_field_eq split: if_splits prod.splits outcome.splits option.splits)

lemma field_aad_bytes_inject:
  assumes "valid_field_context ctx" "valid_field_context ctx'" "field_aad_bytes ctx = field_aad_bytes ctx'"
  shows "ctx = ctx'"
  using lp.pair_inject [of "fst ctx" "fst ctx'" "snd ctx" "snd ctx'"] assms
  by (simp add: valid_field_context_def field_aad_bytes_def prod_eq_iff)

interpretation field_box: sealed_box gcm_correct seal_field unseal_field valid_field_context
  field_iv ciphertext "\<lambda>ctx _. field_aad_bytes ctx"
proof (unfold_locales, goal_cases)
  case (1 A key R pt ctx s box s')
  then show ?case
    using encrypt_field_Ok [OF 1(3)] by (simp add: decrypt_field_eq gcm_correctD)
next
  case (4 ctx A R pt key s e s')
  then show ?case
    by (auto simp: encrypt_field_eq split: prod.splits outcome.splits option.splits dest: fill_random_Err)
next
  case (6 A R pt key ctx s s')
  then show ?case
    by (auto simp: encrypt_field_eq split: prod.splits outcome.splits option.splits)
next
  case (8 A R pt key ctx s box s')
  then show ?case using encrypt_field_Ok(3) [OF 8] by blast
next
  case (9 A box key ctx pt)
  then show ?case by (auto simp: decrypt_field_eq split: if_splits)
next
  case (10 ctx ctx' box)
  then show ?case by (rule field_aad_bytes_inject)
qed (simp_all add: encrypt_field_eq decrypt_field_eq)

subsection \<open>Properties\<close>

lemma ref_field:
  obtains f where "encrypt_field ref_aead ref_rng pt (replicate 32 1) ''ab'' ''cd'' 0 = (Ok f, 12)"
proof -
  have "valid_field_context (''ab'', ''cd'')" by (simp add: valid_field_context_def valid_context_def)
  then show thesis
    using that encrypt_field_eq [of ref_aead ref_rng pt "replicate 32 1" "(''ab'', ''cd'')" 0]
    by (simp add: fill_random_def ref_rng_def ref_gcm_encrypt_def)
qed

text \<open>
  Field round trip. A field sealed for a record identifier and a field name opens to its plaintext
  under the same key, identifier and name.
\<close>

theorem field_decrypts_to_plaintext:
  assumes "gcm_correct A" "length key = 32"
    and "encrypt_field A R pt key record_id field_name s = (Ok field, s')"
  shows "decrypt_field A field key record_id field_name = Ok pt"
  using field_box.roundtrip [of A key R pt "(record_id, field_name)" s field s'] assms by simp

theorem field_decrypts_to_plaintext_witness:
  "\<exists>f. encrypt_field ref_aead ref_rng [9] (replicate 32 1) ''ab'' ''cd'' 0 = (Ok f, 12) \<and>
    decrypt_field ref_aead f (replicate 32 1) ''ab'' ''cd'' = Ok [9]"
proof (rule ref_field [of "[9]"])
  fix f
  assume f: "encrypt_field ref_aead ref_rng [9] (replicate 32 1) ''ab'' ''cd'' 0 = (Ok f, 12)"
  from field_decrypts_to_plaintext [OF ref_gcm_laws(1) length_replicate f] f show ?thesis by blast
qed

text \<open>
  C26: a field is bound to its place. A field sealed for one (record, field) pair and presented for
  another opens only if AES-GCM accepts its ciphertext under AAD bytes different from those it was
  made with.
\<close>

theorem transplanted_field_needs_forgery:
  assumes "encrypt_field A R pt key record_id field_name s = (Ok field, s')"
    and "decrypt_field A field key record_id' field_name' = Ok pt'"
    and "(record_id', field_name') \<noteq> (record_id, field_name)"
  shows "\<exists>aad aad' m m'. field_aad record_id field_name = Ok aad \<and> field_aad record_id' field_name' = Ok aad' \<and>
    aad' \<noteq> aad \<and> gcm_encrypt A key (field_iv field) m aad = Some (ciphertext field) \<and>
    gcm_decrypt A key (field_iv field) (ciphertext field) aad' = Some m'"
proof -
  let ?c = "(record_id, field_name)" and ?c' = "(record_id', field_name')"
  have s: "seal_field A R pt key ?c s = (Ok field, s')" and u: "unseal_field A field key ?c' = Ok pt'"
    using assms(1,2) by simp_all
  show ?thesis
    using field_box.transplant_needs_forgery [OF s u assms(3)] field_box.seal_ctx_ok [OF s]
      field_box.unseal_ctx_ok [OF u] field_aad_ctx [of ?c] field_aad_ctx [of ?c'] by auto
qed

theorem transplanted_field_needs_forgery_witness:
  "\<exists>f aad aad' m m'. encrypt_field ref_aead ref_rng [9] (replicate 32 1) ''ab'' ''cd'' 0 = (Ok f, 12) \<and>
    field_aad ''ab'' ''cd'' = Ok aad \<and> field_aad ''ba'' ''cd'' = Ok aad' \<and> aad' \<noteq> aad \<and>
    gcm_encrypt ref_aead (replicate 32 1) (field_iv f) m aad = Some (ciphertext f) \<and>
    gcm_decrypt ref_aead (replicate 32 1) (field_iv f) (ciphertext f) aad' = Some m'"
proof (rule ref_field [of "[9]"])
  fix f
  assume f: "encrypt_field ref_aead ref_rng [9] (replicate 32 1) ''ab'' ''cd'' 0 = (Ok f, 12)"
  have valid: "valid_field_context (''ab'', ''cd'')" "valid_field_context (''ba'', ''cd'')"
    by (simp_all add: valid_field_context_def valid_context_def)
  have ok: "unseal_field ref_aead f (replicate 32 1) (''ab'', ''cd'') = Ok [9]"
    using field_box.roundtrip [of ref_aead "replicate 32 1" ref_rng "[9]" "(''ab'', ''cd'')" 0 f 12] f ref_gcm_laws(1) by simp
  have "sum_list (field_aad_bytes (''ab'', ''cd'')) = sum_list (field_aad_bytes (''ba'', ''cd''))"
    by (simp add: field_aad_bytes_def length_prefixed_def as_bytes_def)
  then have "ref_gcm_decrypt k n c (field_aad_bytes (''ab'', ''cd'')) = ref_gcm_decrypt k n c (field_aad_bytes (''ba'', ''cd''))"
    for k n c
    by (simp add: ref_gcm_decrypt_def ref_tag_def)
  then have "decrypt_field ref_aead f (replicate 32 1) ''ba'' ''cd'' = Ok [9]"
    using ok decrypt_field_eq [of ref_aead f "replicate 32 1" "(''ab'', ''cd'')"]
      decrypt_field_eq [of ref_aead f "replicate 32 1" "(''ba'', ''cd'')"] valid by simp
  from transplanted_field_needs_forgery [OF f this] f show ?thesis by auto
qed

text \<open>
  Field operations never panic, and an invalid identifier or name is refused with \<open>InvalidContext\<close>
  before randomness is drawn or the cipher is used. Otherwise the failures are those of the random
  source and the cipher.
\<close>

theorem field_errors:
  "(case encrypt_field A R pt key record_id field_name s of
      (Ok f, _) \<Rightarrow> valid_context record_id \<and> valid_context field_name \<and> length (field_iv f) = 12
    | (Err e, s') \<Rightarrow>
        (if valid_context record_id \<and> valid_context field_name then e = Randomness \<or> e = Aead
         else e = InvalidContext \<and> s' = s)
    | (Panic, _) \<Rightarrow> False) \<and>
   (case decrypt_field A field key record_id field_name of
      Ok _ \<Rightarrow> valid_context record_id \<and> valid_context field_name
    | Err e \<Rightarrow> e = (if valid_context record_id \<and> valid_context field_name then Aead else InvalidContext)
    | Panic \<Rightarrow> False)"
proof -
  let ?c = "(record_id, field_name)"
  have v: "valid_field_context ?c \<longleftrightarrow> valid_context record_id \<and> valid_context field_name"
    by (simp add: valid_field_context_def)
  obtain r s1 where e: "encrypt_field A R pt key record_id field_name s = (r, s1)" by (metis surj_pair)
  then have e': "seal_field A R pt key ?c s = (r, s1)" by simp
  have u': "unseal_field A field key ?c = decrypt_field A field key record_id field_name" by simp
  have enc: "case r of
      Ok f \<Rightarrow> valid_context record_id \<and> valid_context field_name \<and> length (field_iv f) = 12
    | Err e \<Rightarrow>
        (if valid_context record_id \<and> valid_context field_name then e = Randomness \<or> e = Aead
         else e = InvalidContext \<and> s1 = s)
    | Panic \<Rightarrow> False"
    using field_box.seal_invalid [of ?c A R pt key s] field_box.seal_errors [of ?c A R pt key s]
      field_box.seal_no_panic [of A R pt key ?c s s1] encrypt_field_Ok(1,2) [of A R pt key ?c s] v
    unfolding e' by (cases r) auto
  have "case decrypt_field A field key record_id field_name of
      Ok _ \<Rightarrow> valid_context record_id \<and> valid_context field_name
    | Err e \<Rightarrow> e = (if valid_context record_id \<and> valid_context field_name then Aead else InvalidContext)
    | Panic \<Rightarrow> False"
    using decrypt_field_eq [of A field key ?c] v unfolding u' by (simp split: outcome.split)
  with enc show ?thesis unfolding e by (cases r) simp_all
qed

end
