(* ===== verification/Filum_Kdf.thy ===== *)
theory Filum_Kdf
  imports Filum_Instances
begin

text \<open>
  Subkey derivation (\<open>kdf.rs\<close>): the three context strings and \<open>derive_subkey\<close>, over the HKDF
  parameter of \<open>Filum_Crates\<close>.
\<close>

definition WRAP_CTX :: bytes where
  "WRAP_CTX = as_bytes ''filer-crypto/v1/wrap''"

definition METADATA_CTX :: bytes where
  "METADATA_CTX = as_bytes ''filer-crypto/v1/metadata''"

definition SIGN_CTX :: bytes where
  "SIGN_CTX = as_bytes ''filer-crypto/v1/sign''"

text \<open>The \<open>out\<close> slice is overwritten in place; its length is the requested output length.\<close>

definition derive_subkey :: "hkdf \<Rightarrow> bytes \<Rightarrow> bytes \<Rightarrow> bytes \<Rightarrow> bytes Result" where
  "derive_subkey H secret info out =
     (case H secret info (length out) of
        None \<Rightarrow> Err InvalidKeyLength
      | Some f \<Rightarrow> Ok (map f [0..<length out]))"

lemma derive_subkey_length: "derive_subkey H secret info out = Ok key \<Longrightarrow> length key = length out"
  by (auto simp: derive_subkey_def split: option.splits)

lemma derive_subkey_cases:
  "(\<exists>key. derive_subkey H secret info out = Ok key) \<or> derive_subkey H secret info out = Err InvalidKeyLength"
  by (auto simp: derive_subkey_def split: option.split)

lemma derive_subkey_limit:
  "hkdf_limit H \<Longrightarrow> derive_subkey H secret info out = Err InvalidKeyLength \<longleftrightarrow> 8160 < length out"
  by (auto simp: derive_subkey_def hkdf_limit_def split: option.split)
     (metis option.distinct(1))

lemma contexts_distinct: "distinct [WRAP_CTX, METADATA_CTX, SIGN_CTX]"
  by (simp add: WRAP_CTX_def METADATA_CTX_def SIGN_CTX_def)

text \<open>
  No context string is a prefix of another, so the three derivations stay separate even if HKDF's
  info input were extended on the right.
\<close>

lemma contexts_prefix_free:
  "WRAP_CTX @ r \<noteq> METADATA_CTX @ s" "WRAP_CTX @ r \<noteq> SIGN_CTX @ s" "METADATA_CTX @ r \<noteq> SIGN_CTX @ s"
  by (simp_all add: WRAP_CTX_def METADATA_CTX_def SIGN_CTX_def as_bytes_def)

text \<open>
  Subkey derivation. A derived key fills exactly the requested length; derivation fails, with
  \<open>InvalidKeyLength\<close>, exactly beyond the HKDF limit of 255 blocks; and the three context strings are
  pairwise different and prefix-free, so the vault's keys come from different HKDF inputs.
\<close>

theorem subkey_derivation:
  assumes "hkdf_limit H"
  shows "(length out \<le> 8160 \<longrightarrow> (\<exists>key. derive_subkey H secret info out = Ok key \<and> length key = length out)) \<and>
    (8160 < length out \<longrightarrow> derive_subkey H secret info out = Err InvalidKeyLength) \<and>
    WRAP_CTX @ x \<noteq> METADATA_CTX @ y \<and> WRAP_CTX @ x \<noteq> SIGN_CTX @ y \<and> METADATA_CTX @ x \<noteq> SIGN_CTX @ y"
proof -
  have "(\<exists>key. derive_subkey H secret info out = Ok key \<and> length key = length out) \<longleftrightarrow> length out \<le> 8160"
    using derive_subkey_limit [OF assms, of secret info out] derive_subkey_cases [of H secret info out]
      derive_subkey_length [of H secret info out] by (auto simp: not_less)
  then show ?thesis
    using derive_subkey_limit [OF assms, of secret info out] contexts_prefix_free by simp
qed

theorem subkey_derivation_witness:
  "(\<exists>key. derive_subkey ref_hkdf [1] WRAP_CTX (replicate 32 0) = Ok key \<and> length key = 32) \<and>
    derive_subkey ref_hkdf [1] WRAP_CTX (replicate 8161 0) = Err InvalidKeyLength"
  using subkey_derivation [OF ref_hkdf_limit, of "replicate 32 0" "[1]" WRAP_CTX "[]" "[]"]
    subkey_derivation [OF ref_hkdf_limit, of "replicate 8161 0" "[1]" WRAP_CTX "[]" "[]"] by simp

end
