(* ===== verification/Filum_Auth.thy ===== *)
theory Filum_Auth
  imports Filum_Instances
begin

text \<open>
  Device signatures (\<open>auth.rs\<close>): domain-separated framing, signing and verification, over the
  Ed25519 parameter of \<open>Filum_Crates\<close>.
\<close>

subsection \<open>Definitions\<close>

record DeviceSignature =
  sig_bytes :: bytes

definition ATTEST_DOMAIN :: bytes where
  "ATTEST_DOMAIN = as_bytes ''filum-crypto/v1/attest''"

text \<open>\<open>ATTEST_DOMAIN.len() as u8\<close>; the \<open>debug_assert!\<close> of the source is \<open>attest_domain_fits\<close> below.\<close>

definition domain_separated :: "bytes \<Rightarrow> bytes" where
  "domain_separated message = [word_of_nat (length ATTEST_DOMAIN)] @ ATTEST_DOMAIN @ message"

definition signing_key_from_seed :: "('sk, 'vk) ed_lib \<Rightarrow> bytes \<Rightarrow> 'sk" where
  "signing_key_from_seed E seed = sk_from_bytes E seed"

definition sign_challenge :: "('sk, 'vk) ed_lib \<Rightarrow> 'sk \<Rightarrow> bytes \<Rightarrow> DeviceSignature" where
  "sign_challenge E key message = \<lparr> sig_bytes = sk_sign E key (domain_separated message) \<rparr>"

definition public_key_bytes :: "('sk, 'vk) ed_lib \<Rightarrow> 'sk \<Rightarrow> bytes" where
  "public_key_bytes E key = sk_public E key"

definition verify_signature :: "('sk, 'vk) ed_lib \<Rightarrow> bytes \<Rightarrow> bytes \<Rightarrow> bytes \<Rightarrow> unit Result" where
  "verify_signature E public_key message signature =
     res_bind (ok_or InvalidSignature (vk_from_bytes E public_key)) (\<lambda>vk.
     if vk_verify_strict E vk (domain_separated message) signature then Ok ()
     else Err InvalidSignature)"

text \<open>
  \<open>impl Debug for DeviceSignature\<close>: the redacted text, whatever the bytes.
\<close>

definition debug_fmt :: "DeviceSignature \<Rightarrow> string" where
  "debug_fmt s = ''DeviceSignature { bytes: '' @ [CHR 0x22] @ ''<redacted>'' @ [CHR 0x22] @ '' }''"

text \<open>The framing with any domain tag: a length byte, the tag, then the message.\<close>

definition domain_frame :: "bytes \<Rightarrow> bytes" where
  "domain_frame tag = [word_of_nat (length tag)] @ tag"

subsection \<open>The framing is unambiguous\<close>

interpretation frame: self_delimiting domain_frame "\<lambda>tag. length tag \<le> 255"
proof
  fix x y r s :: bytes
  assume len: "length x \<le> 255" "length y \<le> 255" and eq: "domain_frame x @ r = domain_frame y @ s"
  then have "(word_of_nat (length x) :: u8) = word_of_nat (length y)" and rest: "x @ r = y @ s"
    by (simp_all add: domain_frame_def)
  then have "length x = length y"
    using len by (simp add: word_of_nat_eq_iff take_bit_nat_eq_self)
  with rest show "x = y \<and> r = s" by simp
qed

lemma attest_domain_fits: "length ATTEST_DOMAIN = 22" "length ATTEST_DOMAIN \<le> 255"
  by (simp_all add: ATTEST_DOMAIN_def)

lemma domain_separated_frame: "domain_separated message = domain_frame ATTEST_DOMAIN @ message"
  by (simp add: domain_separated_def domain_frame_def)

lemma domain_separated_inject [simp]: "domain_separated m = domain_separated m' \<longleftrightarrow> m = m'"
  by (simp add: domain_separated_def)

lemma verify_signature_eq:
  "verify_signature E pk msg sig =
     (case vk_from_bytes E pk of
        None \<Rightarrow> Err InvalidSignature
      | Some vk \<Rightarrow> if vk_verify_strict E vk (domain_separated msg) sig then Ok () else Err InvalidSignature)"
  by (simp add: verify_signature_def split: option.split)

lemma sign_then_verify:
  assumes "ed_correct E" "length seed = 32"
  shows "verify_signature E (public_key_bytes E (signing_key_from_seed E seed)) msg
    (sig_bytes (sign_challenge E (signing_key_from_seed E seed) msg)) = Ok ()"
  using assms unfolding ed_correct_def
  by (fastforce simp: verify_signature_eq public_key_bytes_def signing_key_from_seed_def sign_challenge_def)

subsection \<open>Properties\<close>

text \<open>
  Signatures verify. A challenge signed by a device key verifies under that key's public bytes, for
  any message; the signature is 64 bytes and the public key 32.
\<close>

theorem signed_challenge_verifies:
  assumes "ed_correct E" "ed_sizes E" "length seed = 32"
  shows "verify_signature E (public_key_bytes E (signing_key_from_seed E seed)) message
      (sig_bytes (sign_challenge E (signing_key_from_seed E seed) message)) = Ok () \<and>
    length (sig_bytes (sign_challenge E (signing_key_from_seed E seed) message)) = 64 \<and>
    length (public_key_bytes E (signing_key_from_seed E seed)) = 32"
  using sign_then_verify [OF assms(1,3)] assms(2)
  by (simp add: ed_sizes_def sign_challenge_def public_key_bytes_def)

theorem signed_challenge_verifies_witness:
  "verify_signature ref_ed (public_key_bytes ref_ed (signing_key_from_seed ref_ed (replicate 32 5))) [1, 2]
      (sig_bytes (sign_challenge ref_ed (signing_key_from_seed ref_ed (replicate 32 5)) [1, 2])) = Ok ()"
  using signed_challenge_verifies [OF ref_ed_laws length_replicate, of 5 "[1, 2]"] by blast

text \<open>
  C37: attestation signatures are domain-separated. Different messages give different signed bytes, and
  the signed bytes differ from every framing under another domain tag of at most 255 bytes, so a
  signature made for one purpose is never over the bytes of another; verification has the single
  failure \<open>InvalidSignature\<close> and never panics.
\<close>

theorem attestation_domain_separated:
  assumes "length tag \<le> 255" "tag \<noteq> ATTEST_DOMAIN" "message \<noteq> message'"
  shows "domain_separated message \<noteq> domain_frame tag @ other \<and> domain_separated message \<noteq> domain_separated message' \<and>
    (verify_signature E pk message sig = Ok () \<or> verify_signature E pk message sig = Err InvalidSignature)"
proof -
  have "domain_separated message \<noteq> domain_frame tag @ other"
    using frame.delimited [OF attest_domain_fits(2) assms(1), of message other] assms(2)
    by (auto simp: domain_separated_frame)
  then show ?thesis using assms(3) by (auto simp: verify_signature_eq split: option.split)
qed

theorem attestation_domain_separated_witness:
  "domain_separated [1] \<noteq> domain_frame [2] @ [3] \<and> domain_separated [1] \<noteq> domain_separated [4] \<and>
    (verify_signature ref_ed [] [1] [] = Ok () \<or> verify_signature ref_ed [] [1] [] = Err InvalidSignature)"
  by (rule attestation_domain_separated) (simp_all add: ATTEST_DOMAIN_def as_bytes_def)

end
