(* ===== verification/Filum_Recovery.thy ===== *)
theory Filum_Recovery
  imports Filum_Instances
begin

text \<open>
  Master secrets and recovery phrases (\<open>recovery.rs\<close>), over the BIP39 and random-source parameters.
  The wiping of the intermediate entropy buffer has no effect on results; it is in \<open>Filum_Secrets\<close>.
\<close>

definition generate_master_secret :: "'r rng \<Rightarrow> ('r, FilumCryptoError, bytes) st" where
  "generate_master_secret R = fill_random R (replicate 32 0)"

definition secret_to_phrase :: "'m bip39_lib \<Rightarrow> bytes \<Rightarrow> string Result" where
  "secret_to_phrase B secret =
     res_bind (ok_or InvalidKeyLength (from_entropy B secret)) (\<lambda>mnemonic.
     Ok (mnemonic_to_string B mnemonic))"

definition phrase_to_secret :: "'m bip39_lib \<Rightarrow> string \<Rightarrow> bytes Result" where
  "phrase_to_secret B phrase =
     res_bind (ok_or InvalidPhrase (parse B phrase)) (\<lambda>mnemonic.
     let entropy = to_entropy B mnemonic in
     if length entropy \<noteq> 32 then Err InvalidPhrase
     else copy_from_slice (replicate 32 0) entropy)"

lemma phrase_to_secret_eq:
  "phrase_to_secret B phrase =
     (case parse B phrase of
        None \<Rightarrow> Err InvalidPhrase
      | Some m \<Rightarrow> if length (to_entropy B m) = 32 then Ok (to_entropy B m) else Err InvalidPhrase)"
  by (auto simp: phrase_to_secret_def Let_def slice_simps split: option.split)

lemma phrase_to_secret_length: "phrase_to_secret B phrase = Ok secret \<Longrightarrow> length secret = 32"
  by (auto simp: phrase_to_secret_eq split: option.splits if_splits)

lemma phrase_roundtrip:
  assumes "bip39_correct B" "length secret = 32"
  obtains phrase where "secret_to_phrase B secret = Ok phrase" "phrase_to_secret B phrase = Ok secret"
  using assms unfolding bip39_correct_def
  by (fastforce simp: secret_to_phrase_def phrase_to_secret_eq)

text \<open>
  Recovery phrases. Every 32-byte secret has a phrase, and the phrase gives back the secret.
\<close>

theorem recovery_phrase_roundtrip:
  assumes "bip39_correct B" "length secret = 32"
  shows "\<exists>phrase. secret_to_phrase B secret = Ok phrase \<and> phrase_to_secret B phrase = Ok secret"
  using phrase_roundtrip [OF assms] by blast

theorem recovery_phrase_roundtrip_witness:
  "\<exists>phrase. secret_to_phrase ref_bip39 (replicate 32 3) = Ok phrase \<and>
    phrase_to_secret ref_bip39 phrase = Ok (replicate 32 3)"
  by (rule recovery_phrase_roundtrip [OF ref_bip39_correct length_replicate])

text \<open>
  C38: recovery never yields a secret of another length. A phrase that does not parse, or that encodes
  entropy of another length (a 12-word phrase, say), is refused with \<open>InvalidPhrase\<close>, without a panic;
  a generated secret has 32 bytes, or the random source failed.
\<close>

theorem recovery_yields_32_bytes:
  "(case phrase_to_secret B phrase of
      Ok secret \<Rightarrow> length secret = 32 \<and> (\<exists>m. parse B phrase = Some m \<and> to_entropy B m = secret)
    | Err e \<Rightarrow> e = InvalidPhrase \<and> \<not> (\<exists>m. parse B phrase = Some m \<and> length (to_entropy B m) = 32)
    | Panic \<Rightarrow> False) \<and>
   (case generate_master_secret R s of
      (Ok secret, _) \<Rightarrow> length secret = 32 | (Err e, _) \<Rightarrow> e = Randomness | (Panic, _) \<Rightarrow> False)"
  using fill_random_cases [of R "replicate 32 0" s]
  by (auto simp: phrase_to_secret_eq generate_master_secret_def split: option.split)

end
