(* ===== verification/Filum_Vault.thy ===== *)
theory Filum_Vault
  imports Filum_Blob_File Filum_Metadata Filum_Kdf Filum_Auth Filum_Recovery Filum_Instances
begin

text \<open>
  The vault (\<open>vault.rs\<close>): the three subkeys derived from a master secret, and the operations on them.
  No operation changes a vault; the operations that draw randomness or touch files pass the state of
  the random source or the world.
\<close>

subsection \<open>Definitions\<close>

record 'sk Vault =
  wrap_key :: bytes
  metadata_key :: bytes
  signing_key :: 'sk

definition Vault_open :: "hkdf \<Rightarrow> ('sk, 'vk) ed_lib \<Rightarrow> bytes \<Rightarrow> 'sk Vault Result" where
  "Vault_open H E master_secret =
     res_bind (derive_subkey H master_secret WRAP_CTX (replicate 32 0)) (\<lambda>wk.
     res_bind (derive_subkey H master_secret METADATA_CTX (replicate 32 0)) (\<lambda>mk.
     res_bind (derive_subkey H master_secret SIGN_CTX (replicate 32 0)) (\<lambda>sign_seed.
     Ok \<lparr> wrap_key = wk, metadata_key = mk, signing_key = signing_key_from_seed E sign_seed \<rparr>)))"

definition Vault_from_recovery_phrase ::
  "'m bip39_lib \<Rightarrow> hkdf \<Rightarrow> ('sk, 'vk) ed_lib \<Rightarrow> string \<Rightarrow> 'sk Vault Result" where
  "Vault_from_recovery_phrase B H E phrase =
     res_bind (phrase_to_secret B phrase) (\<lambda>secret. Vault_open H E secret)"

definition Vault_encrypt_blob ::
  "('e, 'd) aead_lib \<Rightarrow> 'r rng \<Rightarrow> 'sk Vault \<Rightarrow> bytes \<Rightarrow> string \<Rightarrow> ('r, FilumCryptoError, bytes) st" where
  "Vault_encrypt_blob A R v plaintext blob_id = encrypt_chunked A R plaintext (wrap_key v) blob_id"

definition Vault_decrypt_blob :: "('e, 'd) aead_lib \<Rightarrow> 'sk Vault \<Rightarrow> bytes \<Rightarrow> string \<Rightarrow> bytes Result" where
  "Vault_decrypt_blob A v framed blob_id = decrypt_chunked A framed (wrap_key v) blob_id"

definition Vault_encrypt_file_to_blob ::
  "('e, 'd) aead_lib \<Rightarrow> 'r rng \<Rightarrow> os \<Rightarrow> 'sk Vault \<Rightarrow> string \<Rightarrow> string \<Rightarrow> string
     \<Rightarrow> ('r world, FilumCryptoError, unit) io" where
  "Vault_encrypt_file_to_blob A R os v in_path out_path blob_id =
     encrypt_file_chunked A R os (components in_path) (components out_path) (wrap_key v) blob_id"

definition Vault_decrypt_blob_to_file ::
  "('e, 'd) aead_lib \<Rightarrow> 'r rng \<Rightarrow> os \<Rightarrow> 'sk Vault \<Rightarrow> string \<Rightarrow> string \<Rightarrow> string
     \<Rightarrow> ('r world, FilumCryptoError, unit) io" where
  "Vault_decrypt_blob_to_file A R os v in_path out_path blob_id =
     decrypt_file_chunked A R os (components in_path) (components out_path) (wrap_key v) blob_id"

definition Vault_encrypt_metadata_field ::
  "('e, 'd) aead_lib \<Rightarrow> 'r rng \<Rightarrow> 'sk Vault \<Rightarrow> bytes \<Rightarrow> string \<Rightarrow> string
     \<Rightarrow> ('r, FilumCryptoError, EncryptedField) st" where
  "Vault_encrypt_metadata_field A R v plaintext record_id field_name =
     encrypt_field A R plaintext (metadata_key v) record_id field_name"

definition Vault_decrypt_metadata_field ::
  "('e, 'd) aead_lib \<Rightarrow> 'sk Vault \<Rightarrow> EncryptedField \<Rightarrow> string \<Rightarrow> string \<Rightarrow> bytes Result" where
  "Vault_decrypt_metadata_field A v field record_id field_name =
     decrypt_field A field (metadata_key v) record_id field_name"

definition Vault_sign_challenge :: "('sk, 'vk) ed_lib \<Rightarrow> 'sk Vault \<Rightarrow> bytes \<Rightarrow> DeviceSignature" where
  "Vault_sign_challenge E v nonce = sign_challenge E (signing_key v) nonce"

definition Vault_device_public_key :: "('sk, 'vk) ed_lib \<Rightarrow> 'sk Vault \<Rightarrow> bytes" where
  "Vault_device_public_key E v = public_key_bytes E (signing_key v)"

text \<open>What every vault satisfies: 32-byte keys, and a signing key made from a 32-byte seed.\<close>

definition wf_vault :: "('sk, 'vk) ed_lib \<Rightarrow> 'sk Vault \<Rightarrow> bool" where
  "wf_vault E v \<longleftrightarrow> length (wrap_key v) = 32 \<and> length (metadata_key v) = 32 \<and>
     (\<exists>seed. length seed = 32 \<and> signing_key v = signing_key_from_seed E seed)"

subsection \<open>Opening a vault\<close>

lemma Vault_open_Ok:
  assumes "Vault_open H E secret = Ok v"
  obtains seed where "derive_subkey H secret WRAP_CTX (replicate 32 0) = Ok (wrap_key v)"
    "derive_subkey H secret METADATA_CTX (replicate 32 0) = Ok (metadata_key v)"
    "derive_subkey H secret SIGN_CTX (replicate 32 0) = Ok seed" "signing_key v = signing_key_from_seed E seed"
  using assms by (auto simp: Vault_open_def res_bind_eq_Ok)

lemma Vault_open_wf:
  assumes "Vault_open H E secret = Ok v"
  shows "wf_vault E v"
proof -
  obtain seed where s: "derive_subkey H secret WRAP_CTX (replicate 32 0) = Ok (wrap_key v)"
    "derive_subkey H secret METADATA_CTX (replicate 32 0) = Ok (metadata_key v)"
    "derive_subkey H secret SIGN_CTX (replicate 32 0) = Ok seed" "signing_key v = signing_key_from_seed E seed"
    using Vault_open_Ok [OF assms] .
  then show ?thesis using s(1-3) [THEN derive_subkey_length] by (auto simp: wf_vault_def)
qed

lemma Vault_open_succeeds:
  assumes "hkdf_limit H"
  obtains v where "Vault_open H E secret = Ok v"
proof -
  have "\<exists>key. derive_subkey H secret info (replicate 32 0) = Ok key" for info
    using derive_subkey_limit [OF assms, of secret info "replicate 32 0"]
      derive_subkey_cases [of H secret info "replicate 32 0"] by auto
  then obtain k1 k2 k3 where "derive_subkey H secret WRAP_CTX (replicate 32 0) = Ok k1"
    "derive_subkey H secret METADATA_CTX (replicate 32 0) = Ok k2" "derive_subkey H secret SIGN_CTX (replicate 32 0) = Ok k3"
    by metis
  then show thesis using that by (simp add: Vault_open_def)
qed

lemma Vault_open_errors:
  "Vault_open H E secret \<noteq> Panic" "Vault_open H E secret = Err e \<Longrightarrow> e = InvalidKeyLength"
  using derive_subkey_cases [of H secret]
  by (auto simp: Vault_open_def res_bind_eq_Panic res_bind_eq_Err)
    (metis outcome.distinct outcome.inject)+

lemma Vault_from_phrase:
  assumes "bip39_correct B" "length secret = 32"
  obtains phrase where "secret_to_phrase B secret = Ok phrase"
    "Vault_from_recovery_phrase B H E phrase = Vault_open H E secret"
  using phrase_roundtrip [OF assms] by (metis Vault_from_recovery_phrase_def res_bind_simps(1))

subsection \<open>Properties\<close>

text \<open>
  C35: opening a vault. A vault opens from every master secret; its keys are 32 bytes, derived from the
  secret under the three different HKDF contexts and under nothing else, so equal secrets give equal
  vaults.
\<close>

theorem vault_opens:
  assumes "hkdf_limit H"
  shows "\<exists>v seed. Vault_open H E secret = Ok v \<and> wf_vault E v \<and>
    derive_subkey H secret WRAP_CTX (replicate 32 0) = Ok (wrap_key v) \<and>
    derive_subkey H secret METADATA_CTX (replicate 32 0) = Ok (metadata_key v) \<and>
    derive_subkey H secret SIGN_CTX (replicate 32 0) = Ok seed \<and> signing_key v = signing_key_from_seed E seed \<and>
    distinct [WRAP_CTX, METADATA_CTX, SIGN_CTX]"
proof -
  obtain v where v: "Vault_open H E secret = Ok v" using Vault_open_succeeds [OF assms] .
  show ?thesis using Vault_open_Ok [OF v] Vault_open_wf [OF v] v contexts_distinct by metis
qed

theorem vault_opens_witness:
  "\<exists>v. Vault_open ref_hkdf ref_ed (replicate 32 4) = Ok v \<and> wf_vault ref_ed v"
  using vault_opens [OF ref_hkdf_limit, of ref_ed "replicate 32 4"] by blast

text \<open>
  C22: a recovered vault is the same vault. The phrase of a vault's secret opens a vault that decrypts the
  blobs and fields the first one sealed and whose public key verifies its signatures.
\<close>

theorem recovered_vault_reads_everything:
  assumes "bip39_correct B" "gcm_correct A" "stream_correct A" "stream_tag16 A" "ed_correct E" "length secret = 32"
    and "Vault_open H E secret = Ok v"
    and "Vault_encrypt_blob A R v pt blob_id s = (Ok framed, s')"
    and "Vault_encrypt_metadata_field A R v m record_id field_name t = (Ok field, t')"
  shows "\<exists>phrase v'. secret_to_phrase B secret = Ok phrase \<and> Vault_from_recovery_phrase B H E phrase = Ok v' \<and>
    Vault_decrypt_blob A v' framed blob_id = Ok pt \<and>
    Vault_decrypt_metadata_field A v' field record_id field_name = Ok m \<and>
    verify_signature E (Vault_device_public_key E v') nonce (sig_bytes (Vault_sign_challenge E v nonce)) = Ok ()"
proof -
  obtain phrase where ph: "secret_to_phrase B secret = Ok phrase" "Vault_from_recovery_phrase B H E phrase = Ok v"
    using Vault_from_phrase [OF assms(1,6)] assms(7) by metis
  have wf: "length (wrap_key v) = 32" "length (metadata_key v) = 32"
    and "\<exists>seed. length seed = 32 \<and> signing_key v = signing_key_from_seed E seed"
    using Vault_open_wf [OF assms(7)] by (simp_all add: wf_vault_def)
  then obtain seed where "length seed = 32" "signing_key v = signing_key_from_seed E seed" by blast
  then have "verify_signature E (Vault_device_public_key E v) nonce (sig_bytes (Vault_sign_challenge E v nonce)) = Ok ()"
    using sign_then_verify [OF assms(5)] by (simp add: Vault_device_public_key_def Vault_sign_challenge_def)
  moreover have "Vault_decrypt_blob A v framed blob_id = Ok pt"
    using blob_box.roundtrip [OF _ wf(1) assms(8) [unfolded Vault_encrypt_blob_def]] assms(2-4)
    by (simp add: Vault_decrypt_blob_def aead_lawful_def)
  moreover have "Vault_decrypt_metadata_field A v field record_id field_name = Ok m"
    using field_box.roundtrip [OF assms(2) wf(2), of R m "(record_id, field_name)" t field t'] assms(9)
    by (simp add: Vault_decrypt_metadata_field_def Vault_encrypt_metadata_field_def)
  ultimately show ?thesis using ph by blast
qed

lemma ref_vault_seals:
  assumes "wf_vault E v"
  obtains framed s field t where "Vault_encrypt_blob ref_aead ref_rng v [1] ''ab'' 0 = (Ok framed, s)"
    "Vault_encrypt_metadata_field ref_aead ref_rng v [2] ''ab'' ''cd'' 0 = (Ok field, t)"
proof -
  have len: "length (wrap_key v) = 32" using assms by (simp add: wf_vault_def)
  have valid: "valid_context ''ab''" "valid_field_context (''ab'', ''cd'')"
    by (simp_all add: valid_context_def valid_field_context_def)
  have small: "length [1 :: u8] < 2 ^ 32 * CHUNK_SIZE" by (simp add: CHUNK_SIZE_def)
  obtain framed s where b: "encrypt_chunked ref_aead ref_rng [1] (wrap_key v) ''ab'' 0 = (Ok framed, s)"
    by (rule encrypt_chunked_succeeds [OF ref_rng_available ref_gcm_laws(4,3) ref_stream_laws(4) len valid(1) small])
  have "\<exists>field t. encrypt_field ref_aead ref_rng [2] (metadata_key v) ''ab'' ''cd'' 0 = (Ok field, t)"
    using encrypt_field_eq [of ref_aead ref_rng "[2]" "metadata_key v" "(''ab'', ''cd'')" 0] valid(2)
    by (simp add: fill_random_def ref_rng_def ref_gcm_encrypt_def)
  then show thesis
    using that b by (auto simp: Vault_encrypt_blob_def Vault_encrypt_metadata_field_def)
qed

theorem recovered_vault_reads_everything_witness:
  "\<exists>v framed phrase v'. Vault_open ref_hkdf ref_ed (replicate 32 4) = Ok v \<and>
    secret_to_phrase ref_bip39 (replicate 32 4) = Ok phrase \<and>
    Vault_from_recovery_phrase ref_bip39 ref_hkdf ref_ed phrase = Ok v' \<and>
    Vault_decrypt_blob ref_aead v' framed ''ab'' = Ok [1]"
proof (rule Vault_open_succeeds [OF ref_hkdf_limit, of ref_ed "replicate 32 4"])
  fix v
  assume v: "Vault_open ref_hkdf ref_ed (replicate 32 4) = Ok v"
  show ?thesis
  proof (rule ref_vault_seals [OF Vault_open_wf [OF v]])
    fix framed s field t
    assume "Vault_encrypt_blob ref_aead ref_rng v [1] ''ab'' 0 = (Ok framed, s)"
      "Vault_encrypt_metadata_field ref_aead ref_rng v [2] ''ab'' ''cd'' 0 = (Ok field, t)"
    from recovered_vault_reads_everything [OF ref_bip39_correct ref_gcm_laws(1) ref_stream_laws(1,3) ref_ed_laws(1)
        length_replicate v this] v
    show ?thesis by blast
  qed
qed

text \<open>
  Vaults are isolated. A blob sealed by one vault opens in another only if AES-GCM accepts, under the
  other vault's wrapping key, the very wrapped data key in its header that was made under the first
  one's: a vault from another secret reads nothing without such a coincidence.
\<close>

theorem vault_isolation:
  assumes "Vault_encrypt_blob A R v pt blob_id s = (Ok framed, s')"
    and "Vault_decrypt_blob A v' framed blob_id = Ok pt'"
  shows "\<exists>aad m m'. blob_wrap_aad blob_id VERSION (take 7 (drop 61 framed)) chunk_size_be = Ok aad \<and>
    gcm_encrypt A (wrap_key v) (take 12 (drop 1 framed)) m aad = Some (take 48 (drop 13 framed)) \<and>
    gcm_decrypt A (wrap_key v') (take 12 (drop 1 framed)) (take 48 (drop 13 framed)) aad = Some m'"
proof -
  note s = assms(1) [unfolded Vault_encrypt_blob_def] and u = assms(2) [unfolded Vault_decrypt_blob_def]
  show ?thesis
    using blob_box.other_key_needs_forgery [OF s u] blob_box.seal_ctx_ok [OF s]
    by (auto simp: header_aad_def header_iv_def header_ct_def blob_wrap_aad_eq wrap_aad_bytes_def)
qed

theorem vault_isolation_witness:
  "\<exists>v framed aad m m'. Vault_open ref_hkdf ref_ed (replicate 32 4) = Ok v \<and>
    blob_wrap_aad ''ab'' VERSION (take 7 (drop 61 framed)) chunk_size_be = Ok aad \<and>
    gcm_encrypt ref_aead (wrap_key v) (take 12 (drop 1 framed)) m aad = Some (take 48 (drop 13 framed)) \<and>
    gcm_decrypt ref_aead (wrap_key v) (take 12 (drop 1 framed)) (take 48 (drop 13 framed)) aad = Some m'"
proof (rule Vault_open_succeeds [OF ref_hkdf_limit, of ref_ed "replicate 32 4"])
  fix v
  assume v: "Vault_open ref_hkdf ref_ed (replicate 32 4) = Ok v"
  have len: "length (wrap_key v) = 32" using Vault_open_wf [OF v] by (simp add: wf_vault_def)
  show ?thesis
  proof (rule ref_vault_seals [OF Vault_open_wf [OF v]])
    fix framed s field t
    assume b: "Vault_encrypt_blob ref_aead ref_rng v [1] ''ab'' 0 = (Ok framed, s)"
    have "Vault_decrypt_blob ref_aead v framed ''ab'' = Ok [1]"
      using blob_box.roundtrip [OF _ len b [unfolded Vault_encrypt_blob_def]] ref_aead_laws
      by (simp add: Vault_decrypt_blob_def aead_lawful_def)
    from vault_isolation [OF b this] v show ?thesis by blast
  qed
qed

end
