(* ===== verification/Filum_Ffi.thy ===== *)
theory Filum_Ffi
  imports Filum_Vault Filum_Decrypt_File
begin

text \<open>
  The binding layer (\<open>filum-crypto-uniffi/src/lib.rs\<close>): the types that cross the FFI, their conversions,
  and the wrappers. Lengths that the core has in its types are checked here.
\<close>

subsection \<open>Types and conversions\<close>

datatype Ffi_FilumCryptoError =
    Ffi_Aead
  | Ffi_InvalidPhrase
  | Ffi_InvalidContext
  | Ffi_InvalidKeyLength
  | Ffi_InvalidSignature
  | Ffi_Randomness
  | Ffi_Io

fun ffi_error_display :: "Ffi_FilumCryptoError \<Rightarrow> string" where
  "ffi_error_display Ffi_Aead = ''AEAD operation failed''"
| "ffi_error_display Ffi_InvalidPhrase = ''invalid recovery phrase''"
| "ffi_error_display Ffi_InvalidContext = ''invalid context identifier''"
| "ffi_error_display Ffi_InvalidKeyLength = ''invalid key length''"
| "ffi_error_display Ffi_InvalidSignature = ''invalid signature''"
| "ffi_error_display Ffi_Randomness = ''randomness source unavailable''"
| "ffi_error_display Ffi_Io = ''I/O error''"

type_synonym 'a Ffi_Result = "(Ffi_FilumCryptoError, 'a) outcome"

fun ffi_error_from :: "FilumCryptoError \<Rightarrow> Ffi_FilumCryptoError" where
  "ffi_error_from Aead = Ffi_Aead"
| "ffi_error_from InvalidPhrase = Ffi_InvalidPhrase"
| "ffi_error_from InvalidContext = Ffi_InvalidContext"
| "ffi_error_from InvalidKeyLength = Ffi_InvalidKeyLength"
| "ffi_error_from InvalidSignature = Ffi_InvalidSignature"
| "ffi_error_from Randomness = Ffi_Randomness"
| "ffi_error_from Io = Ffi_Io"

record Ffi_EncryptedField =
  ffi_ciphertext :: bytes
  ffi_iv :: bytes

definition ffi_field_from :: "EncryptedField \<Rightarrow> Ffi_EncryptedField" where
  "ffi_field_from f = \<lparr> ffi_ciphertext = ciphertext f, ffi_iv = field_iv f \<rparr>"

text \<open>\<open>Vec<u8>::try_into::<[u8; n]>()\<close>.\<close>

definition vec_try_into :: "nat \<Rightarrow> bytes \<Rightarrow> bytes option" where
  "vec_try_into n bs = (if length bs = n then Some bs else None)"

definition ffi_field_try_from :: "Ffi_EncryptedField \<Rightarrow> EncryptedField Ffi_Result" where
  "ffi_field_try_from f =
     res_bind (ok_or Ffi_InvalidKeyLength (vec_try_into 12 (ffi_iv f))) (\<lambda>iv.
     Ok \<lparr> ciphertext = ffi_ciphertext f, field_iv = iv \<rparr>)"

record Ffi_DeviceSignature =
  ffi_bytes :: bytes

definition ffi_signature_from :: "DeviceSignature \<Rightarrow> Ffi_DeviceSignature" where
  "ffi_signature_from s = \<lparr> ffi_bytes = sig_bytes s \<rparr>"

record 'sk Ffi_Vault =
  inner :: "'sk Vault"

definition vec_to_secret_array :: "bytes \<Rightarrow> bytes Ffi_Result" where
  "vec_to_secret_array bs =
     (if length bs \<noteq> 32 then Err Ffi_InvalidKeyLength else copy_from_slice (replicate 32 0) bs)"

definition io_map_err :: "('e \<Rightarrow> 'f) \<Rightarrow> ('s, 'e, 'a) io \<Rightarrow> ('s, 'f, 'a) io" where
  "io_map_err g m s = map_option (\<lambda>(r, s'). (map_err g r, s')) (m s)"

subsection \<open>Top-level functions\<close>

definition ffi_generate_master_secret :: "'r rng \<Rightarrow> ('r, Ffi_FilumCryptoError, bytes) st" where
  "ffi_generate_master_secret R =
     st_bind (st_map_err ffi_error_from (generate_master_secret R)) (\<lambda>secret. st_lift (Ok secret))"

definition ffi_secret_to_phrase :: "'m bip39_lib \<Rightarrow> bytes \<Rightarrow> string Ffi_Result" where
  "ffi_secret_to_phrase B secret =
     res_bind (vec_to_secret_array secret) (\<lambda>array. map_err ffi_error_from (secret_to_phrase B array))"

definition ffi_phrase_to_secret :: "'m bip39_lib \<Rightarrow> string \<Rightarrow> bytes Ffi_Result" where
  "ffi_phrase_to_secret B phrase =
     res_bind (map_err ffi_error_from (phrase_to_secret B phrase)) (\<lambda>secret. Ok secret)"

definition ffi_verify_signature ::
  "('sk, 'vk) ed_lib \<Rightarrow> bytes \<Rightarrow> bytes \<Rightarrow> bytes \<Rightarrow> unit Ffi_Result" where
  "ffi_verify_signature E public_key nonce signature =
     res_bind (ok_or Ffi_InvalidKeyLength (vec_try_into 32 public_key)) (\<lambda>pk.
     res_bind (ok_or Ffi_InvalidKeyLength (vec_try_into 64 signature)) (\<lambda>sig.
     map_err ffi_error_from (verify_signature E pk nonce sig)))"

subsection \<open>Vault methods\<close>

definition Ffi_Vault_open :: "hkdf \<Rightarrow> ('sk, 'vk) ed_lib \<Rightarrow> bytes \<Rightarrow> 'sk Ffi_Vault Ffi_Result" where
  "Ffi_Vault_open H E master_secret =
     res_bind (vec_to_secret_array master_secret) (\<lambda>array.
     res_bind (map_err ffi_error_from (Vault_open H E array)) (\<lambda>core.
     Ok \<lparr> inner = core \<rparr>))"

definition Ffi_Vault_from_recovery_phrase ::
  "'m bip39_lib \<Rightarrow> hkdf \<Rightarrow> ('sk, 'vk) ed_lib \<Rightarrow> string \<Rightarrow> 'sk Ffi_Vault Ffi_Result" where
  "Ffi_Vault_from_recovery_phrase B H E phrase =
     res_bind (map_err ffi_error_from (Vault_from_recovery_phrase B H E phrase)) (\<lambda>core.
     Ok \<lparr> inner = core \<rparr>)"

definition Ffi_Vault_encrypt_blob ::
  "('e, 'd) aead_lib \<Rightarrow> 'r rng \<Rightarrow> 'sk Ffi_Vault \<Rightarrow> bytes \<Rightarrow> string \<Rightarrow> ('r, Ffi_FilumCryptoError, bytes) st" where
  "Ffi_Vault_encrypt_blob A R v plaintext blob_id =
     st_map_err ffi_error_from (Vault_encrypt_blob A R (inner v) plaintext blob_id)"

definition Ffi_Vault_decrypt_blob ::
  "('e, 'd) aead_lib \<Rightarrow> 'sk Ffi_Vault \<Rightarrow> bytes \<Rightarrow> string \<Rightarrow> bytes Ffi_Result" where
  "Ffi_Vault_decrypt_blob A v framed blob_id =
     map_err ffi_error_from (Vault_decrypt_blob A (inner v) framed blob_id)"

definition Ffi_Vault_encrypt_file_to_blob ::
  "('e, 'd) aead_lib \<Rightarrow> 'r rng \<Rightarrow> os \<Rightarrow> 'sk Ffi_Vault \<Rightarrow> string \<Rightarrow> string \<Rightarrow> string
     \<Rightarrow> ('r world, Ffi_FilumCryptoError, unit) io" where
  "Ffi_Vault_encrypt_file_to_blob A R os v in_path out_path blob_id =
     io_map_err ffi_error_from (Vault_encrypt_file_to_blob A R os (inner v) in_path out_path blob_id)"

definition Ffi_Vault_decrypt_blob_to_file ::
  "('e, 'd) aead_lib \<Rightarrow> 'r rng \<Rightarrow> os \<Rightarrow> 'sk Ffi_Vault \<Rightarrow> string \<Rightarrow> string \<Rightarrow> string
     \<Rightarrow> ('r world, Ffi_FilumCryptoError, unit) io" where
  "Ffi_Vault_decrypt_blob_to_file A R os v in_path out_path blob_id =
     io_map_err ffi_error_from (Vault_decrypt_blob_to_file A R os (inner v) in_path out_path blob_id)"

definition Ffi_Vault_encrypt_metadata_field ::
  "('e, 'd) aead_lib \<Rightarrow> 'r rng \<Rightarrow> 'sk Ffi_Vault \<Rightarrow> bytes \<Rightarrow> string \<Rightarrow> string
     \<Rightarrow> ('r, Ffi_FilumCryptoError, Ffi_EncryptedField) st" where
  "Ffi_Vault_encrypt_metadata_field A R v plaintext record_id field_name =
     st_bind (st_map_err ffi_error_from (Vault_encrypt_metadata_field A R (inner v) plaintext record_id field_name))
       (\<lambda>core_field. st_lift (Ok (ffi_field_from core_field)))"

definition Ffi_Vault_decrypt_metadata_field ::
  "('e, 'd) aead_lib \<Rightarrow> 'sk Ffi_Vault \<Rightarrow> Ffi_EncryptedField \<Rightarrow> string \<Rightarrow> string \<Rightarrow> bytes Ffi_Result" where
  "Ffi_Vault_decrypt_metadata_field A v field record_id field_name =
     res_bind (ffi_field_try_from field) (\<lambda>core_field.
     map_err ffi_error_from (Vault_decrypt_metadata_field A (inner v) core_field record_id field_name))"

definition Ffi_Vault_sign_challenge :: "('sk, 'vk) ed_lib \<Rightarrow> 'sk Ffi_Vault \<Rightarrow> bytes \<Rightarrow> Ffi_DeviceSignature" where
  "Ffi_Vault_sign_challenge E v nonce = ffi_signature_from (Vault_sign_challenge E (inner v) nonce)"

definition Ffi_Vault_device_public_key :: "('sk, 'vk) ed_lib \<Rightarrow> 'sk Ffi_Vault \<Rightarrow> bytes" where
  "Ffi_Vault_device_public_key E v = Vault_device_public_key E (inner v)"

subsection \<open>Facts\<close>

lemma vec_to_secret_array_eq:
  "vec_to_secret_array bs = (if length bs = 32 then Ok bs else Err Ffi_InvalidKeyLength)"
  by (simp add: vec_to_secret_array_def slice_simps)

lemma ffi_error_from_inject [simp]: "ffi_error_from e = ffi_error_from e' \<longleftrightarrow> e = e'"
  by (cases e; cases e') simp_all

text \<open>The conversion of errors keeps their texts, and the texts tell the errors apart.\<close>

theorem ffi_error_texts:
  "ffi_error_display (ffi_error_from e) = error_display e \<and> (error_display e = error_display e' \<longleftrightarrow> e = e')"
  by (cases e; cases e') simp_all

lemma ffi_field_roundtrip: "length (field_iv f) = 12 \<Longrightarrow> ffi_field_try_from (ffi_field_from f) = Ok f"
  by (simp add: ffi_field_try_from_def ffi_field_from_def vec_try_into_def)

lemma Ffi_Vault_open_Ok:
  "Ffi_Vault_open H E secret = Ok fv \<longleftrightarrow> length secret = 32 \<and> (\<exists>v. Vault_open H E secret = Ok v \<and> fv = \<lparr> inner = v \<rparr>)"
  by (auto simp: Ffi_Vault_open_def vec_to_secret_array_eq res_bind_eq_Ok)

subsection \<open>No panics\<close>

text \<open>The streaming loop never yields a panic, whether or not input and output are distinct.\<close>

lemma stream_loop_no_panic:
  assumes "stream_loop step final os a sz rd buf pending key s = Some y"
  shows "fst y \<noteq> Panic"
proof (rule stream_loop.raw_induct [where P = "\<lambda>step final os a sz rd buf pending key s y. fst y \<noteq> Panic", OF _ assms],
    goal_cases)
  case (1 loop step final os a sz rd buf pending key s y)
  obtain r1 s1 where st: "stream_step step os a rd buf pending key s = (r1, s1)" by (metis surj_pair)
  show ?case
  proof (cases r1)
    case (Ok x)
    obtain n rd1 buf1 key1 where x: "x = (n, rd1, buf1, key1)" by (cases x) auto
    show ?thesis
      using 1(2) 1(1) [of step final os a sz rd1 buf1 "Some (take n buf1)" key1 s1 y] st Ok x
        write_last_cases [of final os a "take n buf1" key1 s1 "fst y" "snd y"]
      by (auto split: if_splits)
  qed (use 1(2) st stream_step_cases [OF st] in auto)
qed

text \<open>Code none of whose results is a panic; sequencing keeps this.\<close>

definition panic_free :: "('s, 'e, 'a) io \<Rightarrow> bool" where
  "panic_free m \<longleftrightarrow> (\<forall>s r s'. m s = Some (r, s') \<longrightarrow> r \<noteq> Panic)"

named_theorems panic_free_intros \<open>rules for code that does not panic\<close>

lemma panic_freeD: "panic_free m \<Longrightarrow> m s = Some (r, s') \<Longrightarrow> r \<noteq> Panic"
  unfolding panic_free_def by blast

lemma panic_free_bind [panic_free_intros]:
  "panic_free m \<Longrightarrow> (\<And>x. panic_free (f x)) \<Longrightarrow> panic_free (io_bind m f)"
  unfolding panic_free_def io_bind_def by (auto split: option.splits outcome.splits)

lemma panic_free_st [panic_free_intros]: "(\<And>s. fst (m s) \<noteq> Panic) \<Longrightarrow> panic_free (io_st m)"
  unfolding panic_free_def io_st_def by (metis fst_conv option.inject)

lemma panic_free_map_err: "(\<And>s. fst (m s) \<noteq> Panic) \<Longrightarrow> fst (st_map_err g m s) \<noteq> Panic"
  by (simp add: st_map_err_apply)

lemma panic_free_with_rng: "(\<And>s. fst (m s) \<noteq> Panic) \<Longrightarrow> fst (with_rng m w) \<noteq> Panic"
  by (simp add: with_rng_def split: prod.split) (metis fst_conv)

lemma panic_free_scope [panic_free_intros]:
  "panic_free m \<Longrightarrow> panic_free (\<lambda>w. map_option (\<lambda>(r, s). (r, g r s)) (m (h w)))"
  unfolding panic_free_def by auto

lemma panic_free_loop [panic_free_intros]: "panic_free (stream_loop step final os a sz rd buf pending key)"
  unfolding panic_free_def using stream_loop_no_panic by (metis fst_conv)

lemma calls_no_panic:
  "fst (write_all os data s) \<noteq> Panic" "fst (flush os s) \<noteq> Panic" "fst (sync_all os s) \<noteq> Panic"
  "fst (file_open os p w) \<noteq> Panic" "fst (file_create os p w) \<noteq> Panic" "fst (rename os p q w) \<noteq> Panic"
  "fst (new_blob_keys A R wk i g) \<noteq> Panic" "fst (sibling_temp_path R p g) \<noteq> Panic"
  "fst (decrypt_open A os p wk i w) \<noteq> Panic"
  using write_all_cases(2) [of os data s] flush_cases(2) [of os s] sync_all_cases(2) [of os s]
    file_open_cases(3) [of os p w] file_create_cases(1) [of os p w] rename_cases(1) [of os p q w]
    new_blob_keys_errors(3) [of A R wk i g] sibling_temp_path_cases(1) [of R p g] decrypt_open_cases(3) [of A os p wk i w]
  by (metis prod.collapse)+

lemmas panic_free_calls = calls_no_panic [THEN panic_free_map_err] calls_no_panic(7,8) [THEN panic_free_with_rng]
  calls_no_panic(9)

lemma panic_free_encrypt_stream [panic_free_intros]: "panic_free (encrypt_stream A os a dk np wk rd)"
  unfolding encrypt_stream_def by (intro panic_free_intros panic_free_calls)

lemma panic_free_encrypt_file: "panic_free (encrypt_file_chunked A R os input output wk i)"
  unfolding encrypt_file_chunked_def
  by (intro panic_free_intros panic_free_calls; auto intro!: panic_free_intros panic_free_calls split: prod.split)

lemma panic_free_decrypt_stream [panic_free_intros]: "panic_free (decrypt_stream A os a rd dec n)"
  unfolding decrypt_stream_def by (intro panic_free_intros panic_free_calls)

lemma panic_free_decrypt_publish [panic_free_intros]: "panic_free (decrypt_publish A os tmp output a rd dec n)"
  unfolding decrypt_publish_def by (intro panic_free_intros panic_free_calls)

lemma panic_free_decrypt_file: "panic_free (decrypt_file_chunked A R os input output wk i)"
  unfolding decrypt_file_chunked_def
  by (intro panic_free_intros panic_free_calls; auto intro!: panic_free_intros panic_free_calls split: prod.split)

lemma panic_free_mapped: "panic_free m \<Longrightarrow> io_map_err g m s = Some (r, s') \<Longrightarrow> r \<noteq> Panic"
  using panic_freeD [of m s] by (auto simp: io_map_err_def)

subsection \<open>Errors of the file operations\<close>

text \<open>Code all of whose errors are in a set; sequencing keeps this.\<close>

definition errs_in :: "'e set \<Rightarrow> ('s, 'e, 'a) io \<Rightarrow> bool" where
  "errs_in S m \<longleftrightarrow> (\<forall>s e s'. m s = Some (Err e, s') \<longrightarrow> e \<in> S)"

named_theorems errs_in_intros \<open>rules for the errors of a piece of code\<close>

lemma errs_inD: "errs_in S m \<Longrightarrow> m s = Some (Err e, s') \<Longrightarrow> e \<in> S"
  unfolding errs_in_def by blast

lemma errs_in_bind [errs_in_intros]: "errs_in S m \<Longrightarrow> (\<And>x. errs_in S (f x)) \<Longrightarrow> errs_in S (io_bind m f)"
  unfolding errs_in_def io_bind_def by (fastforce split: option.splits outcome.splits)

lemma errs_in_scope [errs_in_intros]:
  "errs_in S m \<Longrightarrow> errs_in S (\<lambda>w. map_option (\<lambda>(r, s). (r, g r s)) (m (h w)))"
  unfolding errs_in_def by auto

text \<open>The errors of an operation that fails with \<open>Aead\<close>, or with \<open>Io\<close> if a system call fails.\<close>

definition stream_errors :: "os \<Rightarrow> FilumCryptoError set" where
  "stream_errors os = {e. e = Aead \<or> e = Io \<and> \<not> os_ok os}"

lemma errs_in_call:
  assumes "\<And>s r s'. m s = (r, s') \<Longrightarrow> os_ok os \<Longrightarrow> r = Ok ()"
  shows "errs_in (stream_errors os) (io_st (st_map_err (\<lambda>_. Io) m))"
proof -
  have "e = Io \<and> \<not> os_ok os" if "io_st (st_map_err (\<lambda>_. Io) m) s = Some (Err e, s')" for s e s'
  proof (cases "m s")
    case (Pair r1 s1)
    then show ?thesis using that assms [OF Pair] by (cases r1) (auto simp: io_st_def st_map_err_apply)
  qed
  then show ?thesis by (auto simp: errs_in_def stream_errors_def)
qed

lemmas errs_in_calls [errs_in_intros] = errs_in_call [OF write_all_cases(3)] errs_in_call [OF flush_cases(3)]
  errs_in_call [OF sync_all_cases(3)]

lemma stream_loop_errors:
  assumes "stream_loop step final os a sz rd buf pending key s = Some y"
  shows "fst y = Err e \<longrightarrow> e \<in> stream_errors os"
proof (rule stream_loop.raw_induct
    [where P = "\<lambda>step final os a sz rd buf pending key s y. fst y = Err e \<longrightarrow> e \<in> stream_errors os", OF _ assms],
    goal_cases)
  case (1 loop step final os a sz rd buf pending key s y)
  obtain r1 s1 where st: "stream_step step os a rd buf pending key s = (r1, s1)" by (metis surj_pair)
  show ?case
  proof (cases r1)
    case (Ok x)
    obtain n rd1 buf1 key1 where x: "x = (n, rd1, buf1, key1)" by (cases x) auto
    show ?thesis
      using 1(2) 1(1) [of step final os a sz rd1 buf1 "Some (take n buf1)" key1 s1 y] st Ok x
        write_last_cases [of final os a "take n buf1" key1 s1 "fst y" "snd y"]
      by (auto simp: stream_errors_def split: if_splits)
  qed (use 1(2) st stream_step_cases [OF st] in \<open>auto simp: stream_errors_def\<close>)
qed

lemma errs_in_loop [errs_in_intros]: "errs_in (stream_errors os) (stream_loop step final os a sz rd buf pending key)"
  unfolding errs_in_def using stream_loop_errors by (metis fst_conv)

lemma errs_in_encrypt_stream [errs_in_intros]: "errs_in (stream_errors os) (encrypt_stream A os a dk np wk rd)"
  unfolding encrypt_stream_def by (intro errs_in_intros)

lemma errs_in_decrypt_stream [errs_in_intros]: "errs_in (stream_errors os) (decrypt_stream A os a rd dec n)"
  unfolding decrypt_stream_def by (intro errs_in_intros)

subsection \<open>Errors of the exported functions\<close>

definition decodes_to_32 :: "'m bip39_lib \<Rightarrow> string \<Rightarrow> bool" where
  "decodes_to_32 B phrase \<longleftrightarrow> (\<exists>m. parse B phrase = Some m \<and> length (to_entropy B m) = 32)"

lemma new_blob_keys_randomness:
  assumes "rng_available R"
  shows "new_blob_keys A R wk i g \<noteq> (Err Randomness, g')"
proof (cases "valid_context i")
  case True
  obtain dk g1 where 1: "fill_random R (replicate 32 0) g = (Ok dk, g1)" using fill_random_available [OF assms] by metis
  obtain np g2 where 2: "fill_random R (replicate 7 0) g1 = (Ok np, g2)" using fill_random_available [OF assms] by metis
  obtain iv g3 where 3: "fill_random R (replicate 12 0) g2 = (Ok iv, g3)" using fill_random_available [OF assms] by metis
  show ?thesis
    using True 1 2 3
    by (auto simp: new_blob_keys_def blob_segment_aad_eq blob_wrap_aad_eq wrap_data_key_eq st_bind_def
        split: option.splits outcome.splits if_splits prod.splits)
qed (simp add: new_blob_keys_errors(1))

lemma seal_randomness:
  assumes "rng_available R"
  shows "encrypt_chunked A R bs wk i g \<noteq> (Err Randomness, g')" "encrypt_field A R bs wk i f g \<noteq> (Err Randomness, g')"
proof -
  show "encrypt_chunked A R bs wk i g \<noteq> (Err Randomness, g')"
    using new_blob_keys_randomness [OF assms, of A wk i g]
    by (auto simp: encrypt_chunked_eq body_result_def split: prod.splits outcome.splits option.splits)
  obtain iv g1 where "fill_random R (replicate 12 0) g = (Ok iv, g1)" using fill_random_available [OF assms] by metis
  then show "encrypt_field A R bs wk i f g \<noteq> (Err Randomness, g')"
    by (auto simp: encrypt_field_def field_aad_eq st_bind_def res_bind_eq_Err
        split: prod.splits outcome.splits option.splits if_splits)
qed

lemma ffi_error_from_iff [simp]:
  "ffi_error_from e = Ffi_Aead \<longleftrightarrow> e = Aead" "ffi_error_from e = Ffi_Randomness \<longleftrightarrow> e = Randomness"
  "ffi_error_from e = Ffi_Io \<longleftrightarrow> e = Io"
  by (cases e; simp)+

lemma map_err_eq_Err: "map_err g r = Err e' \<longleftrightarrow> (\<exists>e. r = Err e \<and> e' = g e)"
  by (cases r) auto

lemma ffi_secret_errors:
  "ffi_secret_to_phrase B bs = Err e \<longleftrightarrow>
     e = Ffi_InvalidKeyLength \<and> (length bs \<noteq> 32 \<or> from_entropy B bs = None)"
  by (cases "from_entropy B bs") (auto simp: ffi_secret_to_phrase_def vec_to_secret_array_eq secret_to_phrase_def)

lemma ffi_phrase_errors: "ffi_phrase_to_secret B phrase = Err e \<longleftrightarrow> e = Ffi_InvalidPhrase \<and> \<not> decodes_to_32 B phrase"
  by (auto simp: ffi_phrase_to_secret_def phrase_to_secret_eq decodes_to_32_def split: option.split)

lemma ffi_verify_errors:
  "ffi_verify_signature E pk nonce sig = Err e \<longleftrightarrow>
     (if length pk = 32 \<and> length sig = 64
      then e = Ffi_InvalidSignature \<and>
        (\<nexists>vk. vk_from_bytes E pk = Some vk \<and> vk_verify_strict E vk (domain_separated nonce) sig)
      else e = Ffi_InvalidKeyLength)"
  by (auto simp: ffi_verify_signature_def verify_signature_eq vec_try_into_def split: option.split)

lemma ffi_open_errors:
  assumes "hkdf_limit H"
  shows "Ffi_Vault_open H E bs = Err e \<longleftrightarrow> e = Ffi_InvalidKeyLength \<and> length bs \<noteq> 32"
    "Ffi_Vault_from_recovery_phrase B H E phrase = Err e \<longleftrightarrow> e = Ffi_InvalidPhrase \<and> \<not> decodes_to_32 B phrase"
proof -
  have "\<exists>v. Vault_open H E secret = Ok v" for secret by (rule Vault_open_succeeds [OF assms, of E secret]) blast
  then obtain vault where v: "Vault_open H E secret = Ok (vault secret)" for secret by metis
  show "Ffi_Vault_open H E bs = Err e \<longleftrightarrow> e = Ffi_InvalidKeyLength \<and> length bs \<noteq> 32"
    by (auto simp: Ffi_Vault_open_def vec_to_secret_array_eq v)
  show "Ffi_Vault_from_recovery_phrase B H E phrase = Err e \<longleftrightarrow> e = Ffi_InvalidPhrase \<and> \<not> decodes_to_32 B phrase"
    by (auto simp: Ffi_Vault_from_recovery_phrase_def Vault_from_recovery_phrase_def phrase_to_secret_eq v
        decodes_to_32_def split: option.split)
qed

lemma ffi_blob_errors:
  "\<not> valid_context i \<Longrightarrow> Ffi_Vault_encrypt_blob A R fv bs i g = (Err Ffi_InvalidContext, g)"
  "\<not> valid_context i \<Longrightarrow> Ffi_Vault_decrypt_blob A fv bs i = Err Ffi_InvalidContext"
  "valid_context i \<Longrightarrow> Ffi_Vault_encrypt_blob A R fv bs i g = (Err e, g') \<Longrightarrow>
     e = Ffi_Aead \<or> e = Ffi_Randomness \<and> \<not> rng_available R"
  "valid_context i \<Longrightarrow> Ffi_Vault_decrypt_blob A fv bs i = Err e \<Longrightarrow> e = Ffi_Aead"
proof -
  let ?k = "wrap_key (inner fv)"
  obtain r g1 where e: "encrypt_chunked A R bs ?k i g = (r, g1)" by (metis surj_pair)
  then have ffi: "Ffi_Vault_encrypt_blob A R fv bs i g = (map_err ffi_error_from r, g1)"
    by (simp add: Ffi_Vault_encrypt_blob_def Vault_encrypt_blob_def st_map_err_apply)
  show "Ffi_Vault_encrypt_blob A R fv bs i g = (Err Ffi_InvalidContext, g)" if "\<not> valid_context i"
    using encrypt_chunked_errors(1) [OF that, of A R bs ?k g] e ffi by auto
  show "e = Ffi_Aead \<or> e = Ffi_Randomness \<and> \<not> rng_available R"
    if v: "valid_context i" and run: "Ffi_Vault_encrypt_blob A R fv bs i g = (Err e, g')"
  proof -
    obtain e0 where e0: "e = ffi_error_from e0" "r = Err e0" using run ffi by (auto simp: map_err_eq_Err)
    then show ?thesis using encrypt_chunked_errors(2) [OF v e [unfolded e0(2)]]
        seal_randomness(1) [of R A bs ?k i g g1] e by auto
  qed
qed (auto simp: Ffi_Vault_decrypt_blob_def Vault_decrypt_blob_def map_err_eq_Err decrypt_chunked_errors(1)
    dest: decrypt_chunked_errors(2))

lemma ffi_field_seal_errors:
  "\<not> (valid_context i \<and> valid_context f) \<Longrightarrow> Ffi_Vault_encrypt_metadata_field A R fv bs i f g = (Err Ffi_InvalidContext, g)"
  "valid_context i \<and> valid_context f \<Longrightarrow> Ffi_Vault_encrypt_metadata_field A R fv bs i f g = (Err e, g') \<Longrightarrow>
     e = Ffi_Aead \<or> e = Ffi_Randomness \<and> \<not> rng_available R"
proof -
  let ?k = "metadata_key (inner fv)"
  obtain r g1 where e: "encrypt_field A R bs ?k i f g = (r, g1)" by (metis surj_pair)
  then have s: "seal_field A R bs ?k (i, f) g = (r, g1)" by simp
  have ffi: "Ffi_Vault_encrypt_metadata_field A R fv bs i f g =
      (res_bind (map_err ffi_error_from r) (\<lambda>c. Ok (ffi_field_from c)), g1)"
    by (cases r) (simp_all add: Ffi_Vault_encrypt_metadata_field_def Vault_encrypt_metadata_field_def st_bind_def
        st_map_err_apply e)
  show "Ffi_Vault_encrypt_metadata_field A R fv bs i f g = (Err Ffi_InvalidContext, g)"
    if "\<not> (valid_context i \<and> valid_context f)"
    using field_box.seal_invalid [of "(i, f)" A R bs ?k g] that s ffi by (auto simp: valid_field_context_def)
  show "e = Ffi_Aead \<or> e = Ffi_Randomness \<and> \<not> rng_available R"
    if v: "valid_context i \<and> valid_context f"
      and run: "Ffi_Vault_encrypt_metadata_field A R fv bs i f g = (Err e, g')"
  proof -
    obtain e0 where e0: "e = ffi_error_from e0" "r = Err e0"
      using run ffi by (auto simp: res_bind_eq_Err map_err_eq_Err)
    have "valid_field_context (i, f)" using v by (simp add: valid_field_context_def)
    then show ?thesis using field_box.seal_errors [OF _ s [unfolded e0(2)]]
        seal_randomness(2) [of R A bs ?k i f g g1] e e0 by auto
  qed
qed

lemma ffi_field_open_errors:
  "Ffi_Vault_decrypt_metadata_field A fv field i f = Err e \<Longrightarrow>
     e = (if length (ffi_iv field) \<noteq> 12 then Ffi_InvalidKeyLength
          else if valid_context i \<and> valid_context f then Ffi_Aead else Ffi_InvalidContext)"
  "length (ffi_iv field) \<noteq> 12 \<or> \<not> valid_context i \<or> \<not> valid_context f \<Longrightarrow>
     \<exists>e. Ffi_Vault_decrypt_metadata_field A fv field i f = Err e"
  using field_box.unseal_invalid [of "(i, f)" A _ "metadata_key (inner fv)"]
    field_box.unseal_errors [of "(i, f)" A _ "metadata_key (inner fv)"]
  by (auto simp: Ffi_Vault_decrypt_metadata_field_def Vault_decrypt_metadata_field_def ffi_field_try_from_def
      vec_try_into_def valid_field_context_def map_err_eq_Err)

lemma encrypt_file_invalid:
  "\<not> valid_context i \<Longrightarrow> encrypt_file_chunked A R os p q wk i w = Some (Err InvalidContext, w)"
  by (simp add: encrypt_file_chunked_def io_bind_st with_rng_def new_blob_keys_errors(1))

lemma decrypt_file_invalid:
  "\<not> valid_context i \<Longrightarrow> decrypt_file_chunked A R os p q wk i w = Some (Err InvalidContext, w)"
  by (simp add: decrypt_file_chunked_def io_bind_st decrypt_open_def blob_segment_aad_eq)

lemma file_open_missing:
  assumes "file_open os p w = (r, w')" "\<And>rd. r \<noteq> Ok rd"
  shows "\<not> os_ok os \<or> read_path (disk w) p = None"
  using file_open_cases(5) [OF assms(1)] assms(2) by (cases "entries (disk w) p") (auto simp: read_path_def)

lemma file_create_returns: "os_ok os \<Longrightarrow> fst (file_create os q w) \<noteq> Err e"
  using file_create_cases(3) [of os q w] by (metis outcome.distinct(1) prod.collapse)

lemma errs_in_created:
  "errs_in (stream_errors os) (io_bind (io_st (st_map_err (\<lambda>_. Io) (file_create os q)))
     (\<lambda>fout w. map_option (\<lambda>(r, s). (r, drop_writer os s)) (encrypt_stream A os a dk np wr fin (fout, w))))"
  by (rule errs_in_bind, use file_create_returns [of os q] in
      \<open>force simp: errs_in_def io_st_def st_map_err_apply map_err_eq_Err stream_errors_def\<close>) (intro errs_in_intros)

lemma encrypt_file_errors:
  assumes "valid_context i" and run: "encrypt_file_chunked A R os p q wk i w = Some (Err e, w')"
  shows "e = Aead \<or> e = Randomness \<and> \<not> rng_available R \<or> e = Io \<and> (\<not> os_ok os \<or> read_path (disk w) p = None)"
proof -
  obtain r1 g where k: "new_blob_keys A R wk i (rng_state w) = (r1, g)" by (metis surj_pair)
  obtain r2 w2 where o: "file_open os p (w\<lparr> rng_state := g \<rparr>) = (r2, w2)" by (metis surj_pair)
  note eq = run [unfolded encrypt_file_chunked_def io_bind_st with_rng_def, simplified k]
  show ?thesis
  proof (cases r1)
    case (Ok x)
    obtain a dk np wr where x: "x = (a, dk, np, wr)" by (cases x) auto
    show ?thesis
    proof (cases "\<exists>fin. r2 = Ok fin")
      case True
      then obtain fin where fin: "r2 = Ok fin" by blast
      have "e \<in> stream_errors os"
        by (rule errs_inD [OF errs_in_created [of os q A a dk np wr fin], of w2 e w'])
          (use eq o Ok x fin in \<open>simp add: st_map_err_apply io_bind_st\<close>)
      then show ?thesis by (auto simp: stream_errors_def)
    next
      case False
      then show ?thesis
        using eq o Ok x file_open_missing [OF o] file_open_cases(3) [OF o]
        by (cases r2) (auto simp: st_map_err_apply io_bind_st)
    qed
  next
    case (Err e1)
    then have "e = e1" using eq by simp
    then show ?thesis
      using new_blob_keys_errors(2) [OF assms(1) k [unfolded Err]]
        new_blob_keys_randomness [of R A wk i "rng_state w" g] k Err by auto
  qed (use eq in simp)
qed

lemma decrypt_open_errors:
  assumes "valid_context i" "decrypt_open A os p wk i w = (Err e, w')"
  shows "e = Aead \<or> e = Io"
proof -
  obtain r1 w1 where o: "file_open os p w = (r1, w1)" by (metis surj_pair)
  note eq = assms(2) [unfolded decrypt_open_eq [OF assms(1) o]]
  show ?thesis
  proof (cases r1)
    case (Ok rd)
    obtain r2 w2 where re: "read_exact os rd (replicate 72 0) w1 = (r2, w2)" by (metis surj_pair)
    show ?thesis
    proof (cases r2)
      case 2: (Ok y)
      obtain rd2 h where y: "y = (rd2, h)" by (cases y)
      then have "72 \<le> length h" using read_exact_cases(4) [OF re, of rd2 h] 2 by simp
      then show ?thesis
        using eq Ok re 2 y open_header_cases(2) [OF _ assms(1), of h A wk]
        by (auto simp: index_def res_bind_eq_Err split: if_splits)
    qed (use eq Ok re read_exact_cases(5) [OF re] in auto)
  qed (use eq file_open_cases(3) [OF o] in auto)
qed

lemma errs_in_Io: "Io \<in> S \<Longrightarrow> errs_in S (io_st (st_map_err (\<lambda>_. Io) m))"
  by (auto simp: errs_in_def io_st_def st_map_err_apply map_err_eq_Err)

lemma errs_in_mono: "errs_in S m \<Longrightarrow> S \<subseteq> T \<Longrightarrow> errs_in T m"
  unfolding errs_in_def by blast

lemma errs_in_decrypt_publish: "errs_in {Aead, Io} (decrypt_publish A os tmp q a fin dec n)"
  unfolding decrypt_publish_def
  by (intro errs_in_bind errs_in_scope errs_in_Io errs_in_mono [OF errs_in_decrypt_stream])
    (auto simp: stream_errors_def)

lemma decrypt_file_io:
  assumes "wf_disk (disk w)" "temp_free R q w" "stream_min16 A" "os_ok os"
    and "decrypt_file_chunked A R os p q wk i w = Some (Err Io, w')" "read_path (disk w) p = Some data"
  shows "file_name q = None \<or> length data < 72"
  using decrypt_file_run(5) [OF assms(1-3,5) refl assms(4,6)] decrypt_chunked_errors(1) [of i A data wk]
    decrypt_chunked_errors(2) [of i A data wk Io]
  by (cases "valid_context i") (auto split: if_splits)

lemma decrypt_file_errors:
  assumes "valid_context i" and run: "decrypt_file_chunked A R os p q wk i w = Some (Err e, w')"
  shows "e = Aead \<or> e = Randomness \<and> \<not> rng_available R \<or>
    e = Io \<and> (wf_disk (disk w) \<and> temp_free R q w \<and> stream_min16 A \<and> os_ok os \<longrightarrow>
      file_name q = None \<or> (\<forall>data. read_path (disk w) p = Some data \<longrightarrow> length data < 72))"
proof -
  obtain r1 w1 where o: "decrypt_open A os p wk i w = (r1, w1)" by (metis surj_pair)
  obtain r2 g where t: "sibling_temp_path R q (rng_state w1) = (r2, g)" by (metis surj_pair)
  note eq = run [unfolded decrypt_file_eq [OF o t]]
  have "e = Aead \<or> e = Randomness \<and> \<not> rng_available R \<or> e = Io"
  proof (cases r1)
    case (Ok x)
    then show ?thesis
      using eq sibling_temp_path_cases(1) [OF t] sibling_temp_path_cases(3) [OF t] errs_inD [OF errs_in_decrypt_publish]
      by (cases r2) (fastforce split: prod.splits)+
  qed (use eq o decrypt_open_errors [OF assms(1), of A os p wk w e w1] in auto)
  then show ?thesis using decrypt_file_io run by blast
qed

lemma ffi_file_errors:
  "\<not> valid_context i \<Longrightarrow> Ffi_Vault_encrypt_file_to_blob A R os fv p q i w = Some (Err Ffi_InvalidContext, w)"
  "\<not> valid_context i \<Longrightarrow> Ffi_Vault_decrypt_blob_to_file A R os fv p q i w = Some (Err Ffi_InvalidContext, w)"
  "valid_context i \<Longrightarrow> Ffi_Vault_encrypt_file_to_blob A R os fv p q i w = Some (Err e, w') \<Longrightarrow>
     e = Ffi_Aead \<or> e = Ffi_Randomness \<and> \<not> rng_available R \<or>
     e = Ffi_Io \<and> (\<not> os_ok os \<or> read_path (disk w) (components p) = None)"
  "valid_context i \<Longrightarrow> Ffi_Vault_decrypt_blob_to_file A R os fv p q i w = Some (Err e, w') \<Longrightarrow>
     e = Ffi_Aead \<or> e = Ffi_Randomness \<and> \<not> rng_available R \<or>
     e = Ffi_Io \<and> (wf_disk (disk w) \<and> temp_free R (components q) w \<and> stream_min16 A \<and> os_ok os \<longrightarrow>
        file_name (components q) = None \<or>
        (\<forall>data. read_path (disk w) (components p) = Some data \<longrightarrow> length data < 72))"
  by (auto simp: Ffi_Vault_encrypt_file_to_blob_def Vault_encrypt_file_to_blob_def Ffi_Vault_decrypt_blob_to_file_def
      Vault_decrypt_blob_to_file_def io_map_err_def map_err_eq_Err encrypt_file_invalid decrypt_file_invalid
      dest: encrypt_file_errors decrypt_file_errors)

subsection \<open>Properties\<close>

text \<open>
  C36: the exported functions fail for the documented reasons and with the documented errors.
  Provided HKDF expands 32 bytes: a secret, public key, signature or initialisation vector of a wrong
  length is \<open>InvalidKeyLength\<close>, a phrase that does not decode to 32 bytes is \<open>InvalidPhrase\<close>, a signature
  that does not verify over the domain-separated nonce is \<open>InvalidSignature\<close>, and these are the only
  errors of \<open>secret_to_phrase\<close>, \<open>phrase_to_secret\<close>, \<open>verify_signature\<close>, \<open>Vault.open\<close> and
  \<open>Vault.from_recovery_phrase\<close>. An invalid identifier is \<open>InvalidContext\<close> before anything is drawn,
  read or written; with a valid one, the in-memory operations fail only with \<open>Aead\<close>, or with \<open>Randomness\<close>
  when sealing without a working random source, and the file operations also with \<open>Io\<close>: the encoder only
  if a system call fails or the input is missing, the decoder (when the temporary name is not in use)
  only if a system call fails, the input is missing or shorter than a header, or the output has no
  file name.
\<close>

theorem ffi_errors:
  assumes "hkdf_limit H"
  shows
  "(\<forall>e g'. ffi_generate_master_secret R g = (Err e, g') \<longrightarrow> e = Ffi_Randomness \<and> \<not> rng_available R) \<and>
   (\<forall>e. ffi_secret_to_phrase B bs = Err e \<longleftrightarrow>
      e = Ffi_InvalidKeyLength \<and> (length bs \<noteq> 32 \<or> from_entropy B bs = None)) \<and>
   (\<forall>e. ffi_phrase_to_secret B phrase = Err e \<longleftrightarrow> e = Ffi_InvalidPhrase \<and> \<not> decodes_to_32 B phrase) \<and>
   (\<forall>e. ffi_verify_signature E bs nonce sig = Err e \<longleftrightarrow>
      (if length bs = 32 \<and> length sig = 64
       then e = Ffi_InvalidSignature \<and>
         (\<nexists>vk. vk_from_bytes E bs = Some vk \<and> vk_verify_strict E vk (domain_separated nonce) sig)
       else e = Ffi_InvalidKeyLength)) \<and>
   (\<forall>e. Ffi_Vault_open H E bs = Err e \<longleftrightarrow> e = Ffi_InvalidKeyLength \<and> length bs \<noteq> 32) \<and>
   (\<forall>e. Ffi_Vault_from_recovery_phrase B H E phrase = Err e \<longleftrightarrow> e = Ffi_InvalidPhrase \<and> \<not> decodes_to_32 B phrase) \<and>
   (if valid_context i
    then (\<forall>e g'. Ffi_Vault_encrypt_blob A R fv bs i g = (Err e, g') \<longrightarrow>
            e = Ffi_Aead \<or> e = Ffi_Randomness \<and> \<not> rng_available R) \<and>
      (\<forall>e. Ffi_Vault_decrypt_blob A fv bs i = Err e \<longrightarrow> e = Ffi_Aead)
    else Ffi_Vault_encrypt_blob A R fv bs i g = (Err Ffi_InvalidContext, g) \<and>
      Ffi_Vault_decrypt_blob A fv bs i = Err Ffi_InvalidContext) \<and>
   (if valid_context i \<and> valid_context f
    then (\<forall>e g'. Ffi_Vault_encrypt_metadata_field A R fv bs i f g = (Err e, g') \<longrightarrow>
            e = Ffi_Aead \<or> e = Ffi_Randomness \<and> \<not> rng_available R)
    else Ffi_Vault_encrypt_metadata_field A R fv bs i f g = (Err Ffi_InvalidContext, g)) \<and>
   (\<forall>e. Ffi_Vault_decrypt_metadata_field A fv field i f = Err e \<longrightarrow>
      e = (if length (ffi_iv field) \<noteq> 12 then Ffi_InvalidKeyLength
           else if valid_context i \<and> valid_context f then Ffi_Aead else Ffi_InvalidContext)) \<and>
   (length (ffi_iv field) \<noteq> 12 \<or> \<not> valid_context i \<or> \<not> valid_context f \<longrightarrow>
      (\<exists>e. Ffi_Vault_decrypt_metadata_field A fv field i f = Err e)) \<and>
   (if valid_context i
    then (\<forall>e w'. Ffi_Vault_encrypt_file_to_blob A R os fv p q i w = Some (Err e, w') \<longrightarrow>
            e = Ffi_Aead \<or> e = Ffi_Randomness \<and> \<not> rng_available R \<or>
            e = Ffi_Io \<and> (\<not> os_ok os \<or> read_path (disk w) (components p) = None)) \<and>
      (\<forall>e w'. Ffi_Vault_decrypt_blob_to_file A R os fv p q i w = Some (Err e, w') \<longrightarrow>
            e = Ffi_Aead \<or> e = Ffi_Randomness \<and> \<not> rng_available R \<or>
            e = Ffi_Io \<and>
            (wf_disk (disk w) \<and> temp_free R (components q) w \<and> stream_min16 A \<and> os_ok os \<longrightarrow>
               file_name (components q) = None \<or>
               (\<forall>data. read_path (disk w) (components p) = Some data \<longrightarrow> length data < 72)))
    else Ffi_Vault_encrypt_file_to_blob A R os fv p q i w = Some (Err Ffi_InvalidContext, w) \<and>
      Ffi_Vault_decrypt_blob_to_file A R os fv p q i w = Some (Err Ffi_InvalidContext, w))"
proof (intro conjI, goal_cases)
  case 1
  show ?case
    using fill_random_cases [of R "replicate 32 0" g] fill_random_available [of R "replicate 32 0" g]
    by (auto simp: ffi_generate_master_secret_def generate_master_secret_def st_bind_def st_map_err_apply)
next
  case 7
  show ?case using ffi_blob_errors(1,3) [of i A R fv bs g] ffi_blob_errors(2,4) [of i A fv bs] by simp
next
  case 8
  show ?case using ffi_field_seal_errors [of i f A R fv bs g] by simp
next
  case 11
  show ?case using ffi_file_errors [of i A R os fv p q w] by simp
qed (intro allI impI; (rule ffi_secret_errors ffi_phrase_errors ffi_verify_errors ffi_open_errors [OF assms] |
      rule ffi_field_open_errors, assumption))+

theorem ffi_errors_witness:
  "Ffi_Vault_open ref_hkdf ref_ed [1, 2, 3] = Err Ffi_InvalidKeyLength \<and>
   ffi_verify_signature ref_ed [1, 2, 3] [7] [] = Err Ffi_InvalidKeyLength \<and>
   Ffi_Vault_encrypt_blob ref_aead ref_rng \<lparr> inner = \<lparr> wrap_key = [], metadata_key = [], signing_key = [5 :: u8] \<rparr> \<rparr> [1, 2, 3] [] 5 =
     (Err Ffi_InvalidContext, 5)"
proof -
  let ?v = "\<lparr> inner = \<lparr> wrap_key = [], metadata_key = [], signing_key = [5 :: u8] \<rparr> \<rparr>"
  note f = ffi_errors [OF ref_hkdf_limit, where E = ref_ed and R = ref_rng and A = ref_aead and bs = "[1, 2, 3]" and i = "[]"
      and fv = ?v and sig = "[]" and nonce = "[7]" and g = 5, THEN conjunct2, THEN conjunct2, THEN conjunct2]
  have "ffi_verify_signature ref_ed [1, 2, 3] [7] [] = Err Ffi_InvalidKeyLength"
    using f [THEN conjunct1] by simp
  moreover have "Ffi_Vault_open ref_hkdf ref_ed [1, 2, 3] = Err Ffi_InvalidKeyLength"
    using f [THEN conjunct2, THEN conjunct1] by simp
  moreover have "Ffi_Vault_encrypt_blob ref_aead ref_rng ?v [1, 2, 3] [] 5 = (Err Ffi_InvalidContext, 5)"
    using f [THEN conjunct2, THEN conjunct2, THEN conjunct2, THEN conjunct1] by (simp add: valid_context_def)
  ultimately show ?thesis by blast
qed

text \<open>
  Fields cross the FFI unharmed. A field sealed through the FFI, carried as plain byte vectors and
  passed back, opens to its plaintext in the vault that sealed it.
\<close>

theorem ffi_field_decrypts_to_plaintext:
  assumes "gcm_correct A" "Ffi_Vault_open H E secret = Ok fv"
    and "Ffi_Vault_encrypt_metadata_field A R fv pt r f s = (Ok field, s')"
  shows "Ffi_Vault_decrypt_metadata_field A fv field r f = Ok pt"
proof -
  obtain v where v: "Vault_open H E secret = Ok v" "inner fv = v" using assms(2) by (auto simp: Ffi_Vault_open_Ok)
  obtain core where enc: "encrypt_field A R pt (metadata_key v) r f s = (Ok core, s')" and field: "field = ffi_field_from core"
    using assms(3) v(2)
    by (cases "encrypt_field A R pt (metadata_key v) r f s")
      (auto simp: Ffi_Vault_encrypt_metadata_field_def Vault_encrypt_metadata_field_def st_bind_eq_Ok st_map_err_apply)
  have s: "seal_field A R pt (metadata_key v) (r, f) s = (Ok core, s')" using enc by simp
  have "length (metadata_key v) = 32" using Vault_open_wf [OF v(1)] by (simp add: wf_vault_def)
  then have "decrypt_field A core (metadata_key v) r f = Ok pt"
    using field_box.roundtrip [OF assms(1) _ s] by simp
  then show ?thesis
    using encrypt_field_Ok(2) [OF s] v(2)
    by (simp add: Ffi_Vault_decrypt_metadata_field_def field ffi_field_roundtrip Vault_decrypt_metadata_field_def)
qed

theorem ffi_field_decrypts_to_plaintext_witness:
  "\<exists>fv field s'. Ffi_Vault_open ref_hkdf ref_ed (replicate 32 4) = Ok fv \<and>
    Ffi_Vault_encrypt_metadata_field ref_aead ref_rng fv [2] ''ab'' ''cd'' 0 = (Ok field, s') \<and>
    Ffi_Vault_decrypt_metadata_field ref_aead fv field ''ab'' ''cd'' = Ok [2]"
proof (rule Vault_open_succeeds [OF ref_hkdf_limit, of ref_ed "replicate 32 4"])
  fix v
  assume v: "Vault_open ref_hkdf ref_ed (replicate 32 4) = Ok v"
  then have fv: "Ffi_Vault_open ref_hkdf ref_ed (replicate 32 4) = Ok \<lparr> inner = v \<rparr>" by (simp add: Ffi_Vault_open_Ok)
  show ?thesis
  proof (rule ref_vault_seals [OF Vault_open_wf [OF v]])
    fix framed s field t
    assume "Vault_encrypt_metadata_field ref_aead ref_rng v [2] ''ab'' ''cd'' 0 = (Ok field, t)"
    then have enc: "Ffi_Vault_encrypt_metadata_field ref_aead ref_rng \<lparr> inner = v \<rparr> [2] ''ab'' ''cd'' 0 = (Ok (ffi_field_from field), t)"
      by (simp add: Ffi_Vault_encrypt_metadata_field_def st_bind_def st_map_err_apply)
    from ffi_field_decrypts_to_plaintext [OF ref_gcm_laws(1) fv enc] fv enc show ?thesis by blast
  qed
qed

text \<open>
  C23: no panic crosses the FFI. Whatever bytes, strings and paths the caller passes, whatever the file
  system does, no exported function that can fail ends in a panic.
\<close>

theorem ffi_never_panics:
  "fst (ffi_generate_master_secret R g) \<noteq> Panic \<and> ffi_secret_to_phrase B bs \<noteq> Panic \<and>
   ffi_phrase_to_secret B phrase \<noteq> Panic \<and> ffi_verify_signature E bs nonce sig \<noteq> Panic \<and>
   Ffi_Vault_open H E bs \<noteq> Panic \<and> Ffi_Vault_from_recovery_phrase B H E phrase \<noteq> Panic \<and>
   fst (Ffi_Vault_encrypt_blob A R fv bs i g) \<noteq> Panic \<and> Ffi_Vault_decrypt_blob A fv bs i \<noteq> Panic \<and>
   fst (Ffi_Vault_encrypt_metadata_field A R fv bs i f g) \<noteq> Panic \<and>
   Ffi_Vault_decrypt_metadata_field A fv field i f \<noteq> Panic \<and>
   (\<nexists>w'. Ffi_Vault_encrypt_file_to_blob A R os fv p q i w = Some (Panic, w')) \<and>
   (\<nexists>w'. Ffi_Vault_decrypt_blob_to_file A R os fv p q i w = Some (Panic, w'))"
proof (intro conjI)
  show "fst (ffi_generate_master_secret R g) \<noteq> Panic"
    using fill_random_cases [of R "replicate 32 0" g]
    by (auto simp: ffi_generate_master_secret_def generate_master_secret_def st_bind_def st_map_err_apply)
  show "ffi_secret_to_phrase B bs \<noteq> Panic" "ffi_phrase_to_secret B phrase \<noteq> Panic"
    "ffi_verify_signature E bs nonce sig \<noteq> Panic"
    by (auto simp: ffi_secret_to_phrase_def vec_to_secret_array_eq secret_to_phrase_def res_bind_eq_Panic
        ffi_phrase_to_secret_def phrase_to_secret_eq ffi_verify_signature_def verify_signature_eq
        split: option.splits if_splits)
  show "Ffi_Vault_open H E bs \<noteq> Panic" "Ffi_Vault_from_recovery_phrase B H E phrase \<noteq> Panic"
    using Vault_open_errors(1) [of H E]
    by (auto simp: Ffi_Vault_open_def vec_to_secret_array_eq res_bind_eq_Panic Ffi_Vault_from_recovery_phrase_def
        Vault_from_recovery_phrase_def phrase_to_secret_eq split: option.splits if_splits)
  show "fst (Ffi_Vault_encrypt_blob A R fv bs i g) \<noteq> Panic" "Ffi_Vault_decrypt_blob A fv bs i \<noteq> Panic"
    using blob_box.seal_no_panic [of A R bs "wrap_key (inner fv)" i g]
      blob_box.unseal_no_panic [of A bs "wrap_key (inner fv)" i]
    by (cases "encrypt_chunked A R bs (wrap_key (inner fv)) i g",
        auto simp: Ffi_Vault_encrypt_blob_def Vault_encrypt_blob_def st_map_err_apply Ffi_Vault_decrypt_blob_def
        Vault_decrypt_blob_def)
  show "fst (Ffi_Vault_encrypt_metadata_field A R fv bs i f g) \<noteq> Panic"
    using field_box.seal_no_panic [of A R bs "metadata_key (inner fv)" "(i, f)" g]
    by (cases "encrypt_field A R bs (metadata_key (inner fv)) i f g")
      (auto simp: Ffi_Vault_encrypt_metadata_field_def Vault_encrypt_metadata_field_def st_bind_def st_map_err_apply
        split: outcome.split)
  show "Ffi_Vault_decrypt_metadata_field A fv field i f \<noteq> Panic"
    using field_box.unseal_no_panic [of A _ "metadata_key (inner fv)" "(i, f)"]
    by (auto simp: Ffi_Vault_decrypt_metadata_field_def Vault_decrypt_metadata_field_def ffi_field_try_from_def
        res_bind_eq_Panic)
  show "\<nexists>w'. Ffi_Vault_encrypt_file_to_blob A R os fv p q i w = Some (Panic, w')"
    "\<nexists>w'. Ffi_Vault_decrypt_blob_to_file A R os fv p q i w = Some (Panic, w')"
    by (auto simp: Ffi_Vault_encrypt_file_to_blob_def Vault_encrypt_file_to_blob_def
        Ffi_Vault_decrypt_blob_to_file_def Vault_decrypt_blob_to_file_def
        dest: panic_free_mapped [OF panic_free_encrypt_file] panic_free_mapped [OF panic_free_decrypt_file])
qed

end
