(* ===== verification/Filum_File_Termination.thy ===== *)
theory Filum_File_Termination
  imports Filum_Decrypt_File
begin

text \<open>
  The file codecs return: on every disk (also one with dangling names), in every environment, for every
  behaviour of the third-party crates, and when input, output and temporary file are one node.
  When the streaming loop reads what it does not write, the bytes left to read decrease; when it
  reads the node it writes, that node was just truncated, so its first turn is its last.
\<close>

subsection \<open>The read-ahead is bounded\<close>

lemma read_full_buffer:
  assumes "read_full os rd buf filled w = (Ok (n, rd', buf'), w')"
  shows "length (r_buf rd') \<le> max DEFAULT_BUF_SIZE (length (r_buf rd))"
  using assms
proof (induction os rd buf filled w rule: read_full.induct)
  case (1 os rd buf filled w)
  show ?case
  proof (cases "filled < length buf")
    case False
    with "1.prems" show ?thesis by (simp add: read_full.simps [of os rd buf filled w])
  next
    case True
    obtain r w1 where rd: "read os rd (length buf - filled) w = (r, w1)" by (metis surj_pair)
    from "1.prems" True rd obtain bs rd1 where r: "r = Ok (bs, rd1)"
      by (cases r) (auto simp: read_full.simps [of os rd buf filled w] split: if_splits)
    note b = read_cases(6) [OF rd r]
    show ?thesis
    proof (cases "bs = []")
      case True
      with \<open>filled < length buf\<close> r rd "1.prems" have "rd' = rd1"
        by (simp add: read_full.simps [of os rd buf filled w])
      with b show ?thesis by simp
    next
      case False
      have rec: "read_full os rd1 (take filled buf @ bs @ drop (filled + length bs) buf) (filled + length bs) w1 =
          (Ok (n, rd', buf'), w')"
        using "1.prems" False \<open>filled < length buf\<close> r rd
        by (simp add: read_full.simps [of os rd buf filled w])
      have "map_err (\<lambda>_. Io) r = Ok (bs, rd1)" using r by simp
      from "1.IH" [OF True rd [symmetric] this refl False rec] b show ?thesis by simp
    qed
  qed
qed

lemma decrypt_open_buffer:
  assumes "decrypt_open A os input wk i w = (Ok (a, rd, dec, n), w')"
  shows "length (r_buf rd) \<le> DEFAULT_BUF_SIZE" "n = CHUNK_SIZE + 16"
proof -
  obtain r1 w1 where op: "file_open os input w = (r1, w1)" by (metis surj_pair)
  have "valid_context i" using decrypt_open_cases(4) [OF assms refl] by (auto simp: opened_def)
  note eq = assms [unfolded decrypt_open_eq [OF this op]]
  then obtain fin where fin: "r1 = Ok fin" by (cases r1) auto
  obtain r2 w2 where re: "read_exact os fin (replicate 72 0) w1 = (r2, w2)" by (metis surj_pair)
  with eq fin obtain h where "r2 = Ok (rd, h)"
    by (cases r2) (auto simp: res_bind_eq_Ok split: if_splits)
  with re obtain m where "read_full os fin (replicate 72 0) 0 w1 = (Ok (m, rd, h), w2)"
    by (auto simp: read_exact_def st_bind_eq_Ok split: if_splits)
  from read_full_buffer [OF this] file_open_cases(4) [OF op fin]
  show "length (r_buf rd) \<le> DEFAULT_BUF_SIZE" by simp
  show "n = CHUNK_SIZE + 16" using decrypt_open_cases(4) [OF assms refl] by (auto simp: opened_def)
qed

subsection \<open>The loop\<close>

text \<open>What the two codecs establish before the loop: it reads another node, or less than a chunk is left.\<close>

lemma stream_loop_returns:
  assumes "0 < sz" "length buf = sz" "r_ino rd \<noteq> w_ino (fst s) \<or> length (remaining rd (snd s)) < sz"
  obtains r s' where "stream_loop step final os a sz rd buf pending key s = Some (r, s')"
proof (cases "r_ino rd = w_ino (fst s)")
  case False
  from stream_loop_spec [OF assms(1) refl assms(2) this, of step final os a pending key] that
  show thesis by blast
next
  case True
  then have short: "length (remaining rd (snd s)) < sz" using assms(3) by simp
  obtain r1 s1 where st: "stream_step step os a rd buf pending key s = (r1, s1)" by (metis surj_pair)
  show thesis
  proof (cases r1)
    case (Ok x)
    obtain n rd1 buf1 key1 where x: "x = (n, rd1, buf1, key1)" by (cases x) auto
    from stream_loop_last [OF st [unfolded Ok x] short refl assms(2), of final] that
    show thesis by blast
  next
    case (Err e)
    from stream_loop_failed [OF st [unfolded Err], of final sz] that show thesis by blast
  qed (use stream_step_cases [OF st] in blast)
qed

lemma io_bind_returns:
  assumes "m s = Some (r, s')" "\<And>x. r = Ok x \<Longrightarrow> \<exists>r2 s2. f x s' = Some (r2, s2)"
  shows "\<exists>r2 s2. io_bind m f s = Some (r2, s2)"
  using assms by (cases r) (auto simp: io_bind_def)

lemma io_bind_st_returns:
  assumes "\<And>x s'. m s = (Ok x, s') \<Longrightarrow> \<exists>r2 s2. f x s' = Some (r2, s2)"
  shows "\<exists>r2 s2. io_bind (io_st m) f s = Some (r2, s2)"
  using assms by (cases "m s") (auto simp: io_bind_st split: outcome.split)

subsection \<open>The codecs\<close>

lemma encrypt_stream_returns:
  assumes "length (write_header [] wrapped np) = 72" "r_buf rd = []" "w_buf (fst s) = []"
    and "contents (node (disk (snd s)) (w_ino (fst s))) = []"
  shows "\<exists>r s'. encrypt_stream A os a dk np wrapped rd s = Some (r, s')"
  unfolding encrypt_stream_def
proof (rule io_bind_st_returns)
  fix x s1
  assume "st_map_err (\<lambda>_. Io) (write_all os (write_header [] wrapped np)) s = (Ok x, s1)"
  then have h: "write_all os (write_header [] wrapped np) s = (Ok (), s1)"
    by (cases "write_all os (write_header [] wrapped np) s") (simp add: st_map_err_apply)
  have "written s1 = write_header [] wrapped np"
    using write_all_cases(4) [OF h] assms(3,4) by (simp add: written_def)
  then have "length (node_bytes (snd s1) (w_ino (fst s1))) \<le> 72"
    using assms(1) by (metis append_take_drop_id length_append le_add1 written_def node_bytes_def)
  then have "r_ino rd \<noteq> w_ino (fst s1) \<or> length (remaining rd (snd s1)) < CHUNK_SIZE"
    using assms(2) by (auto simp: remaining_def CHUNK_SIZE_def)
  then obtain r2 s2 where "stream_loop (enc_next A) (enc_last A) os a CHUNK_SIZE rd (replicate CHUNK_SIZE 0) None
      (enc_from_aead A dk np) s1 = Some (r2, s2)"
    using stream_loop_returns [OF CHUNK_SIZE_pos length_replicate] by metis
  then show "\<exists>r2 s2. io_bind (stream_loop (enc_next A) (enc_last A) os a CHUNK_SIZE rd (replicate CHUNK_SIZE 0) None
      (enc_from_aead A dk np)) (\<lambda>_. io_st (st_map_err (\<lambda>_. Io) (flush os))) s1 = Some (r2, s2)"
    by (rule io_bind_returns) (simp add: io_st_def st_map_err_apply)
qed

lemma encrypt_file_returns: "\<exists>r w'. encrypt_file_chunked A R os input output wk i w = Some (r, w')"
  unfolding encrypt_file_chunked_def
proof (rule io_bind_st_returns)
  fix x w1
  assume "with_rng (new_blob_keys A R wk i) w = (Ok x, w1)"
  then obtain a dk np wp where x: "x = (a, dk, np, wp)"
    and keys: "new_blob_keys A R wk i (rng_state w) = (Ok (a, dk, np, wp), rng_state w1)"
    by (cases x) (auto simp: with_rng_def split: prod.splits)
  have len: "length (write_header [] wp np) = 72"
    using keys by (rule new_blob_keys_Ok) (simp add: write_header_def chunk_size_be_def)
  have "\<exists>r2 s2. io_bind (io_st (st_map_err (\<lambda>_. Io) (file_open os input))) (\<lambda>fin.
      io_bind (io_st (st_map_err (\<lambda>_. Io) (file_create os output))) (\<lambda>fout w.
      map_option (\<lambda>(r, s). (r, drop_writer os s)) (encrypt_stream A os a dk np wp fin (fout, w)))) w1 = Some (r2, s2)"
  proof (intro io_bind_st_returns)
    fix fin w2 fout w3
    assume "st_map_err (\<lambda>_. Io) (file_open os input) w1 = (Ok fin, w2)"
      "st_map_err (\<lambda>_. Io) (file_create os output) w2 = (Ok fout, w3)"
    then have op: "file_open os input w1 = (Ok fin, w2)" and cr: "file_create os output w2 = (Ok fout, w3)"
      by (auto simp: st_map_err_apply prod_eq_iff)
    note co = file_create_Ok(1,3) [OF cr]
    obtain r s where "encrypt_stream A os a dk np wp fin (fout, w3) = Some (r, s)"
      using encrypt_stream_returns [OF len, of fin "(fout, w3)" A os a dk] file_open_cases(4) [OF op refl] co by auto
    then show "\<exists>r2 s2. map_option (\<lambda>(r, s). (r, drop_writer os s)) (encrypt_stream A os a dk np wp fin (fout, w3)) =
        Some (r2, s2)" by simp
  qed
  then show "\<exists>r2 s2. (case x of (seg_aad, data_key, nonce_prefix, wrapped) \<Rightarrow>
      io_bind (io_st (st_map_err (\<lambda>_. Io) (file_open os input))) (\<lambda>fin.
      io_bind (io_st (st_map_err (\<lambda>_. Io) (file_create os output))) (\<lambda>fout w.
      map_option (\<lambda>(r, s). (r, drop_writer os s))
        (encrypt_stream A os seg_aad data_key nonce_prefix wrapped fin (fout, w))))) w1 = Some (r2, s2)"
    by (simp add: x)
qed

lemma decrypt_publish_returns:
  assumes "length (r_buf rd) \<le> DEFAULT_BUF_SIZE"
  shows "\<exists>r w'. decrypt_publish A os tmp output a rd dec (CHUNK_SIZE + 16) w = Some (r, w')"
  unfolding decrypt_publish_def
proof (rule io_bind_st_returns)
  fix fout w1
  assume "st_map_err (\<lambda>_. Io) (file_create os tmp) w = (Ok fout, w1)"
  then have cr: "file_create os tmp w = (Ok fout, w1)" by (auto simp: st_map_err_apply prod_eq_iff)
  note co = file_create_Ok(1,3) [OF cr]
  have "r_ino rd \<noteq> w_ino fout \<or> length (remaining rd w1) < CHUNK_SIZE + 16"
    using assms co by (auto simp: remaining_def node_bytes_def CHUNK_SIZE_def DEFAULT_BUF_SIZE_def)
  then have "r_ino rd \<noteq> w_ino (fst (fout, w1)) \<or> length (remaining rd (snd (fout, w1))) < CHUNK_SIZE + 16" by simp
  then obtain r s where loop: "stream_loop (dec_next A) (dec_last A) os a (CHUNK_SIZE + 16) rd
      (replicate (CHUNK_SIZE + 16) 0) None dec (fout, w1) = Some (r, s)"
    by (rule stream_loop_returns [OF trans_less_add1 [OF CHUNK_SIZE_pos] length_replicate])
  have "\<exists>r2 s2. decrypt_stream A os a rd dec (CHUNK_SIZE + 16) (fout, w1) = Some (r2, s2)"
    unfolding decrypt_stream_def
    by (rule io_bind_returns, rule loop, rule io_bind_st_returns) (simp add: io_st_def st_map_err_apply)
  then obtain r2 s2 where "decrypt_stream A os a rd dec (CHUNK_SIZE + 16) (fout, w1) = Some (r2, s2)" by blast
  then have "(\<lambda>w. map_option (\<lambda>(r, s). (r, drop_writer os s))
      (decrypt_stream A os a rd dec (CHUNK_SIZE + 16) (fout, w))) w1 = Some (r2, drop_writer os s2)" by simp
  then show "\<exists>r2 s2. io_bind (\<lambda>w. map_option (\<lambda>(r, s). (r, drop_writer os s))
      (decrypt_stream A os a rd dec (CHUNK_SIZE + 16) (fout, w))) (\<lambda>_. io_st (st_map_err (\<lambda>_. Io) (rename os tmp output))) w1 =
      Some (r2, s2)"
    by (rule io_bind_returns) (simp add: io_st_def st_map_err_apply)
qed

lemma decrypt_file_always_returns: "\<exists>r w'. decrypt_file_chunked A R os input output wk i w = Some (r, w')"
  unfolding decrypt_file_chunked_def
proof (rule io_bind_st_returns)
  fix x w1
  assume op: "decrypt_open A os input wk i w = (Ok x, w1)"
  obtain a rd dec n where x: "x = (a, rd, dec, n)" by (cases x) auto
  note b = decrypt_open_buffer [OF op [unfolded x]]
  have "\<exists>r2 s2. io_bind (io_st (with_rng (sibling_temp_path R output))) (\<lambda>tmp w. map_option (\<lambda>(r, w1).
      (r, drop_cleanup os \<lparr> cleanup_path = tmp, armed = (r \<noteq> Ok ()) \<rparr> w1))
      (decrypt_publish A os tmp output a rd dec n w)) w1 = Some (r2, s2)"
  proof (rule io_bind_st_returns)
    fix tmp w2
    obtain r w3 where "decrypt_publish A os tmp output a rd dec n w2 = Some (r, w3)"
      using decrypt_publish_returns [OF b(1), of A os tmp "output" a dec w2] b(2) by auto
    then show "\<exists>r2 s2. map_option (\<lambda>(r, w1). (r, drop_cleanup os \<lparr> cleanup_path = tmp, armed = (r \<noteq> Ok ()) \<rparr> w1))
      (decrypt_publish A os tmp output a rd dec n w2) = Some (r2, s2)" by simp
  qed
  then show "\<exists>r2 s2. (case x of (seg_aad, fin, dec, ct_chunk) \<Rightarrow>
      io_bind (io_st (with_rng (sibling_temp_path R output))) (\<lambda>tmp w. map_option (\<lambda>(r, w1).
        (r, drop_cleanup os \<lparr> cleanup_path = tmp, armed = (r \<noteq> Ok ()) \<rparr> w1))
        (decrypt_publish A os tmp output seg_aad fin dec ct_chunk w))) w1 = Some (r2, s2)"
    by (simp add: x)
qed

text \<open>
  C13: the file codecs always return. Whatever the disk holds (dangling names included), whatever the
  environment answers, whatever the crates do, and even when input and output are one file,
  \<open>encrypt_file_chunked\<close> and \<open>decrypt_file_chunked\<close> come to an end.
\<close>

theorem file_codecs_terminate:
  "(\<exists>r w'. encrypt_file_chunked A R os input output wk i w = Some (r, w')) \<and>
   (\<exists>r w'. decrypt_file_chunked A R os input output wk i w = Some (r, w'))"
  using encrypt_file_returns decrypt_file_always_returns by blast

end
