(* ===== verification/Filum_Process.thy ===== *)
theory Filum_Process
  imports Filum_File_Termination
begin

text \<open>
  \<open>decrypt_file_chunked\<close> as a state machine: one call is a process with the local variables of the
  function and a phase that says which statement comes next. A step of the machine is one statement
  of the source that calls the standard library (one read, one write, one rename, ...) with the
  computation around it. Running the machine to its end is \<open>decrypt_file_chunked\<close>; the machine is what
  can be interleaved with other calls.
\<close>

subsection \<open>The machine\<close>

text \<open>
  The phases, in the order of the source. \<open>Head\<close> and \<open>Fill\<close> are the two read loops with the number of
  bytes filled so far; \<open>Next\<close> and \<open>Last\<close> are the two branches of the streaming loop with the number of
  bytes read; \<open>Drop\<close> is the end of the scope of \<open>fout\<close> and \<open>Clean\<close> the destructor of the armed
  \<open>TempCleanup\<close>, both with the result the function is about to return.
\<close>

datatype phase =
    Start
  | Head nat
  | Parse nat
  | Draw
  | Create
  | Fill nat
  | Next nat
  | Last nat
  | Flush
  | Sync
  | Drop "unit Result"
  | Rename
  | Clean "unit Result"
  | Done "unit Result"

record 'd process =
  p_input :: path
  p_output :: path
  p_key :: bytes
  p_id :: string
  p_aad :: bytes
  p_fin :: reader
  p_buf :: bytes
  p_dec :: 'd
  p_chunk :: nat
  p_tmp :: path
  p_fout :: writer
  p_pending :: "bytes option"
  p_phase :: phase

text \<open>
  One turn of the loop of \<open>read_full\<close> (and of \<open>read_exact\<close>): a flag that says whether the loop goes on,
  the reader, the buffer and the number of bytes filled.
\<close>

definition fill_turn ::
  "os \<Rightarrow> reader \<Rightarrow> bytes \<Rightarrow> nat \<Rightarrow> ('r world, FilumCryptoError, bool \<times> reader \<times> bytes \<times> nat) st" where
  "fill_turn os rd buf filled =
     (if filled < length buf then
        st_bind (st_map_err (\<lambda>_. Io) (read os rd (length buf - filled))) (\<lambda>(bs, rd1).
        st_lift (Ok (if bs = [] then (False, rd1, buf, filled)
                     else (True, rd1, take filled buf @ bs @ drop (filled + length bs) buf, filled + length bs))))
      else st_lift (Ok (False, rd, buf, filled)))"

text \<open>The branch of a statement that may fail: \<open>?\<close> leads to the phase given for the error.\<close>

definition branch ::
  "('e, 'a) outcome \<times> 's \<Rightarrow> ('a \<Rightarrow> 'p) \<Rightarrow> (('e, unit) outcome \<Rightarrow> 'p) \<Rightarrow> 'p \<times> 's" where
  "branch x ok err =
     (case x of (r, s) \<Rightarrow> ((case r of Ok y \<Rightarrow> ok y | Err e \<Rightarrow> err (Err e) | Panic \<Rightarrow> err Panic), s))"

definition proc_step ::
  "('e, 'd) aead_lib \<Rightarrow> 'r rng \<Rightarrow> os \<Rightarrow> 'd process \<times> 'r world \<Rightarrow> 'd process \<times> 'r world" where
  "proc_step A R os s = (case s of (p, w) \<Rightarrow>
     let goto = (\<lambda>ph. p\<lparr> p_phase := ph \<rparr>); fs = (p_fout p, w);
         keep = (\<lambda>(q, wr, w'). (q\<lparr> p_fout := wr \<rparr>, w')) in
     (case p_phase p of
        Start \<Rightarrow>
          (case blob_segment_aad (p_id p) of
             Ok a \<Rightarrow>
               branch (st_map_err (\<lambda>_. Io) (file_open os (p_input p)) w)
                 (\<lambda>rd. p\<lparr> p_aad := a, p_fin := rd, p_buf := replicate HEADER_LEN 0, p_phase := Head 0 \<rparr>)
                 (\<lambda>r. goto (Done r))
           | Err e \<Rightarrow> (goto (Done (Err e)), w)
           | Panic \<Rightarrow> (goto (Done Panic), w))
      | Head n \<Rightarrow>
          branch (fill_turn os (p_fin p) (p_buf p) n w)
            (\<lambda>(go, rd, buf, n'). p\<lparr> p_fin := rd, p_buf := buf, p_phase := if go then Head n' else Parse n' \<rparr>)
            (\<lambda>r. goto (Done r))
      | Parse n \<Rightarrow>
          branch (st_lift (
              res_bind (if n < length (p_buf p) then Err Io else Ok ()) (\<lambda>_.
              res_bind (index (p_buf p) 0) (\<lambda>version.
              if version \<noteq> VERSION then Err Aead else open_header A (p_buf p) (p_key p) (p_id p)))) w)
            (\<lambda>(nonce_prefix, data_key, chunk_size).
               p\<lparr> p_dec := dec_from_aead A data_key nonce_prefix, p_chunk := chunk_size + 16, p_phase := Draw \<rparr>)
            (\<lambda>r. goto (Done r))
      | Draw \<Rightarrow>
          branch (with_rng (sibling_temp_path R (p_output p)) w)
            (\<lambda>tmp. p\<lparr> p_tmp := tmp, p_phase := Create \<rparr>)
            (\<lambda>r. goto (Done r))
      | Create \<Rightarrow>
          branch (st_map_err (\<lambda>_. Io) (file_create os (p_tmp p)) w)
            (\<lambda>wr. p\<lparr> p_fout := wr, p_buf := replicate (p_chunk p) 0, p_pending := None, p_phase := Fill 0 \<rparr>)
            (\<lambda>r. goto (Clean r))
      | Fill n \<Rightarrow>
          branch (fill_turn os (p_fin p) (p_buf p) n w)
            (\<lambda>(go, rd, buf, n'). p\<lparr> p_fin := rd, p_buf := buf, p_phase := if go then Fill n' else Next n' \<rparr>)
            (\<lambda>r. goto (Drop r))
      | Next n \<Rightarrow>
          keep (branch (write_pending (dec_next A) os (p_aad p) (p_pending p) (p_dec p) fs)
            (\<lambda>dec. p\<lparr> p_dec := dec, p_pending := None, p_phase := Last n \<rparr>)
            (\<lambda>r. goto (Drop r)))
      | Last n \<Rightarrow>
          if n < p_chunk p then
            keep (branch (write_last (dec_last A) os (p_aad p) (take n (p_buf p)) (p_dec p) fs)
              (\<lambda>_. goto Flush) (\<lambda>r. goto (Drop r)))
          else (p\<lparr> p_pending := Some (take n (p_buf p)), p_phase := Fill 0 \<rparr>, w)
      | Flush \<Rightarrow>
          keep (branch (st_map_err (\<lambda>_. Io) (flush os) fs) (\<lambda>_. goto Sync) (\<lambda>r. goto (Drop r)))
      | Sync \<Rightarrow>
          keep (branch (st_map_err (\<lambda>_. Io) (sync_all os) fs) (\<lambda>_. goto (Drop (Ok ()))) (\<lambda>r. goto (Drop r)))
      | Drop r \<Rightarrow> (goto (if r = Ok () then Rename else Clean r), drop_writer os fs)
      | Rename \<Rightarrow>
          branch (st_map_err (\<lambda>_. Io) (rename os (p_tmp p) (p_output p)) w)
            (\<lambda>_. goto (Done (Ok ()))) (\<lambda>r. goto (Clean r))
      | Clean r \<Rightarrow> (goto (Done r), drop_cleanup os \<lparr> cleanup_path = p_tmp p, armed = True \<rparr> w)
      | Done r \<Rightarrow> (p, w)))"

definition finished :: "'d process \<Rightarrow> bool" where
  "finished p \<longleftrightarrow> (case p_phase p of Done _ \<Rightarrow> True | _ \<Rightarrow> False)"

text \<open>
  A process that has not started: the arguments of the call; the other variables are not assigned yet
  and hold anything.
\<close>

definition start_call :: "path \<Rightarrow> path \<Rightarrow> bytes \<Rightarrow> string \<Rightarrow> 'd process \<Rightarrow> 'd process" where
  "start_call input output wk i locals =
     locals\<lparr> p_input := input, p_output := output, p_key := wk, p_id := i, p_phase := Start \<rparr>"

definition calls :: "path \<Rightarrow> path \<Rightarrow> bytes \<Rightarrow> string \<Rightarrow> 'd process \<Rightarrow> bool" where
  "calls input output wk i p \<longleftrightarrow>
     p_input p = input \<and> p_output p = output \<and> p_key p = wk \<and> p_id p = i \<and> p_phase p = Start"

text \<open>The machine as a relation, and its runs.\<close>

inductive pstep ::
  "('e, 'd) aead_lib \<Rightarrow> 'r rng \<Rightarrow> os \<Rightarrow> 'd process \<times> 'r world \<Rightarrow> 'd process \<times> 'r world \<Rightarrow> bool"
  for A R os where
  move: "\<not> finished (fst s) \<Longrightarrow> pstep A R os s (proc_step A R os s)"

inductive_cases pstepE: "pstep A R os s t"

abbreviation psteps ::
  "('e, 'd) aead_lib \<Rightarrow> 'r rng \<Rightarrow> os \<Rightarrow> 'd process \<times> 'r world \<Rightarrow> 'd process \<times> 'r world \<Rightarrow> bool" where
  "psteps A R os \<equiv> (pstep A R os)\<^sup>*\<^sup>*"

lemma branch_simps [simp]:
  "branch (Ok y, s) ok err = (ok y, s)" "branch (Err e, s) ok err = (err (Err e), s)"
  "branch (Panic, s) ok err = (err Panic, s)"
  by (simp_all add: branch_def)

lemma finished_simps [simp]:
  "finished (p\<lparr> p_phase := ph \<rparr>) = (case ph of Done _ \<Rightarrow> True | _ \<Rightarrow> False)"
  by (simp add: finished_def)

lemma pstep_deterministic: "pstep A R os s t \<Longrightarrow> pstep A R os s u \<Longrightarrow> t = u"
  by (auto elim!: pstepE)

lemma pstep_eq: "\<not> finished p \<Longrightarrow> proc_step A R os (p, w) = t \<Longrightarrow> pstep A R os (p, w) t"
  using pstep.move [of "(p, w)"] by auto

lemma psteps_step:
  assumes "\<not> finished p" "psteps A R os (proc_step A R os (p, w)) t"
  shows "psteps A R os (p, w) t"
  using assms by (metis converse_rtranclp_into_rtranclp fst_conv pstep.move)

subsection \<open>The read loops\<close>

lemma fill_turn_eq:
  "fill_turn os rd buf n w =
     (if n < length buf then
        (case read os rd (length buf - n) w of (r1, w1) \<Rightarrow>
           (case r1 of
              Ok (bs, rd1) \<Rightarrow>
                (Ok (if bs = [] then (False, rd1, buf, n)
                     else (True, rd1, take n buf @ bs @ drop (n + length bs) buf, n + length bs)), w1)
            | Err _ \<Rightarrow> (Err Io, w1) | Panic \<Rightarrow> (Panic, w1)))
      else (Ok (False, rd, buf, n), w))"
proof (cases "read os rd (length buf - n) w")
  case (Pair r w1)
  then show ?thesis by (cases r) (auto simp: fill_turn_def st_bind_def st_map_err_apply)
qed

lemma read_full_turn:
  "read_full os rd buf n w =
     (case fill_turn os rd buf n w of (r, w1) \<Rightarrow>
        (case r of
           Ok (go, rd1, buf1, n1) \<Rightarrow> if go then read_full os rd1 buf1 n1 w1 else (Ok (n1, rd1, buf1), w1)
         | Err e \<Rightarrow> (Err e, w1) | Panic \<Rightarrow> (Panic, w1)))"
proof (cases "n < length buf")
  case True
  obtain r w1 where rd: "read os rd (length buf - n) w = (r, w1)" by (metis surj_pair)
  show ?thesis
    using True rd
    by (cases r) (auto simp: read_full.simps [of os rd buf n w] fill_turn_eq)
qed (simp add: read_full.simps [of os rd buf n w] fill_turn_eq)

lemma fill_turn_cases:
  assumes "fill_turn os rd buf n w = (r, w')"
  shows "quiet w w'" "rng_state w' = rng_state w" "r \<noteq> Panic" "r = Err e \<Longrightarrow> e = Io \<and> \<not> os_ok os"
proof -
  obtain r1 w1 where rd: "read os rd (length buf - n) w = (r1, w1)" by (metis surj_pair)
  note rc = read_cases(1-4) [OF rd]
  show "quiet w w'" "rng_state w' = rng_state w" "r \<noteq> Panic" "r = Err e \<Longrightarrow> e = Io \<and> \<not> os_ok os"
    using assms rd rc
    by (cases r1; auto simp: fill_turn_eq qt.rel_refl split: if_splits)+
qed

text \<open>A turn moves bytes from the file to the filled part of the buffer.\<close>

lemma fill_turn_Ok:
  assumes "fill_turn os rd buf n w = (Ok (go, rd', buf', n'), w')"
  shows "r_ino rd' = r_ino rd" "length (r_buf rd') \<le> max DEFAULT_BUF_SIZE (length (r_buf rd))"
    "n \<le> length buf \<Longrightarrow> length buf' = length buf \<and> n' \<le> length buf \<and>
       take n' buf' @ remaining rd' w = take n buf @ remaining rd w"
    "go \<Longrightarrow> n < length buf \<and> n < n'" "\<not> go \<Longrightarrow> n' = n \<and> (n < length buf \<longrightarrow> remaining rd' w = [])"
    "n \<le> n'"
proof -
  have "r_ino rd' = r_ino rd \<and> length (r_buf rd') \<le> max DEFAULT_BUF_SIZE (length (r_buf rd)) \<and>
    (n \<le> length buf \<longrightarrow> length buf' = length buf \<and> n' \<le> length buf \<and>
       take n' buf' @ remaining rd' w = take n buf @ remaining rd w) \<and>
    (go \<longrightarrow> n < length buf \<and> n < n') \<and> (\<not> go \<longrightarrow> n' = n \<and> (n < length buf \<longrightarrow> remaining rd' w = [])) \<and> n \<le> n'"
  proof (cases "n < length buf")
    case False
    then show ?thesis using assms by (auto simp: fill_turn_eq)
  next
    case True
    obtain r1 w1 where rd: "read os rd (length buf - n) w = (r1, w1)" by (metis surj_pair)
    then obtain bs rd1 where r1: "r1 = Ok (bs, rd1)"
      using assms True by (cases r1) (auto simp: fill_turn_eq)
    have eq: "(go, rd', buf', n') = (if bs = [] then (False, rd1, buf, n)
        else (True, rd1, take n buf @ bs @ drop (n + length bs) buf, n + length bs))"
      using assms True rd r1 by (simp add: fill_turn_eq)
    note rc = read_cases(5,6) [OF rd r1]
    show ?thesis
    proof (cases "bs = []")
      case False
      then have "take n' buf' = take n buf @ bs" "length buf' = length buf" "n' \<le> length buf"
        using eq True rc(1) by auto
      then show ?thesis using rc eq False True by auto
    qed (use rc eq True in auto)
  qed
  then show "r_ino rd' = r_ino rd" "length (r_buf rd') \<le> max DEFAULT_BUF_SIZE (length (r_buf rd))"
    "n \<le> length buf \<Longrightarrow> length buf' = length buf \<and> n' \<le> length buf \<and>
       take n' buf' @ remaining rd' w = take n buf @ remaining rd w"
    "go \<Longrightarrow> n < length buf \<and> n < n'" "\<not> go \<Longrightarrow> n' = n \<and> (n < length buf \<longrightarrow> remaining rd' w = [])"
    "n \<le> n'" by blast+
qed

text \<open>A machine whose steps are turns of the loop runs the loop.\<close>

lemma fill_runs:
  assumes turn: "\<And>rd buf n w. S (E rd buf n, w) (branch (fill_turn os rd buf n w)
      (\<lambda>(go, rd', buf', n'). if go then E rd' buf' n' else F rd' buf' n') (G rd buf n))"
  shows "read_full os rd buf n w = (r, w') \<Longrightarrow>
    \<exists>y. S\<^sup>*\<^sup>* (E rd buf n, w) (y, w') \<and>
      (case r of Ok (m, rd', buf') \<Rightarrow> y = F rd' buf' m
       | Err e \<Rightarrow> \<exists>rd' buf' n'. y = G rd' buf' n' (Err e) | Panic \<Rightarrow> \<exists>rd' buf' n'. y = G rd' buf' n' Panic)"
proof (induction "length buf - n" arbitrary: rd buf n w rule: less_induct)
  case less
  obtain r1 w1 where t: "fill_turn os rd buf n w = (r1, w1)" by (metis surj_pair)
  note step = turn [of rd buf n w, unfolded t]
  show ?case
  proof (cases r1)
    case (Ok x)
    obtain go rd1 buf1 n1 where x: "x = (go, rd1, buf1, n1)" by (cases x) auto
    show ?thesis
    proof (cases go)
      case True
      with t Ok x have "length buf1 - n1 < length buf - n"
        using fill_turn_Ok(3,4) [of os rd buf n w go rd1 buf1 n1 w1] by auto
      moreover have "read_full os rd1 buf1 n1 w1 = (r, w')"
        using less.prems True Ok x t by (simp add: read_full_turn [of os rd buf n w])
      ultimately obtain y where "S\<^sup>*\<^sup>* (E rd1 buf1 n1, w1) (y, w')"
        "case r of Ok (m, rd', buf') \<Rightarrow> y = F rd' buf' m
         | Err e \<Rightarrow> \<exists>rd' buf' n'. y = G rd' buf' n' (Err e) | Panic \<Rightarrow> \<exists>rd' buf' n'. y = G rd' buf' n' Panic"
        using less.hyps by blast
      moreover have "S (E rd buf n, w) (E rd1 buf1 n1, w1)" using step Ok x True by simp
      ultimately show ?thesis by (meson converse_rtranclp_into_rtranclp)
    next
      case False
      then have "r = Ok (n1, rd1, buf1)" "w' = w1" using less.prems Ok x t by (simp_all add: read_full_turn [of os rd buf n w])
      then show ?thesis using step Ok x False by auto
    qed
  next
    case (Err e)
    then have "r = Err e" "w' = w1" using less.prems t by (simp_all add: read_full_turn [of os rd buf n w])
    then show ?thesis using step Err by auto
  next
    case Panic
    then have "r = Panic" "w' = w1" using less.prems t by (simp_all add: read_full_turn [of os rd buf n w])
    then show ?thesis using step Panic by auto
  qed
qed

lemma proc_step_reading:
  "proc_step A R os (p\<lparr> p_fin := rd, p_buf := buf, p_phase := Head n \<rparr>, w) =
     branch (fill_turn os rd buf n w)
       (\<lambda>(go, rd', buf', n'). if go then p\<lparr> p_fin := rd', p_buf := buf', p_phase := Head n' \<rparr>
          else p\<lparr> p_fin := rd', p_buf := buf', p_phase := Parse n' \<rparr>)
       (\<lambda>r. p\<lparr> p_fin := rd, p_buf := buf, p_phase := Done r \<rparr>)"
  "proc_step A R os (p\<lparr> p_fin := rd, p_buf := buf, p_phase := Fill n \<rparr>, w) =
     branch (fill_turn os rd buf n w)
       (\<lambda>(go, rd', buf', n'). if go then p\<lparr> p_fin := rd', p_buf := buf', p_phase := Fill n' \<rparr>
          else p\<lparr> p_fin := rd', p_buf := buf', p_phase := Next n' \<rparr>)
       (\<lambda>r. p\<lparr> p_fin := rd, p_buf := buf, p_phase := Drop r \<rparr>)"
  by (simp_all add: proc_step_def branch_def split: prod.split outcome.split)

lemma header_runs:
  assumes "read_full os rd buf 0 w = (r, w')"
  shows "\<exists>y. psteps A R os (p\<lparr> p_fin := rd, p_buf := buf, p_phase := Head 0 \<rparr>, w) (y, w') \<and>
    (case r of Ok (m, rd', buf') \<Rightarrow> y = p\<lparr> p_fin := rd', p_buf := buf', p_phase := Parse m \<rparr>
     | Err e \<Rightarrow> \<exists>rd' buf' n' :: nat. y = p\<lparr> p_fin := rd', p_buf := buf', p_phase := Done (Err e) \<rparr>
     | Panic \<Rightarrow> \<exists>rd' buf' n' :: nat. y = p\<lparr> p_fin := rd', p_buf := buf', p_phase := Done Panic \<rparr>)"
  by (rule fill_runs [OF _ assms, where E = "\<lambda>rd buf n. p\<lparr> p_fin := rd, p_buf := buf, p_phase := Head n \<rparr>"
        and F = "\<lambda>rd buf n. p\<lparr> p_fin := rd, p_buf := buf, p_phase := Parse n \<rparr>"
        and G = "\<lambda>rd buf n r. p\<lparr> p_fin := rd, p_buf := buf, p_phase := Done r \<rparr>"])
    (rule pstep_eq, simp_all add: proc_step_reading)

lemma chunk_runs:
  assumes "read_full os rd buf 0 w = (r, w')"
  shows "\<exists>y. psteps A R os (p\<lparr> p_fin := rd, p_buf := buf, p_phase := Fill 0 \<rparr>, w) (y, w') \<and>
    (case r of Ok (m, rd', buf') \<Rightarrow> y = p\<lparr> p_fin := rd', p_buf := buf', p_phase := Next m \<rparr>
     | Err e \<Rightarrow> \<exists>rd' buf' n' :: nat. y = p\<lparr> p_fin := rd', p_buf := buf', p_phase := Drop (Err e) \<rparr>
     | Panic \<Rightarrow> \<exists>rd' buf' n' :: nat. y = p\<lparr> p_fin := rd', p_buf := buf', p_phase := Drop Panic \<rparr>)"
  by (rule fill_runs [OF _ assms, where E = "\<lambda>rd buf n. p\<lparr> p_fin := rd, p_buf := buf, p_phase := Fill n \<rparr>"
        and F = "\<lambda>rd buf n. p\<lparr> p_fin := rd, p_buf := buf, p_phase := Next n \<rparr>"
        and G = "\<lambda>rd buf n r. p\<lparr> p_fin := rd, p_buf := buf, p_phase := Drop r \<rparr>"])
    (rule pstep_eq, simp_all add: proc_step_reading)

subsection \<open>The streaming loop\<close>

text \<open>A later state of the same call: arguments, associated data, chunk size and temporary name are as before.\<close>

definition same_call :: "'d process \<Rightarrow> 'd process \<Rightarrow> bool" where
  "same_call p q \<longleftrightarrow>
     p_input q = p_input p \<and> p_output q = p_output p \<and> p_key q = p_key p \<and> p_id q = p_id p \<and>
     p_aad q = p_aad p \<and> p_chunk q = p_chunk p \<and> p_tmp q = p_tmp p"

text \<open>
  Where the machine is when a part of the function that holds the writer has returned \<open>r\<close> with the writer
  and the world \<open>s\<close>: in phase \<open>ph\<close>, or about to drop the writer.
\<close>

definition after_part ::
  "'d process \<Rightarrow> phase \<Rightarrow> unit Result \<Rightarrow> writer \<times> 'r world \<Rightarrow> 'd process \<times> 'r world \<Rightarrow> bool" where
  "after_part p ph r s t \<longleftrightarrow>
     same_call p (fst t) \<and> p_fout (fst t) = fst s \<and> snd t = snd s \<and>
     p_phase (fst t) = (if r = Ok () then ph else Drop r)"

definition after_step ::
  "'d process \<Rightarrow> (nat \<times> reader \<times> bytes \<times> 'd) Result \<Rightarrow> writer \<times> 'r world \<Rightarrow> 'd process \<times> 'r world \<Rightarrow> bool" where
  "after_step p r s t \<longleftrightarrow>
     same_call p (fst t) \<and> p_fout (fst t) = fst s \<and> snd t = snd s \<and>
     (case r of
        Ok (n, rd, buf, key) \<Rightarrow>
          p_phase (fst t) = Last n \<and> p_fin (fst t) = rd \<and> p_buf (fst t) = buf \<and> p_dec (fst t) = key
      | Err e \<Rightarrow> p_phase (fst t) = Drop (Err e)
      | Panic \<Rightarrow> p_phase (fst t) = Drop Panic)"

lemma step_part_runs:
  assumes "stream_step (dec_next A) os (p_aad p) (p_fin p) (p_buf p) (p_pending p) (p_dec p) (p_fout p, w) = (r, s')"
    and "p_phase p = Fill 0"
  shows "\<exists>t. psteps A R os (p, w) t \<and> after_step p r s' t"
proof -
  obtain r1 w1 where rf: "read_full os (p_fin p) (p_buf p) 0 w = (r1, w1)" by (metis surj_pair)
  have p: "p\<lparr> p_fin := p_fin p, p_buf := p_buf p, p_phase := Fill 0 \<rparr> = p" using assms(2) by (cases p) simp
  note run = chunk_runs [OF rf, of A R p, unfolded p]
  show ?thesis
  proof (cases r1)
    case (Ok x)
    obtain n rd buf where x: "x = (n, rd, buf)" by (cases x) auto
    let ?q = "p\<lparr> p_fin := rd, p_buf := buf, p_phase := Next n \<rparr>"
    have 1: "psteps A R os (p, w) (?q, w1)" using run Ok x by auto
    obtain r2 wr2 w2 where wp: "write_pending (dec_next A) os (p_aad p) (p_pending p) (p_dec p) (p_fout p, w1) = (r2, wr2, w2)"
      by (metis surj_pair)
    have "pstep A R os (?q, w1) (proc_step A R os (?q, w1))" by (rule pstep_eq) simp_all
    with 1 have "psteps A R os (p, w) (proc_step A R os (?q, w1))" by (rule rtranclp.rtrancl_into_rtrancl)
    moreover have "r = (case r2 of Ok key \<Rightarrow> Ok (n, rd, buf, key) | Err e \<Rightarrow> Err e | Panic \<Rightarrow> Panic)" "s' = (wr2, w2)"
      using assms(1) rf Ok x wp by (cases r2; auto simp: stream_step_def st_bind_def on_world_apply)+
    then have "after_step p r s' (proc_step A R os (?q, w1))"
      by (cases r2) (simp_all add: proc_step_def wp same_call_def after_step_def)
    ultimately show ?thesis by blast
  next
    case (Err e)
    then have "r = Err e" "s' = (p_fout p, w1)"
      using assms(1) rf by (simp_all add: stream_step_def st_bind_def on_world_apply)
    then show ?thesis using run Err by (auto simp: same_call_def after_step_def)
  next
    case Panic
    then show ?thesis using read_full_cases(3) [OF rf] by simp
  qed
qed

text \<open>The loop, by induction on its computation.\<close>

definition in_loop :: "bytes \<Rightarrow> nat \<Rightarrow> reader \<Rightarrow> bytes \<Rightarrow> bytes option \<Rightarrow> 'd \<Rightarrow> writer \<Rightarrow> 'd process \<Rightarrow> bool" where
  "in_loop a sz rd buf pending key wr p \<longleftrightarrow>
     p_aad p = a \<and> p_chunk p = sz \<and> p_fin p = rd \<and> p_buf p = buf \<and> p_pending p = pending \<and>
     p_dec p = key \<and> p_fout p = wr \<and> p_phase p = Fill 0"

lemma same_call_trans: "same_call p q \<Longrightarrow> same_call q t \<Longrightarrow> same_call p t"
  by (simp add: same_call_def)

lemma last_part_runs:
  assumes "p_phase p = Last n" "n < p_chunk p"
    and "write_last (dec_last A) os (p_aad p) (take n (p_buf p)) (p_dec p) (p_fout p, w) = (r, s')"
  shows "\<exists>t. pstep A R os (p, w) t \<and> after_part p Flush r s' t"
proof -
  have "pstep A R os (p, w) (proc_step A R os (p, w))"
    using assms(1) by (intro pstep_eq) (simp_all add: finished_def)
  moreover have "after_part p Flush r s' (proc_step A R os (p, w))"
    using assms by (cases r; cases s') (simp_all add: proc_step_def after_part_def same_call_def)
  ultimately show ?thesis by blast
qed

lemma after_part_same: "same_call p q \<Longrightarrow> after_part q ph r s t \<Longrightarrow> after_part p ph r s t"
  by (auto simp: after_part_def intro: same_call_trans)

text \<open>One turn: it leaves the loop, or comes back to its start with the chunk held.\<close>

lemma turn_runs:
  assumes "stream_step (dec_next A) os a rd buf pending key s = (r1, s1)" "in_loop a sz rd buf pending key (fst s) p"
  shows "r1 = Err e \<Longrightarrow> \<exists>t. psteps A R os (p, snd s) t \<and> after_part p Flush (Err e) s1 t"
    "r1 = Ok (n, rd1, buf1, key1) \<Longrightarrow> n < sz \<Longrightarrow> write_last (dec_last A) os a (take n buf1) key1 s1 = (r, s') \<Longrightarrow>
       \<exists>t. psteps A R os (p, snd s) t \<and> after_part p Flush r s' t"
    "r1 = Ok (n, rd1, buf1, key1) \<Longrightarrow> \<not> n < sz \<Longrightarrow>
       \<exists>q. psteps A R os (p, snd s) (q, snd s1) \<and> same_call p q \<and>
         in_loop a sz rd1 buf1 (Some (take n buf1)) key1 (fst s1) q"
proof -
  have "stream_step (dec_next A) os (p_aad p) (p_fin p) (p_buf p) (p_pending p) (p_dec p) (p_fout p, snd s) = (r1, s1)"
    using assms by (cases s) (simp add: in_loop_def)
  from step_part_runs [OF this, of R] assms(2) obtain q w1 where run: "psteps A R os (p, snd s) (q, w1)"
    and af: "after_step p r1 s1 (q, w1)" by (auto simp: in_loop_def)
  then have q: "same_call p q" "p_fout q = fst s1" "w1 = snd s1" by (simp_all add: after_step_def)
  show "\<exists>t. psteps A R os (p, snd s) t \<and> after_part p Flush (Err e) s1 t" if "r1 = Err e"
    using run af that by (intro exI [of _ "(q, w1)"]) (simp add: after_part_def after_step_def)
  assume r1: "r1 = Ok (n, rd1, buf1, key1)"
  have ph: "p_phase q = Last n" "p_fin q = rd1" "p_buf q = buf1" "p_dec q = key1"
    using af by (simp_all add: after_step_def r1)
  have call: "p_aad q = a" "p_chunk q = sz" using q(1) assms(2) by (simp_all add: same_call_def in_loop_def)
  show "\<exists>t. psteps A R os (p, snd s) t \<and> after_part p Flush r s' t"
    if "n < sz" "write_last (dec_last A) os a (take n buf1) key1 s1 = (r, s')"
  proof -
    have "\<exists>t. pstep A R os (q, w1) t \<and> after_part q Flush r s' t"
      by (rule last_part_runs) (use that ph q call in auto)
    then show ?thesis
      using run after_part_same [OF q(1)] by (meson rtranclp.rtrancl_into_rtrancl)
  qed
  show "\<exists>q. psteps A R os (p, snd s) (q, snd s1) \<and> same_call p q \<and>
      in_loop a sz rd1 buf1 (Some (take n buf1)) key1 (fst s1) q" if "\<not> n < sz"
  proof -
    let ?q = "q\<lparr> p_pending := Some (take n buf1), p_phase := Fill 0 \<rparr>"
    have "pstep A R os (q, w1) (?q, w1)"
      using ph call that by (intro pstep_eq) (simp_all add: finished_def proc_step_def)
    then have "psteps A R os (p, snd s) (?q, snd s1)" using run q(3) by (meson rtranclp.rtrancl_into_rtrancl)
    moreover have "same_call p ?q" "in_loop a sz rd1 buf1 (Some (take n buf1)) key1 (fst s1) ?q"
      using ph call q(1,2) by (simp_all add: in_loop_def same_call_def)
    ultimately show ?thesis by blast
  qed
qed

lemma turn_then_loop:
  assumes p: "in_loop a sz rd buf pending key (fst s) p"
    and body: "(case stream_step (dec_next A) os a rd buf pending key s of
        (Ok (n, rd1, buf1, key1), s1) \<Rightarrow>
          if n < sz then Some (write_last (dec_last A) os a (take n buf1) key1 s1)
          else loop rd1 buf1 (Some (take n buf1)) key1 s1
      | (Err e, s1) \<Rightarrow> Some (Err e, s1) | (Panic, s1) \<Rightarrow> Some (Panic, s1)) = Some y"
    and IH: "\<And>rd buf pending key s q. loop rd buf pending key s = Some y \<Longrightarrow> in_loop a sz rd buf pending key (fst s) q \<Longrightarrow>
        \<exists>t. psteps A R os (q, snd s) t \<and> after_part q Flush (fst y) (snd y) t"
  shows "\<exists>t. psteps A R os (p, snd s) t \<and> after_part p Flush (fst y) (snd y) t"
proof -
  obtain r1 s1 where st: "stream_step (dec_next A) os a rd buf pending key s = (r1, s1)" by (metis surj_pair)
  note turn = turn_runs [OF st p, where R = R]
  have "r1 \<noteq> Panic" using stream_step_cases [OF st] by blast
  then consider e where "r1 = Err e"
    | n rd1 buf1 key1 where "r1 = Ok (n, rd1, buf1, key1)" "n < sz"
    | n rd1 buf1 key1 where "r1 = Ok (n, rd1, buf1, key1)" "\<not> n < sz"
    by (metis outcome.exhaust prod_cases4)
  then show ?thesis
  proof cases
    case (1 e)
    then have "y = (Err e, s1)" using body st by simp
    then show ?thesis using turn(1) [OF 1] by simp
  next
    case 2
    then have "write_last (dec_last A) os a (take n buf1) key1 s1 = (fst y, snd y)" using body st by simp
    from turn(2) [OF 2 this] show ?thesis .
  next
    case 3
    from turn(3) [OF 3] obtain q where q: "psteps A R os (p, snd s) (q, snd s1)" "same_call p q"
      "in_loop a sz rd1 buf1 (Some (take n buf1)) key1 (fst s1) q" by blast
    have "loop rd1 buf1 (Some (take n buf1)) key1 s1 = Some y" using body st 3 by simp
    from IH [OF this q(3)] show ?thesis using q(1) after_part_same [OF q(2)] by (meson rtranclp_trans)
  qed
qed

lemma loop_runs:
  assumes "stream_loop (dec_next A) (dec_last A) os a sz rd buf pending key s = Some y"
    and "in_loop a sz rd buf pending key (fst s) p"
  shows "\<exists>t. psteps A R os (p, snd s) t \<and> after_part p Flush (fst y) (snd y) t"
proof -
  define P where "P step final os a sz rd buf pending key s y \<longleftrightarrow>
    (step = dec_next A \<longrightarrow> final = dec_last A \<longrightarrow>
      (\<forall>p. in_loop a sz rd buf pending key (fst s) p \<longrightarrow>
        (\<exists>t. psteps A R os (p, snd s) t \<and> after_part p Flush (fst y) (snd y) t)))"
    for step final os a sz rd buf pending key s y
  have "P (dec_next A) (dec_last A) os a sz rd buf pending key s y"
  proof (rule stream_loop.raw_induct [OF _ assms(1), of P], unfold P_def, intro impI allI, goal_cases)
    case (1 loop step final os a sz rd buf pending key s y p)
    show ?case
      by (rule turn_then_loop [OF 1(5), of A os "loop step final os a sz"]) (use 1(1-4) in \<open>auto simp: P_def\<close>)
  qed
  then show ?thesis using assms(2) by (simp add: P_def)
qed

subsection \<open>The whole call\<close>

text \<open>Flush and sync after the loop, up to the point where the writer is dropped.\<close>

lemma advance:
  assumes "\<not> finished p" "Q (proc_step A R os (p, w))"
  shows "\<exists>t. psteps A R os (p, w) t \<and> Q t"
  using pstep_eq [OF assms(1) refl] assms(2) by blast

lemma flush_runs:
  assumes "p_phase p = Flush" "p_fout p = fst s" "flush os s = (r, s')"
  shows "\<exists>t. psteps A R os (p, snd s) t \<and> after_part p Sync (map_err (\<lambda>_. Io) r) s' t"
  by (rule advance) (use assms in
      \<open>cases r; cases s; cases s'; simp add: finished_def proc_step_def st_map_err_apply after_part_def same_call_def\<close>)+

lemma sync_runs:
  assumes "p_phase p = Sync" "p_fout p = fst s" "sync_all os s = (r, s')"
  shows "\<exists>t. psteps A R os (p, snd s) t \<and> after_part p (Drop (Ok ())) (map_err (\<lambda>_. Io) r) s' t"
  by (rule advance) (use assms in
      \<open>cases r; cases s; cases s'; simp add: finished_def proc_step_def st_map_err_apply after_part_def same_call_def\<close>)+

lemma after_part_then:
  assumes "psteps A R os s t" "after_part p ph (Ok ()) s1 t"
    and "\<And>q. same_call p q \<Longrightarrow> p_phase q = ph \<Longrightarrow> p_fout q = fst s1 \<Longrightarrow>
      \<exists>u. psteps A R os (q, snd s1) u \<and> after_part q ph' r s2 u"
  shows "\<exists>u. psteps A R os s u \<and> after_part p ph' r s2 u"
proof -
  have t: "same_call p (fst t)" "p_phase (fst t) = ph" "p_fout (fst t) = fst s1" "t = (fst t, snd s1)"
    using assms(2) by (simp_all add: after_part_def prod_eq_iff)
  from assms(3) [OF t(1-3)] obtain u where "psteps A R os t u" "after_part (fst t) ph' r s2 u"
    using t(4) by metis
  then show ?thesis using assms(1) after_part_same [OF t(1)] by (meson rtranclp_trans)
qed

lemma after_part_failed: "after_part p ph (Err e) s t \<Longrightarrow> after_part p ph' (Err e) s t"
  by (simp add: after_part_def)

lemma stream_runs:
  assumes run: "decrypt_stream A os a rd dec n s = Some (r, s')"
    and p: "in_loop a n rd (replicate n 0) None dec (fst s) p"
  shows "\<exists>t. psteps A R os (p, snd s) t \<and> after_part p (Drop (Ok ())) r s' t"
proof -
  obtain y where loop: "stream_loop (dec_next A) (dec_last A) os a n rd (replicate n 0) None dec s = Some y"
    using run by (auto simp: decrypt_stream_def io_bind_def split: option.splits)
  obtain r1 s1 where y: "y = (r1, s1)" by (cases y)
  obtain t where t: "psteps A R os (p, snd s) t" "after_part p Flush r1 s1 t"
    using loop_runs [OF loop p, of R] y by auto
  obtain r2 s2 where f: "flush os s1 = (r2, s2)" by (metis surj_pair)
  obtain r3 s3 where sy: "sync_all os s2 = (r3, s3)" by (metis surj_pair)
  have np: "r2 \<noteq> Panic" "r3 \<noteq> Panic" using flush_cases(2) [OF f] sync_all_cases(2) [OF sy] by auto
  note eq = run [unfolded decrypt_stream_def io_bind_def loop y io_st_def st_map_err_apply]
  show ?thesis
  proof (cases r1)
    case (Ok u)
    then have "after_part p Flush (Ok ()) s1 t" using t(2) by simp
    then have fl: "\<exists>t. psteps A R os (p, snd s) t \<and> after_part p Sync (map_err (\<lambda>_. Io) r2) s2 t"
      by (rule after_part_then [OF t(1)]) (rule flush_runs [OF _ _ f])
    show ?thesis
    proof (cases r2)
      case (Ok v)
      with fl obtain t2 where t2: "psteps A R os (p, snd s) t2" "after_part p Sync (Ok ()) s2 t2" by auto
      have "\<exists>t. psteps A R os (p, snd s) t \<and> after_part p (Drop (Ok ())) (map_err (\<lambda>_. Io) r3) s3 t"
        by (rule after_part_then [OF t2]) (rule sync_runs [OF _ _ sy])
      moreover have "r = map_err (\<lambda>_. Io) r3" "s' = s3" using eq \<open>r1 = _\<close> Ok f sy by simp_all
      ultimately show ?thesis by simp
    next
      case (Err v)
      then have "r = Err Io" "s' = s2" using eq \<open>r1 = _\<close> f by simp_all
      then show ?thesis using fl Err after_part_failed [of p _ Io s2] by (simp, blast)
    qed (use np in simp)
  next
    case (Err e)
    then have "r = Err e" "s' = s1" using eq by simp_all
    then show ?thesis using t Err after_part_failed [of p Flush e s1 t] by (intro exI [of _ t]) simp
  next
    case Panic
    then have "r = Panic" "s' = s1" using eq by simp_all
    then show ?thesis using t Panic by (intro exI [of _ t]) (simp add: after_part_def)
  qed
qed

text \<open>The scope of the guard: from the creation of the temporary file to the rename.\<close>

lemma publish_runs:
  assumes run: "decrypt_publish A os (p_tmp p) (p_output p) (p_aad p) (p_fin p) (p_dec p) (p_chunk p) w = Some (r, w')"
    and p: "p_phase p = Create"
  shows "\<exists>q. psteps A R os (p, w) (q, w') \<and> same_call p q \<and> p_phase q = (if r = Ok () then Done r else Clean r)"
proof -
  obtain r1 w1 where cr: "file_create os (p_tmp p) w = (r1, w1)" by (metis surj_pair)
  have s1: "pstep A R os (p, w) (proc_step A R os (p, w))" using p by (intro pstep_eq) (simp_all add: finished_def)
  show ?thesis
  proof (cases r1)
    case (Ok wr)
    let ?q = "p\<lparr> p_fout := wr, p_buf := replicate (p_chunk p) 0, p_pending := None, p_phase := Fill 0 \<rparr>"
    have s1: "pstep A R os (p, w) (?q, w1)" using s1 p cr Ok by (simp add: proc_step_def st_map_err_apply)
    obtain r2 wr2 w2 where st: "decrypt_stream A os (p_aad p) (p_fin p) (p_dec p) (p_chunk p) (wr, w1) = Some (r2, wr2, w2)"
      using run cr Ok by (auto simp: decrypt_publish_def io_bind_def io_st_def st_map_err_apply split: option.splits)
    obtain t where t: "psteps A R os (?q, w1) t" "after_part ?q (Drop (Ok ())) r2 (wr2, w2) t"
      using stream_runs [OF st, of ?q R] by (auto simp: in_loop_def)
    have ft: "p_phase (fst t) = Drop r2" "same_call p (fst t)" "p_fout (fst t) = wr2" "t = (fst t, w2)"
      using t(2) by (simp_all add: after_part_def same_call_def prod_eq_iff)
    define u where "u = (fst t)\<lparr> p_phase := if r2 = Ok () then Rename else Clean r2 \<rparr>"
    have "pstep A R os (fst t, w2) (u, drop_writer os (wr2, w2))"
      using ft(1,3) by (intro pstep_eq) (simp_all add: finished_def proc_step_def u_def)
    then have s2: "psteps A R os (p, w) (u, drop_writer os (wr2, w2))"
      using s1 t(1) ft(4) by (metis converse_rtranclp_into_rtranclp rtranclp.rtrancl_into_rtrancl)
    obtain r3 w3 where rn: "rename os (p_tmp p) (p_output p) (drop_writer os (wr2, w2)) = (r3, w3)" by (metis surj_pair)
    show ?thesis
    proof (cases "r2 = Ok ()")
      case True
      let ?v = "u\<lparr> p_phase := if r3 = Ok () then Done (Ok ()) else Clean (map_err (\<lambda>_. Io) r3) \<rparr>"
      have uu: "p_phase u = Rename" "p_tmp u = p_tmp p" "p_output u = p_output p" "same_call p u"
        using True ft(2) by (simp_all add: u_def same_call_def)
      have "pstep A R os (u, drop_writer os (wr2, w2)) (?v, w3)"
        using uu rn by (intro pstep_eq; cases r3) (simp_all add: finished_def proc_step_def st_map_err_apply)
      with s2 have "psteps A R os (p, w) (?v, w3)" by (rule rtranclp.rtrancl_into_rtrancl)
      moreover have "r = map_err (\<lambda>_. Io) r3" "w' = w3"
        using run cr Ok st rn True
        by (simp_all add: decrypt_publish_def io_bind_def io_st_def st_map_err_apply)
      ultimately show ?thesis using uu(4) by (intro exI [of _ ?v]) (auto simp: same_call_def)
    next
      case False
      then have "r = r2" "w' = drop_writer os (wr2, w2)"
        using run cr Ok st
        by (cases r2; simp add: decrypt_publish_def io_bind_def io_st_def st_map_err_apply)+
      then show ?thesis using s2 False ft(2) by (intro exI [of _ u]) (auto simp: same_call_def u_def)
    qed
  qed (use file_create_cases(1) [OF cr] s1 run cr p in
      \<open>auto simp: proc_step_def st_map_err_apply decrypt_publish_def io_bind_def io_st_def same_call_def\<close>)
qed

text \<open>From the start to the accepted header.\<close>

definition parsed :: "('e, 'd) aead_lib \<Rightarrow> nat \<Rightarrow> bytes \<Rightarrow> bytes \<Rightarrow> string \<Rightarrow> (bytes \<times> bytes \<times> nat) Result" where
  "parsed A m buf wk i =
     res_bind (if m < 72 then Err Io else Ok ()) (\<lambda>_. res_bind (index buf 0) (\<lambda>version.
     if version \<noteq> VERSION then Err Aead else open_header A buf wk i))"

definition after_open :: "path \<Rightarrow> (bytes \<times> reader \<times> 'd \<times> nat) Result \<Rightarrow> 'd process \<Rightarrow> bool" where
  "after_open output r q \<longleftrightarrow>
     p_output q = output \<and>
     (case r of
        Ok (a, rd, dec, n) \<Rightarrow> p_phase q = Draw \<and> p_aad q = a \<and> p_fin q = rd \<and> p_dec q = dec \<and> p_chunk q = n
      | Err e \<Rightarrow> p_phase q = Done (Err e) | Panic \<Rightarrow> p_phase q = Done Panic)"

lemma parse_runs:
  assumes "p_phase p = Parse m" "length (p_buf p) = 72"
  shows "\<exists>q. pstep A R os (p, w) (q, w) \<and> after_open (p_output p)
    (res_bind (parsed A m (p_buf p) (p_key p) (p_id p)) (\<lambda>(np, dk, cs). Ok (p_aad p, p_fin p, dec_from_aead A dk np, cs + 16))) q"
proof -
  let ?h = "parsed A m (p_buf p) (p_key p) (p_id p)"
  have "proc_step A R os (p, w) = branch (?h, w)
      (\<lambda>(np, dk, cs). p\<lparr> p_dec := dec_from_aead A dk np, p_chunk := cs + 16, p_phase := Draw \<rparr>) (\<lambda>r. p\<lparr> p_phase := Done r \<rparr>)"
    using assms by (simp add: proc_step_def parsed_def)
  with pstep_eq [of p A R os w] assms(1) show ?thesis
    by (cases ?h) (auto simp: finished_def after_open_def)
qed

lemma opened_runs:
  assumes i: "valid_context (p_id p)" and op: "file_open os (p_input p) w = (Ok rd, w1)"
    and run: "decrypt_open A os (p_input p) (p_key p) (p_id p) w = (r, w')" and p: "p_phase p = Start"
  shows "\<exists>q. psteps A R os (p, w) (q, w') \<and> after_open (p_output p) r q"
proof -
  note eq = run [unfolded decrypt_open_eq [OF i op]]
  let ?q = "p\<lparr> p_aad := seg_aad_bytes (p_id p), p_fin := rd, p_buf := replicate 72 0, p_phase := Head 0 \<rparr>"
  have s1: "pstep A R os (p, w) (?q, w1)"
    using p op i
    by (intro pstep_eq) (simp_all add: finished_def proc_step_def st_map_err_apply blob_segment_aad_eq seg_aad_bytes_def)
  obtain r2 w2 where rf: "read_full os rd (replicate 72 0) 0 w1 = (r2, w2)" by (metis surj_pair)
  note hr = header_runs [OF rf, of A R ?q, simplified]
  show ?thesis
  proof (cases r2)
    case (Ok x)
    obtain m rd2 buf where x: "x = (m, rd2, buf)" by (cases x) auto
    let ?u = "?q\<lparr> p_fin := rd2, p_buf := buf, p_phase := Parse m \<rparr>"
    have len: "length buf = 72" using read_full_cases(5) [OF rf, of m rd2 buf] Ok x by simp
    have "psteps A R os (?q, w1) (?u, w2)" using hr Ok x by simp
    with s1 have s2: "psteps A R os (p, w) (?u, w2)" by (rule converse_rtranclp_into_rtranclp)
    have "read_exact os rd (replicate 72 0) w1 = (if m < 72 then Err Io else Ok (rd2, buf), w2)"
      using rf Ok x by (simp add: read_exact_def st_bind_def)
    then have "w' = w2" "r = res_bind (parsed A m buf (p_key p) (p_id p))
        (\<lambda>(np, dk, cs). Ok (seg_aad_bytes (p_id p), rd2, dec_from_aead A dk np, cs + 16))"
      using eq by (cases "index buf 0 :: u8 Result"; auto simp: parsed_def split: if_splits)+
    with parse_runs [of ?u m A R os w2] len show ?thesis
      using s2 by (simp, meson rtranclp.rtrancl_into_rtrancl)
  next
    case (Err e)
    with hr obtain rd2 buf2 where "psteps A R os (?q, w1) (?q\<lparr> p_fin := rd2, p_buf := buf2, p_phase := Done (Err e) \<rparr>, w2)"
      by auto
    with s1 have "psteps A R os (p, w) (?q\<lparr> p_fin := rd2, p_buf := buf2, p_phase := Done (Err e) \<rparr>, w2)"
      by (rule converse_rtranclp_into_rtranclp)
    moreover have "r = Err e" "w' = w2" using eq rf Err by (simp_all add: read_exact_def st_bind_def)
    ultimately show ?thesis
      by (intro exI [of _ "?q\<lparr> p_fin := rd2, p_buf := buf2, p_phase := Done (Err e) \<rparr>"]) (simp add: after_open_def)
  qed (use read_full_cases(3) [OF rf] in simp)
qed

lemma opening_runs:
  assumes run: "decrypt_open A os (p_input p) (p_key p) (p_id p) w = (r, w')" and p: "p_phase p = Start"
  shows "\<exists>q. psteps A R os (p, w) (q, w') \<and> after_open (p_output p) r q"
proof (cases "valid_context (p_id p)")
  case False
  then have "r = Err InvalidContext" "w' = w"
    using run by (simp_all add: decrypt_open_def blob_segment_aad_eq)
  moreover have "pstep A R os (p, w) (p\<lparr> p_phase := Done (Err InvalidContext) \<rparr>, w)"
    using p False by (intro pstep_eq) (simp_all add: finished_def proc_step_def blob_segment_aad_eq)
  ultimately show ?thesis by (intro exI [of _ "p\<lparr> p_phase := Done (Err InvalidContext) \<rparr>"]) (auto simp: after_open_def)
next
  case True
  obtain r1 w1 where op: "file_open os (p_input p) w = (r1, w1)" by (metis surj_pair)
  show ?thesis
  proof (cases r1)
    case (Ok rd)
    show ?thesis by (rule opened_runs [OF True op [unfolded Ok] run p])
  next
    case (Err e)
    have "pstep A R os (p, w) (p\<lparr> p_phase := Done (Err Io) \<rparr>, w1)"
      using p op Err True by (intro pstep_eq) (simp_all add: finished_def proc_step_def st_map_err_apply blob_segment_aad_eq)
    moreover have "r = Err Io" "w' = w1" using run [unfolded decrypt_open_eq [OF True op]] Err by simp_all
    ultimately show ?thesis by (intro exI [of _ "p\<lparr> p_phase := Done (Err Io) \<rparr>"]) (auto simp: after_open_def)
  qed (use file_open_cases(3) [OF op] in auto)
qed

lemma cleanup_runs:
  assumes "p_phase p = Clean r"
  shows "psteps A R os (p, w) (p\<lparr> p_phase := Done r \<rparr>, drop_cleanup os \<lparr> cleanup_path = p_tmp p, armed = True \<rparr> w)"
  by (rule r_into_rtranclp, rule pstep_eq) (use assms in \<open>simp_all add: finished_def proc_step_def\<close>)

text \<open>From the drawn name to the end, the guard included.\<close>

lemma guarded_runs:
  assumes "map_option (\<lambda>(r, w1). (r, drop_cleanup os \<lparr> cleanup_path = p_tmp p, armed = (r \<noteq> Ok ()) \<rparr> w1))
      (decrypt_publish A os (p_tmp p) (p_output p) (p_aad p) (p_fin p) (p_dec p) (p_chunk p) w) = Some (r, w')"
    and "p_phase p = Create"
  shows "\<exists>q. psteps A R os (p, w) (q, w') \<and> p_phase q = Done r"
proof -
  from assms(1) obtain w1 where
    pub: "decrypt_publish A os (p_tmp p) (p_output p) (p_aad p) (p_fin p) (p_dec p) (p_chunk p) w = Some (r, w1)"
    and w': "w' = drop_cleanup os \<lparr> cleanup_path = p_tmp p, armed = (r \<noteq> Ok ()) \<rparr> w1" by auto
  from publish_runs [OF pub assms(2), of R] obtain q where q: "psteps A R os (p, w) (q, w1)" "p_tmp q = p_tmp p"
    "p_phase q = (if r = Ok () then Done r else Clean r)" by (auto simp: same_call_def)
  show ?thesis
  proof (cases "r = Ok ()")
    case True
    then show ?thesis using q w' by (intro exI [of _ q]) (simp add: drop_cleanup_def)
  next
    case False
    then have "psteps A R os (q, w1) (q\<lparr> p_phase := Done r \<rparr>, w')"
      using cleanup_runs [of q r A R os w1] q(2,3) w' by simp
    with q(1) have "psteps A R os (p, w) (q\<lparr> p_phase := Done r \<rparr>, w')" by (rule rtranclp_trans)
    then show ?thesis by (intro exI [of _ "q\<lparr> p_phase := Done r \<rparr>"]) simp
  qed
qed

lemma call_runs:
  assumes run: "decrypt_file_chunked A R os input output wk i w = Some (r, w')" and p: "calls input output wk i p"
  shows "\<exists>q. psteps A R os (p, w) (q, w') \<and> p_phase q = Done r"
proof -
  obtain r1 w1 where op: "decrypt_open A os input wk i w = (r1, w1)" by (metis surj_pair)
  obtain r2 g where st: "sibling_temp_path R output (rng_state w1) = (r2, g)" by (metis surj_pair)
  note eq = run [unfolded decrypt_file_eq [OF op st]] and np = decrypt_open_cases(3) [OF op]
  from opening_runs [of A os p w r1 w1 R] op p obtain q where q: "psteps A R os (p, w) (q, w1)" "p_output q = output"
    and ph: "after_open output r1 q" by (auto simp: calls_def after_open_def)
  show ?thesis
  proof (cases r1)
    case (Err e)
    then show ?thesis using eq q(1) ph by (auto simp: after_open_def)
  next
    case Panic
    with np show ?thesis by simp
  next
    case (Ok x)
    obtain a rd dec n where x: "x = (a, rd, dec, n)" by (cases x) auto
    note ph = ph [unfolded Ok x after_open_def, simplified]
    have wr: "with_rng (sibling_temp_path R output) w1 = (r2, w1\<lparr> rng_state := g \<rparr>)" by (simp add: with_rng_def st)
    have "pstep A R os (q, w1) (proc_step A R os (q, w1))" using ph by (intro pstep_eq) (simp_all add: finished_def)
    with q(1) have s2: "psteps A R os (p, w) (proc_step A R os (q, w1))" by (rule rtranclp.rtrancl_into_rtrancl)
    show ?thesis
    proof (cases r2)
      case (Ok tmp)
      let ?u = "q\<lparr> p_tmp := tmp, p_phase := Create \<rparr>"
      have "proc_step A R os (q, w1) = (?u, w1\<lparr> rng_state := g \<rparr>)"
        using ph q(2) wr Ok by (simp add: proc_step_def)
      moreover have "\<exists>t. psteps A R os (?u, w1\<lparr> rng_state := g \<rparr>) (t, w') \<and> p_phase t = Done r"
        by (rule guarded_runs) (use eq \<open>r1 = _\<close> Ok x ph q(2) in simp_all)
      ultimately show ?thesis using s2 by (metis rtranclp_trans)
    next
      case (Err e)
      then have "proc_step A R os (q, w1) = (q\<lparr> p_phase := Done (Err e) \<rparr>, w1\<lparr> rng_state := g \<rparr>)"
        using ph q(2) wr by (simp add: proc_step_def)
      moreover have "r = Err e" "w' = w1\<lparr> rng_state := g \<rparr>" using eq \<open>r1 = _\<close> x Err by simp_all
      ultimately show ?thesis using s2 by (intro exI [of _ "q\<lparr> p_phase := Done (Err e) \<rparr>"]) simp
    next
      case Panic
      then show ?thesis using sibling_temp_path_cases(1) [OF st] by simp
    qed
  qed
qed

lemma finished_stays: "finished (fst s) \<Longrightarrow> psteps A R os s t \<Longrightarrow> t = s"
  by (erule converse_rtranclpE) (auto elim!: pstepE)

lemma psteps_linear:
  assumes "psteps A R os s t" "psteps A R os s u" "finished (fst u)"
  shows "psteps A R os t u"
  using assms
proof (induction rule: converse_rtranclp_induct)
  case (step s s')
  show ?case
  proof (cases "s = u")
    case True
    then show ?thesis using step.hyps(1) step.prems(2) by (auto elim: pstepE)
  next
    case False
    with step.prems(1) obtain v where "pstep A R os s v" "psteps A R os v u" by (metis converse_rtranclpE)
    then show ?thesis using step pstep_deterministic by metis
  qed
qed

lemma end_of_call:
  assumes "calls input output wk i p"
  obtains q r w' where "psteps A R os (p, w) (q, w')" "p_phase q = Done r"
    "decrypt_file_chunked A R os input output wk i w = Some (r, w')"
proof -
  obtain r w' where "decrypt_file_chunked A R os input output wk i w = Some (r, w')"
    using decrypt_file_always_returns by blast
  with call_runs [OF this assms] show thesis using that by blast
qed

text \<open>The machine never gets stuck: from every state on the way the end can still be reached.\<close>

lemma machine_never_stuck:
  assumes "calls input output wk i p" "psteps A R os (p, w) t"
  shows "\<exists>q w'. psteps A R os t (q, w') \<and> finished q"
proof -
  obtain q r w' where e: "psteps A R os (p, w) (q, w')" "p_phase q = Done r" by (rule end_of_call [OF assms(1)])
  then have fin: "finished (fst (q, w'))" by (simp add: finished_def)
  from psteps_linear [OF assms(2) e(1) this] fin show ?thesis by auto
qed

text \<open>
  C9: the state machine is the function. From the start of a call, with any values in the variables
  that are not assigned yet, the machine reaches an end with the result \<open>r\<close> and the world \<open>w'\<close> if and
  only if \<open>decrypt_file_chunked\<close> returns them.
\<close>

theorem machine_is_decrypt_file:
  "(\<exists>q. psteps A R os (start_call input output wk i locals, w) (q, w') \<and> p_phase q = Done r) \<longleftrightarrow>
   decrypt_file_chunked A R os input output wk i w = Some (r, w')"
proof -
  let ?p = "start_call input output wk i locals"
  have p: "calls input output wk i ?p" by (simp add: calls_def start_call_def)
  obtain q0 r0 w0 where e: "psteps A R os (?p, w) (q0, w0)" "p_phase q0 = Done r0"
    "decrypt_file_chunked A R os input output wk i w = Some (r0, w0)" by (rule end_of_call [OF p])
  have fin: "finished (fst (q0, w0))" using e(2) by (simp add: finished_def)
  have "r = r0 \<and> w' = w0" if "psteps A R os (?p, w) (q, w')" "p_phase q = Done r" for q
  proof -
    have "psteps A R os (q, w') (q0, w0)" using psteps_linear [OF that(1) e(1) fin] .
    then have "(q0, w0) = (q, w')" by (rule finished_stays [rotated]) (use that(2) in \<open>simp add: finished_def\<close>)
    then show ?thesis using e(2) that(2) by simp
  qed
  then show ?thesis using e by auto
qed

end
