(* ===== verification/Filum_Concurrent.thy ===== *)
theory Filum_Concurrent
  imports Filum_Process
begin

text \<open>
  Several calls of \<open>decrypt_file_chunked\<close> at once, on one file system, with one random source and one
  operating system: any interleaving of their steps. The random suffix of the temporary names is
  there for this (\<open>sibling_temp_path\<close>: "keeps concurrent decrypts targeting the same destination from
  clobbering each other's temp files"). The runs considered are those in which no drawn name is in
  use; in all of them every destination holds its old content or one complete plaintext, at every
  moment.
\<close>

subsection \<open>Interleaved runs\<close>

inductive sys_step ::
  "('e, 'd) aead_lib \<Rightarrow> 'r rng \<Rightarrow> os \<Rightarrow> 'd process list \<times> 'r world \<Rightarrow> 'd process list \<times> 'r world \<Rightarrow> bool"
  for A R os where
  move: "i < length ps \<Longrightarrow> pstep A R os (ps ! i, w) (p', w') \<Longrightarrow> sys_step A R os (ps, w) (ps[i := p'], w')"

text \<open>A call that has drawn its temporary name and not ended.\<close>

definition holds_temp :: "'d process \<Rightarrow> bool" where
  "holds_temp p \<longleftrightarrow>
     (case p_phase p of Start \<Rightarrow> False | Head _ \<Rightarrow> False | Parse _ \<Rightarrow> False | Draw \<Rightarrow> False | Done _ \<Rightarrow> False | _ \<Rightarrow> True)"

text \<open>
  No clash: a name that was drawn and not created yet is not in use, neither on disk nor by another
  call, and is not one of the files the calls work on.
\<close>

definition clash_free :: "'d process list \<times> 'r world \<Rightarrow> bool" where
  "clash_free s \<longleftrightarrow>
     (\<forall>p \<in> set (fst s). p_phase p = Create \<longrightarrow> entries (disk (snd s)) (p_tmp p) = None \<and>
        (\<forall>q \<in> set (fst s). p_tmp p \<noteq> p_output q \<and> p_tmp p \<noteq> p_input q)) \<and>
     (\<forall>i < length (fst s). \<forall>k < length (fst s). i \<noteq> k \<longrightarrow> p_phase (fst s ! i) = Create \<longrightarrow> holds_temp (fst s ! k) \<longrightarrow>
        p_tmp (fst s ! i) \<noteq> p_tmp (fst s ! k))"

text \<open>The steps of a run without a clash.\<close>

inductive clean_step ::
  "('e, 'd) aead_lib \<Rightarrow> 'r rng \<Rightarrow> os \<Rightarrow> 'd process list \<times> 'r world \<Rightarrow> 'd process list \<times> 'r world \<Rightarrow> bool"
  for A R os where
  clean: "sys_step A R os s t \<Longrightarrow> clash_free t \<Longrightarrow> clean_step A R os s t"

text \<open>
  The initial states: no call has started, and no call reads a file another call is about to replace
  (a call may replace its own input).
\<close>

definition initial :: "'d process list \<times> 'r world \<Rightarrow> bool" where
  "initial s \<longleftrightarrow>
     wf_disk (disk (snd s)) \<and> (\<forall>p \<in> set (fst s). p_phase p = Start) \<and>
     (\<forall>i < length (fst s). \<forall>k < length (fst s). p_input (fst s ! i) = p_output (fst s ! k) \<longrightarrow> i = k)"

subsection \<open>What a call owes\<close>

text \<open>The bytes a reader would deliver on a given disk.\<close>

definition rem_on :: "disk \<Rightarrow> reader \<Rightarrow> bytes" where
  "rem_on d rd = r_buf rd @ drop (r_pos rd) (contents (node d (r_ino rd)))"

definition source_bytes :: "disk \<Rightarrow> 'd process \<Rightarrow> bytes" where
  "source_bytes d p = (case entries d (p_input p) of None \<Rightarrow> [] | Some j \<Rightarrow> contents (node d j))"

text \<open>
  \<open>on_track\<close>: the header was accepted, and \<open>t\<close> is what the body of the input decrypts to. \<open>d\<close> is the disk
  before any call started.
\<close>

definition on_track :: "('e, 'd) aead_lib \<Rightarrow> disk \<Rightarrow> 'd process \<Rightarrow> bytes option \<Rightarrow> bool" where
  "on_track A d p t \<longleftrightarrow>
     (\<exists>rd dec. opened A d (p_input p) (p_key p) (p_id p) (p_aad p, rd, dec, p_chunk p) \<and>
        t = stream_body A (p_aad p) dec (drop 72 (source_bytes d p)))"

text \<open>The plaintext a call is to deliver.\<close>

definition delivers :: "('e, 'd) aead_lib \<Rightarrow> disk \<Rightarrow> 'd process \<Rightarrow> bytes \<Rightarrow> bool" where
  "delivers A d p pt \<longleftrightarrow>
     (\<exists>data. read_path d (p_input p) = Some data \<and> decrypt_chunked A data (p_key p) (p_id p) = Ok pt)"

lemma on_track_delivers: "on_track A d p (Some pt) \<Longrightarrow> stream_min16 A \<Longrightarrow> delivers A d p pt"
proof -
  assume t: "on_track A d p (Some pt)" and m: "stream_min16 A"
  from t obtain rd dec where o: "opened A d (p_input p) (p_key p) (p_id p) (p_aad p, rd, dec, p_chunk p)"
    and b: "stream_body A (p_aad p) dec (drop 72 (source_bytes d p)) = Some pt" by (auto simp: on_track_def)
  obtain ino where ino: "entries d (p_input p) = Some ino" using o by (auto simp: opened_def)
  have "decrypt_chunked A (contents (node d ino)) (p_key p) (p_id p) = Ok pt"
    using decrypt_chunked_opened(1) [OF o ino] b both_decoders [OF m, of "p_aad p" dec "contents (node d ino)"] ino
    by (simp add: source_bytes_def split: if_splits)
  then show ?thesis by (simp add: delivers_def read_path_def ino)
qed

text \<open>
  The invariant of one call, \<open>d0\<close> the disk at the beginning and \<open>d\<close> the disk now. While it reads the
  header: what it has read and what is left make up the input. While it streams: what it has written,
  followed by the decryption of what it holds and what is left, is what the whole body decrypts to.
\<close>

definition reads_source :: "disk \<Rightarrow> 'd process \<Rightarrow> bool" where
  "reads_source d0 p \<longleftrightarrow> entries d0 (p_input p) = Some (r_ino (p_fin p))"

definition heading :: "disk \<Rightarrow> 'd process \<Rightarrow> nat \<Rightarrow> bool" where
  "heading d0 p n \<longleftrightarrow>
     reads_source d0 p \<and> valid_context (p_id p) \<and> p_aad p = seg_aad_bytes (p_id p) \<and> length (p_buf p) = 72 \<and> n \<le> 72 \<and>
     take n (p_buf p) @ rem_on d0 (p_fin p) = source_bytes d0 p"

definition streaming :: "('e, 'd) aead_lib \<Rightarrow> disk \<Rightarrow> 'd process \<Rightarrow> disk \<Rightarrow> nat \<Rightarrow> bool" where
  "streaming A d0 p d n \<longleftrightarrow>
     reads_source d0 p \<and> length (p_buf p) = p_chunk p \<and> n \<le> p_chunk p \<and> 0 < p_chunk p \<and>
     (let rest = take n (p_buf p) @ rem_on d0 (p_fin p) in
      on_track A d0 p
        (map_option (\<lambda>outs. contents (node d (w_ino (p_fout p))) @ w_buf (p_fout p) @ concat outs)
          (run_stream (dec_next A) (dec_last A) (p_aad p) (p_dec p)
             (held (p_pending p) @ full_parts (p_chunk p) rest) (last_part (p_chunk p) rest))))"

definition complete :: "('e, 'd) aead_lib \<Rightarrow> disk \<Rightarrow> 'd process \<Rightarrow> disk \<Rightarrow> bool" where
  "complete A d0 p d \<longleftrightarrow> on_track A d0 p (Some (contents (node d (w_ino (p_fout p))) @ w_buf (p_fout p)))"

definition proc_track :: "('e, 'd) aead_lib \<Rightarrow> disk \<Rightarrow> 'd process \<Rightarrow> disk \<Rightarrow> bool" where
  "proc_track A d0 p d \<longleftrightarrow>
     (case p_phase p of
        Start \<Rightarrow> entries d (p_input p) = entries d0 (p_input p)
      | Head n \<Rightarrow> heading d0 p n
      | Parse n \<Rightarrow> heading d0 p n \<and> (n < 72 \<longrightarrow> rem_on d0 (p_fin p) = [])
      | Draw \<Rightarrow> opened A d0 (p_input p) (p_key p) (p_id p) (p_aad p, p_fin p, p_dec p, p_chunk p)
      | Create \<Rightarrow> opened A d0 (p_input p) (p_key p) (p_id p) (p_aad p, p_fin p, p_dec p, p_chunk p)
      | Fill n \<Rightarrow> streaming A d0 p d n
      | Next n \<Rightarrow> streaming A d0 p d n \<and> (n < p_chunk p \<longrightarrow> rem_on d0 (p_fin p) = [])
      | Last n \<Rightarrow> streaming A d0 p d n \<and> p_pending p = None \<and> (n < p_chunk p \<longrightarrow> rem_on d0 (p_fin p) = [])
      | Flush \<Rightarrow> complete A d0 p d
      | Sync \<Rightarrow> complete A d0 p d \<and> w_buf (p_fout p) = []
      | Drop r \<Rightarrow> r = Ok () \<longrightarrow>
          complete A d0 p d \<and> w_buf (p_fout p) = [] \<and> synced_mark (node d (w_ino (p_fout p)))
      | Rename \<Rightarrow> complete A d0 p d \<and> w_buf (p_fout p) = [] \<and> synced_mark (node d (w_ino (p_fout p)))
      | Clean r \<Rightarrow> r \<noteq> Ok ()
      | Done r \<Rightarrow> True)"

text \<open>The temporary file of a call: the phases in which it has its node, and what the name refers to.\<close>

definition has_node :: "'d process \<Rightarrow> bool" where
  "has_node p \<longleftrightarrow>
     (case p_phase p of Fill _ \<Rightarrow> True | Next _ \<Rightarrow> True | Last _ \<Rightarrow> True | Flush \<Rightarrow> True | Sync \<Rightarrow> True
      | Drop _ \<Rightarrow> True | Rename \<Rightarrow> True | _ \<Rightarrow> False)"

definition owns :: "disk \<Rightarrow> 'd process \<Rightarrow> disk \<Rightarrow> bool" where
  "owns d0 p d \<longleftrightarrow>
     (has_node p \<longrightarrow> entries d (p_tmp p) = Some (w_ino (p_fout p)) \<and> next_ino d0 \<le> w_ino (p_fout p)) \<and>
     (holds_temp p \<longrightarrow> temp_name (p_output p) (p_tmp p) \<and> entries d0 (p_tmp p) = None)"

subsection \<open>What a step changes\<close>

text \<open>
  The change one step makes to the disk: nothing, the new temporary file, bytes of the own node, the
  rename, or the removal.
\<close>

definition step_effect :: "'d process \<Rightarrow> disk \<Rightarrow> 'd process \<Rightarrow> disk \<Rightarrow> bool" where
  "step_effect p d p' d' \<longleftrightarrow>
     d' = d \<and> (has_node p' \<longrightarrow> has_node p) \<and> p_phase p' \<noteq> Done (Ok ()) \<and> w_ino (p_fout p') = w_ino (p_fout p) \<or>
     p_phase p = Create \<and> has_node p' \<and> w_ino (p_fout p') = next_ino d \<and> d' = disk_with_new (p_tmp p) d \<or>
     has_node p \<and> only_node (w_ino (p_fout p)) d d' \<and> holds_temp p' \<and> w_ino (p_fout p') = w_ino (p_fout p) \<or>
     p_phase p = Rename \<and> p' = p\<lparr> p_phase := Done (Ok ()) \<rparr> \<and>
       d' = d\<lparr> entries := (entries d)(p_tmp p := None, p_output p \<mapsto> w_ino (p_fout p)) \<rparr> \<or>
     (\<exists>r. p_phase p = Clean r \<and> p_phase p' = Done r) \<and> d' = d\<lparr> entries := (entries d)(p_tmp p := None) \<rparr>"

lemmas step_kinds = has_node_def holds_temp_def finished_def

lemma step_args:
  assumes "proc_step A R os (p, w) = (p', w')"
  shows "p_input p' = p_input p" "p_output p' = p_output p" "p_key p' = p_key p" "p_id p' = p_id p"
    "p_phase p \<noteq> Draw \<Longrightarrow> p_tmp p' = p_tmp p"
proof -
  have "p_input p' = p_input p \<and> p_output p' = p_output p \<and> p_key p' = p_key p \<and> p_id p' = p_id p \<and>
    (p_phase p \<noteq> Draw \<longrightarrow> p_tmp p' = p_tmp p)"
    using assms
    by (cases "p_phase p")
      (auto simp: proc_step_def branch_def Let_def split: prod.splits outcome.splits if_splits)
  then show "p_input p' = p_input p" "p_output p' = p_output p" "p_key p' = p_key p" "p_id p' = p_id p"
    "p_phase p \<noteq> Draw \<Longrightarrow> p_tmp p' = p_tmp p" by blast+
qed

subsection \<open>One call keeps its invariant\<close>

text \<open>The files that were there at the beginning keep their bytes.\<close>

definition sources_intact :: "disk \<Rightarrow> disk \<Rightarrow> bool" where
  "sources_intact d0 d \<longleftrightarrow> wf_disk d0 \<and> next_ino d0 \<le> next_ino d \<and> (\<forall>j < next_ino d0. node d j = node d0 j)"

lemma source_node:
  assumes "sources_intact d0 d" "entries d0 q = Some j"
  shows "j < next_ino d0" "node d j = node d0 j"
  using assms by (auto simp: sources_intact_def wf_disk_def)

lemma remaining_source:
  assumes "sources_intact d0 (disk w)" "entries d0 q = Some (r_ino rd)"
  shows "remaining rd w = rem_on d0 rd"
  using source_node [OF assms] by (simp add: remaining_def rem_on_def node_bytes_def)

lemma track_Start:
  assumes ph: "p_phase p = Start" and step: "proc_step A R os (p, w) = (p', w')"
    and tr: "proc_track A d0 p (disk w)" and si: "sources_intact d0 (disk w)"
  shows "proc_track A d0 p' (disk w') \<and> disk w' = disk w \<and> \<not> holds_temp p' \<and> p_phase p' \<noteq> Done (Ok ()) \<and>
    p_fout p' = p_fout p"
proof (cases "valid_context (p_id p)")
  case False
  then show ?thesis
    using step ph by (auto simp: proc_step_def blob_segment_aad_eq proc_track_def step_kinds)
next
  case True
  then have seg: "blob_segment_aad (p_id p) = Ok (seg_aad_bytes (p_id p))"
    by (simp add: blob_segment_aad_eq seg_aad_bytes_def)
  obtain r w1 where op: "file_open os (p_input p) w = (r, w1)" by (metis surj_pair)
  note oc = file_open_cases(1,3) [OF op]
  have d: "disk w1 = disk w" using oc(1) by (simp add: quiet_def)
  show ?thesis
  proof (cases r)
    case (Ok rd)
    then have p': "p' = p\<lparr> p_aad := seg_aad_bytes (p_id p), p_fin := rd, p_buf := replicate 72 0, p_phase := Head 0 \<rparr>"
      "w' = w1" using step ph seg op by (simp_all add: proc_step_def st_map_err_apply)
    have rd: "entries d0 (p_input p) = Some (r_ino rd)" "r_pos rd = 0" "r_buf rd = []"
      using file_open_cases(4) [OF op Ok] tr ph by (simp_all add: proc_track_def)
    then show ?thesis
      using True d by (simp add: p' proc_track_def heading_def reads_source_def rem_on_def source_bytes_def step_kinds)
  qed (use step ph seg op oc(2) d in \<open>auto simp: proc_step_def st_map_err_apply proc_track_def step_kinds\<close>)
qed

lemma track_Head:
  assumes ph: "p_phase p = Head n" and step: "proc_step A R os (p, w) = (p', w')"
    and tr: "proc_track A d0 p (disk w)" and si: "sources_intact d0 (disk w)"
  shows "proc_track A d0 p' (disk w') \<and> disk w' = disk w \<and> \<not> holds_temp p' \<and> p_phase p' \<noteq> Done (Ok ()) \<and>
    p_fout p' = p_fout p"
proof -
  obtain r w1 where ft: "fill_turn os (p_fin p) (p_buf p) n w = (r, w1)" by (metis surj_pair)
  note fc = fill_turn_cases(1,3) [OF ft]
  have d: "disk w1 = disk w" using fc(1) by (simp add: quiet_def)
  have h: "heading d0 p n" using tr ph by (simp add: proc_track_def)
  show ?thesis
  proof (cases r)
    case (Ok x)
    obtain go rd buf n' where x: "x = (go, rd, buf, n')" by (cases x) auto
    have p': "p' = p\<lparr> p_fin := rd, p_buf := buf, p_phase := if go then Head n' else Parse n' \<rparr>" "w' = w1"
      using step ph ft Ok x by (simp_all add: proc_step_def)
    note fo = fill_turn_Ok [OF ft [unfolded Ok x]]
    have src: "entries d0 (p_input p) = Some (r_ino (p_fin p))" "n \<le> length (p_buf p)"
      using h by (simp_all add: heading_def reads_source_def)
    have rem: "remaining (p_fin p) w = rem_on d0 (p_fin p)" "remaining rd w = rem_on d0 rd"
      using remaining_source [OF si] src(1) fo(1) by metis+
    have "heading d0 (p\<lparr> p_fin := rd, p_buf := buf, p_phase := ph' \<rparr>) n'" for ph'
      using h fo(1) fo(3) [OF src(2)] unfolding rem by (simp add: heading_def reads_source_def source_bytes_def)
    moreover have "\<not> go \<Longrightarrow> n' < 72 \<Longrightarrow> rem_on d0 rd = []"
      using fo(5) h unfolding rem by (auto simp: heading_def)
    ultimately show ?thesis using d by (auto simp: p' proc_track_def step_kinds)
  qed (use step ph ft fc(2) d in \<open>auto simp: proc_step_def proc_track_def step_kinds\<close>)
qed

lemma track_Parse:
  assumes ph: "p_phase p = Parse n" and step: "proc_step A R os (p, w) = (p', w')"
    and tr: "proc_track A d0 p (disk w)" and si: "sources_intact d0 (disk w)"
  shows "proc_track A d0 p' (disk w') \<and> disk w' = disk w \<and> \<not> holds_temp p' \<and> p_phase p' \<noteq> Done (Ok ()) \<and>
    p_fout p' = p_fout p"
proof -
  have h: "heading d0 p n" "n < 72 \<longrightarrow> rem_on d0 (p_fin p) = []" using tr ph by (simp_all add: proc_track_def)
  then have len: "length (p_buf p) = 72" by (simp add: heading_def)
  then have ne: "p_buf p \<noteq> []" by auto
  have eq: "(p', w') = branch (parsed A n (p_buf p) (p_key p) (p_id p), w)
      (\<lambda>(np, dk, cs). p\<lparr> p_dec := dec_from_aead A dk np, p_chunk := cs + 16, p_phase := Draw \<rparr>) (\<lambda>r. p\<lparr> p_phase := Done r \<rparr>)"
    using step ph len by (simp add: proc_step_def parsed_def)
  show ?thesis
  proof (cases "parsed A n (p_buf p) (p_key p) (p_id p)")
    case (Ok x)
    obtain np dk cs where x: "x = (np, dk, cs)" by (cases x) auto
    let ?data = "source_bytes d0 p"
    have n: "n = 72" "hd (p_buf p) = VERSION" "open_header A (p_buf p) (p_key p) (p_id p) = Ok (np, dk, cs)"
      using Ok x h(1) len by (auto simp: parsed_def heading_def res_bind_eq_Ok index_def hd_conv_nth [OF ne] split: if_splits)
    have data: "p_buf p @ rem_on d0 (p_fin p) = ?data" "reads_source d0 p" "valid_context (p_id p)"
      "p_aad p = seg_aad_bytes (p_id p)"
      using h(1) n(1) len by (simp_all add: heading_def)
    have src: "?data = contents (node d0 (r_ino (p_fin p)))"
      using data(2) by (simp add: source_bytes_def reads_source_def)
    have d: "72 \<le> length ?data" "take 72 ?data = p_buf p" "drop 72 ?data = rem_on d0 (p_fin p)" "hd ?data = hd (p_buf p)"
      using len ne by (simp_all add: data(1) [symmetric])
    have "open_header A ?data (p_key p) (p_id p) = Ok (np, dk, cs)"
      using open_header_take [OF d(1) data(3), of A] n(3) d(2) by simp
    moreover have "stands_behind 72 d0 (r_ino (p_fin p)) (p_fin p)"
      using d(3) src by (simp add: stands_behind_def rem_on_def)
    moreover have "cs = CHUNK_SIZE" using open_header_cases(3) [OF d(1) data(3) calculation(1)] .
    ultimately have "opened A d0 (p_input p) (p_key p) (p_id p) (p_aad p, p_fin p, dec_from_aead A dk np, cs + 16)"
      using data(2-4) d(1,4) n(2) src unfolding opened_def reads_source_def by auto
    then show ?thesis using eq Ok x by (simp add: proc_track_def step_kinds)
  qed (use eq in \<open>simp_all add: proc_track_def step_kinds\<close>)
qed

lemma track_Draw:
  assumes ph: "p_phase p = Draw" and step: "proc_step A R os (p, w) = (p', w')"
    and tr: "proc_track A d0 p (disk w)"
  shows "proc_track A d0 p' (disk w') \<and> disk w' = disk w \<and> \<not> has_node p' \<and> p_phase p' \<noteq> Done (Ok ()) \<and>
    p_fout p' = p_fout p \<and> (holds_temp p' \<longrightarrow> p_phase p' = Create \<and> temp_name (p_output p) (p_tmp p'))"
proof -
  obtain r g where st: "sibling_temp_path R (p_output p) (rng_state w) = (r, g)" by (metis surj_pair)
  show ?thesis
    using step ph tr st sibling_temp_path_cases(1,2) [OF st]
    by (cases r) (auto simp: proc_step_def with_rng_def proc_track_def step_kinds)
qed

text \<open>The phases that hold a temporary name.\<close>

lemma on_track_update [simp]:
  "on_track A d (p\<lparr> p_fin := rd \<rparr>) t = on_track A d p t" "on_track A d (p\<lparr> p_buf := buf \<rparr>) t = on_track A d p t"
  "on_track A d (p\<lparr> p_dec := dec \<rparr>) t = on_track A d p t" "on_track A d (p\<lparr> p_pending := pend \<rparr>) t = on_track A d p t"
  "on_track A d (p\<lparr> p_fout := wr \<rparr>) t = on_track A d p t" "on_track A d (p\<lparr> p_phase := ph \<rparr>) t = on_track A d p t"
  by (simp_all add: on_track_def source_bytes_def)

lemma track_Create:
  assumes ph: "p_phase p = Create" and step: "proc_step A R os (p, w) = (p', w')"
    and tr: "proc_track A d0 p (disk w)" and si: "sources_intact d0 (disk w)"
    and free: "entries (disk w) (p_tmp p) = None"
  shows "proc_track A d0 p' (disk w') \<and> holds_temp p' \<and> p_phase p' \<noteq> Done (Ok ()) \<and>
    (has_node p' \<longrightarrow> w_ino (p_fout p') = next_ino (disk w) \<and> disk w' = disk_with_new (p_tmp p) (disk w)) \<and>
    (\<not> has_node p' \<longrightarrow> disk w' = disk w \<and> p_fout p' = p_fout p)"
proof -
  obtain r w1 where cr: "file_create os (p_tmp p) w = (r, w1)" by (metis surj_pair)
  note cc = file_create_cases(1,4) [OF cr]
  have o: "opened A d0 (p_input p) (p_key p) (p_id p) (p_aad p, p_fin p, p_dec p, p_chunk p)"
    using tr ph by (simp add: proc_track_def)
  show ?thesis
  proof (cases r)
    case (Ok wr)
    define q where "q = p\<lparr> p_fout := wr, p_buf := replicate (p_chunk p) 0, p_pending := None, p_phase := Fill 0 \<rparr>"
    have p': "p' = q" "w' = w1" using step ph cr Ok by (simp_all add: proc_step_def st_map_err_apply q_def)
    have nd: "wr = \<lparr> w_ino = next_ino (disk w), w_buf = [] \<rparr>" "disk w1 = disk_with_new (p_tmp p) (disk w)"
      using file_create_cases(5) [OF cr free Ok] by blast+
    obtain ino where ino: "entries d0 (p_input p) = Some ino" using o by (auto simp: opened_def)
    have src: "r_ino (p_fin p) = ino" "rem_on d0 (p_fin p) = drop 72 (source_bytes d0 p)" "p_chunk p = CHUNK_SIZE + 16"
      using o ino by (auto simp: opened_def stands_behind_def rem_on_def source_bytes_def)
    have body: "stream_body A (p_aad p) (p_dec p) (drop 72 (source_bytes d0 p)) = map_option concat
        (run_stream (dec_next A) (dec_last A) (p_aad p) (p_dec p) (full_parts (p_chunk p) (rem_on d0 (p_fin p)))
          (last_part (p_chunk p) (rem_on d0 (p_fin p))))"
      by (simp add: stream_body_def open_segments_run src)
    have "on_track A d0 p (stream_body A (p_aad p) (p_dec p) (drop 72 (source_bytes d0 p)))"
      using o by (auto simp: on_track_def)
    then have "streaming A d0 q (disk w1) 0"
      unfolding body using ino src(1,3)
      by (simp add: streaming_def reads_source_def held_def nd disk_with_new_def q_def comp_def)
    then show ?thesis using nd by (simp add: p' q_def proc_track_def step_kinds)
  qed (use step ph cr cc in \<open>auto simp: proc_step_def st_map_err_apply proc_track_def step_kinds quiet_def\<close>)
qed

lemma track_Fill:
  assumes ph: "p_phase p = Fill n" and step: "proc_step A R os (p, w) = (p', w')"
    and tr: "proc_track A d0 p (disk w)" and si: "sources_intact d0 (disk w)"
  shows "proc_track A d0 p' (disk w') \<and> disk w' = disk w \<and> holds_temp p' \<and> p_fout p' = p_fout p"
proof -
  obtain r w1 where ft: "fill_turn os (p_fin p) (p_buf p) n w = (r, w1)" by (metis surj_pair)
  note fc = fill_turn_cases(1,3) [OF ft]
  have d: "disk w1 = disk w" using fc(1) by (simp add: quiet_def)
  have h: "streaming A d0 p (disk w) n" using tr ph by (simp add: proc_track_def)
  show ?thesis
  proof (cases r)
    case (Ok x)
    obtain go rd buf n' where x: "x = (go, rd, buf, n')" by (cases x) auto
    have p': "p' = p\<lparr> p_fin := rd, p_buf := buf, p_phase := if go then Fill n' else Next n' \<rparr>" "w' = w1"
      using step ph ft Ok x by (simp_all add: proc_step_def)
    note fo = fill_turn_Ok [OF ft [unfolded Ok x]]
    have src: "entries d0 (p_input p) = Some (r_ino (p_fin p))" "n \<le> length (p_buf p)"
      using h by (simp_all add: streaming_def reads_source_def)
    have rem: "remaining (p_fin p) w = rem_on d0 (p_fin p)" "remaining rd w = rem_on d0 rd"
      using remaining_source [OF si] src(1) fo(1) by metis+
    have "streaming A d0 (p\<lparr> p_fin := rd, p_buf := buf, p_phase := ph' \<rparr>) (disk w) n'" for ph'
      using h fo(1) fo(3) [OF src(2)] unfolding rem
      by (simp add: streaming_def reads_source_def Let_def)
    moreover have "\<not> go \<Longrightarrow> n' < p_chunk p \<Longrightarrow> rem_on d0 rd = []"
      using fo(5) h unfolding rem by (auto simp: streaming_def)
    ultimately show ?thesis using d by (auto simp: p' proc_track_def step_kinds)
  qed (use step ph ft fc(2) d in \<open>auto simp: proc_step_def proc_track_def step_kinds\<close>)
qed

lemma writes_own:
  assumes "writes (wr, w) (wr', w')"
  shows "only_node (w_ino wr) (disk w) (disk w')" "w_ino wr' = w_ino wr"
  using assms by (simp_all add: writes_def touches_def)

lemma track_Next:
  assumes ph: "p_phase p = Next n" and step: "proc_step A R os (p, w) = (p', w')"
    and tr: "proc_track A d0 p (disk w)"
  shows "proc_track A d0 p' (disk w') \<and> holds_temp p' \<and> only_node (w_ino (p_fout p)) (disk w) (disk w') \<and>
    w_ino (p_fout p') = w_ino (p_fout p)"
proof -
  obtain r wr w1 where wp: "write_pending (dec_next A) os (p_aad p) (p_pending p) (p_dec p) (p_fout p, w) = (r, wr, w1)"
    by (metis surj_pair)
  note pc = write_pending_cases [OF wp]
  note own = writes_own [OF pc [THEN conjunct1]]
  have h: "streaming A d0 p (disk w) n" "n < p_chunk p \<longrightarrow> rem_on d0 (p_fin p) = []" using tr ph by (simp_all add: proc_track_def)
  show ?thesis
  proof (cases r)
    case (Ok dec)
    have p': "p' = p\<lparr> p_dec := dec, p_pending := None, p_phase := Last n, p_fout := wr \<rparr>" "w' = w1"
      using step ph wp Ok by (simp_all add: proc_step_def)
    obtain em where em: "held_through (dec_next A) (p_aad p) (p_pending p) (p_dec p) dec em"
      "written (wr, w1) = written (p_fout p, w) @ concat em"
      using pc Ok unfolding held_through_def by fastforce
    have run: "map_option (\<lambda>outs. written (p_fout p, w) @ concat outs)
        (run_stream (dec_next A) (dec_last A) (p_aad p) (p_dec p) (held (p_pending p) @ xs) m) =
      map_option (\<lambda>outs. written (wr, w1) @ concat outs)
        (run_stream (dec_next A) (dec_last A) (p_aad p) dec xs m)" for xs m
      by (simp add: run_stream_held [OF em(1)] em(2) option.map_comp comp_def)
    have "streaming A d0 p' (disk w1) n"
      using h(1) run unfolding written_def
      by (simp add: p' streaming_def reads_source_def Let_def held_def)
    then show ?thesis using own h(2) by (simp add: p' proc_track_def step_kinds)
  qed (use step ph wp own in \<open>auto simp: proc_step_def proc_track_def step_kinds\<close>)
qed

lemma track_Last:
  assumes ph: "p_phase p = Last n" and step: "proc_step A R os (p, w) = (p', w')"
    and tr: "proc_track A d0 p (disk w)"
  shows "proc_track A d0 p' (disk w') \<and> holds_temp p' \<and> only_node (w_ino (p_fout p)) (disk w) (disk w') \<and>
    w_ino (p_fout p') = w_ino (p_fout p)"
proof (cases "n < p_chunk p")
  case True
  have h: "streaming A d0 p (disk w) n" "rem_on d0 (p_fin p) = []" "p_pending p = None"
    using tr ph True by (simp_all add: proc_track_def)
  obtain r wr w1 where wl: "write_last (dec_last A) os (p_aad p) (take n (p_buf p)) (p_dec p) (p_fout p, w) = (r, wr, w1)"
    by (metis surj_pair)
  note lc = write_last_cases [OF wl]
  note own = writes_own [OF lc [THEN conjunct1]]
  have "length (take n (p_buf p)) < p_chunk p" using True by simp
  note short = parts_short [OF this]
  show ?thesis
  proof (cases r)
    case (Ok u)
    have p': "p' = p\<lparr> p_phase := Flush, p_fout := wr \<rparr>" "w' = w1"
      using step ph True wl Ok by (simp_all add: proc_step_def)
    obtain out where out: "dec_last A (p_dec p) (take n (p_buf p)) (p_aad p) = Some out"
      "written (wr, w1) = written (p_fout p, w) @ out" using lc Ok by auto
    have "on_track A d0 p (Some (written (wr, w1)))"
      using h short out by (simp add: streaming_def Let_def held_def written_def)
    then show ?thesis using own by (simp add: p' proc_track_def complete_def written_def step_kinds)
  qed (use step ph True wl own in \<open>auto simp: proc_step_def proc_track_def step_kinds\<close>)
next
  case False
  have h: "streaming A d0 p (disk w) n" "p_pending p = None" using tr ph by (simp_all add: proc_track_def)
  have p': "p' = p\<lparr> p_pending := Some (take n (p_buf p)), p_phase := Fill 0 \<rparr>" "w' = w"
    using step ph False by (simp_all add: proc_step_def)
  have n: "n = p_chunk p" "length (p_buf p) = p_chunk p" "0 < p_chunk p" using False h(1) by (simp_all add: streaming_def)
  have "p_chunk p \<le> length (p_buf p @ rem_on d0 (p_fin p))" using n by simp
  note long = parts_long [OF n(3) this, simplified n(2) [symmetric], simplified]
  have "streaming A d0 p' (disk w) 0"
    using h n long by (simp add: p' streaming_def Let_def held_def reads_source_def)
  then show ?thesis by (simp add: p' proc_track_def step_kinds only_node_refl)
qed

lemma track_Flush:
  assumes ph: "p_phase p = Flush" and step: "proc_step A R os (p, w) = (p', w')"
    and tr: "proc_track A d0 p (disk w)"
  shows "proc_track A d0 p' (disk w') \<and> holds_temp p' \<and> only_node (w_ino (p_fout p)) (disk w) (disk w') \<and>
    w_ino (p_fout p') = w_ino (p_fout p)"
proof -
  obtain r wr w1 where f: "flush os (p_fout p, w) = (r, wr, w1)" by (metis surj_pair)
  note fc = flush_cases(1,2,4) [OF f] and own = writes_own [OF flush_cases(1) [OF f]]
  show ?thesis
    using step ph tr f fc(2,3) own
    by (cases r) (auto simp: proc_step_def st_map_err_apply proc_track_def complete_def written_def step_kinds)
qed

lemma track_Sync:
  assumes ph: "p_phase p = Sync" and step: "proc_step A R os (p, w) = (p', w')"
    and tr: "proc_track A d0 p (disk w)"
  shows "proc_track A d0 p' (disk w') \<and> holds_temp p' \<and> only_node (w_ino (p_fout p)) (disk w) (disk w') \<and>
    w_ino (p_fout p') = w_ino (p_fout p)"
proof -
  obtain r wr w1 where s: "sync_all os (p_fout p, w) = (r, wr, w1)" by (metis surj_pair)
  note sc = sync_all_cases(2,4-6) [OF s] and own = writes_own [OF sync_all_cases(1) [OF s]]
  show ?thesis
    using step ph tr s sc own
    by (cases r) (auto simp: proc_step_def st_map_err_apply proc_track_def complete_def written_def step_kinds)
qed

lemma track_Drop:
  assumes ph: "p_phase p = Drop r" and step: "proc_step A R os (p, w) = (p', w')"
    and tr: "proc_track A d0 p (disk w)"
  shows "proc_track A d0 p' (disk w') \<and> holds_temp p' \<and> only_node (w_ino (p_fout p)) (disk w) (disk w') \<and>
    w_ino (p_fout p') = w_ino (p_fout p)"
proof -
  have "only_node (w_ino (p_fout p)) (disk w) (disk (drop_writer os (p_fout p, w)))"
    using drop_writer_touches [of "(p_fout p, w)" os] by (simp add: touches_def)
  then show ?thesis
    using step ph tr
    by (cases "r = Ok ()") (auto simp: proc_step_def proc_track_def complete_def drop_writer_flushed step_kinds)
qed

lemma track_Rename:
  assumes ph: "p_phase p = Rename" and step: "proc_step A R os (p, w) = (p', w')"
    and own: "entries (disk w) (p_tmp p) = Some (w_ino (p_fout p))"
  shows "p_fout p' = p_fout p \<and>
    (p_phase p' = Clean (Err Io) \<and> disk w' = disk w \<or>
     p' = p\<lparr> p_phase := Done (Ok ()) \<rparr> \<and> disk w' = (disk w)\<lparr> entries :=
       (entries (disk w))(p_tmp p := None, p_output p \<mapsto> w_ino (p_fout p)) \<rparr>)"
proof -
  obtain r w1 where rn: "rename os (p_tmp p) (p_output p) w = (r, w1)" by (metis surj_pair)
  note rc = rename_cases(1,3) [OF rn] rename_cases(5) [OF rn own]
  show ?thesis
    using step ph rn rc by (cases r) (auto simp: proc_step_def st_map_err_apply quiet_def)
qed

lemma track_Clean:
  assumes ph: "p_phase p = Clean r" and step: "proc_step A R os (p, w) = (p', w')"
  shows "p_phase p' = Done r \<and> p_fout p' = p_fout p \<and>
    (disk w' = disk w \<or> disk w' = (disk w)\<lparr> entries := (entries (disk w))(p_tmp p := None) \<rparr>) \<and>
    (os_ok os \<longrightarrow> entries (disk w') (p_tmp p) = None)"
proof -
  obtain r1 w1 where rm: "remove_file os (p_tmp p) w = (r1, w1)" by (metis surj_pair)
  show ?thesis
    using step ph remove_file_cases(2,3) [OF rm] rm
    by (auto simp: proc_step_def drop_cleanup_def quiet_def)
qed

lemma has_node_holds: "has_node p \<Longrightarrow> holds_temp p"
  by (simp add: has_node_def holds_temp_def split: phase.splits)

lemma step_phase:
  assumes "proc_step A R os (p, w) = (p', w')"
  shows "p_phase p \<noteq> Draw \<Longrightarrow> p_phase p' \<noteq> Create"
    "p_phase p' = Done (Ok ()) \<Longrightarrow> p_phase p = Rename \<or> p_phase p = Clean (Ok ()) \<or> p_phase p = Done (Ok ())"
    "holds_temp p' \<Longrightarrow> holds_temp p \<or> p_phase p = Draw"
    "holds_temp p \<Longrightarrow> \<not> holds_temp p' \<Longrightarrow> p_phase p = Rename \<or> (\<exists>r. p_phase p = Clean r)"
proof -
  have "(p_phase p \<noteq> Draw \<longrightarrow> p_phase p' \<noteq> Create) \<and>
    (p_phase p' = Done (Ok ()) \<longrightarrow> p_phase p = Rename \<or> p_phase p = Clean (Ok ()) \<or> p_phase p = Done (Ok ())) \<and>
    (holds_temp p' \<longrightarrow> holds_temp p \<or> p_phase p = Draw) \<and>
    (holds_temp p \<longrightarrow> \<not> holds_temp p' \<longrightarrow> p_phase p = Rename \<or> (\<exists>r. p_phase p = Clean r))"
    using assms
    by (cases "p_phase p")
      (auto simp: proc_step_def branch_def Let_def holds_temp_def split: prod.splits outcome.splits if_splits)
  then show "p_phase p \<noteq> Draw \<Longrightarrow> p_phase p' \<noteq> Create"
    "p_phase p' = Done (Ok ()) \<Longrightarrow> p_phase p = Rename \<or> p_phase p = Clean (Ok ()) \<or> p_phase p = Done (Ok ())"
    "holds_temp p' \<Longrightarrow> holds_temp p \<or> p_phase p = Draw"
    "holds_temp p \<Longrightarrow> \<not> holds_temp p' \<Longrightarrow> p_phase p = Rename \<or> (\<exists>r. p_phase p = Clean r)" by blast+
qed

text \<open>Together: a step keeps the invariant of the call that makes it, and changes the disk in one of five ways.\<close>

lemma call_step:
  assumes step: "pstep A R os (p, w) (p', w')" and tr: "proc_track A d0 p (disk w)"
    and si: "sources_intact d0 (disk w)" and own: "owns d0 p (disk w)"
    and free: "p_phase p = Create \<Longrightarrow> entries (disk w) (p_tmp p) = None"
  shows "proc_track A d0 p' (disk w') \<and> step_effect p (disk w) p' (disk w')"
proof -
  have ps: "proc_step A R os (p, w) = (p', w')" and nf: "\<not> finished p" using step by (auto elim!: pstepE)
  show ?thesis
  proof (cases "p_phase p")
    case Start
    with track_Start [OF Start ps tr si] show ?thesis by (auto simp: step_effect_def dest: has_node_holds)
  next
    case (Head n)
    with track_Head [OF Head ps tr si] show ?thesis by (auto simp: step_effect_def dest: has_node_holds)
  next
    case (Parse n)
    with track_Parse [OF Parse ps tr si] show ?thesis by (auto simp: step_effect_def dest: has_node_holds)
  next
    case Draw
    with track_Draw [OF Draw ps tr] show ?thesis by (auto simp: step_effect_def)
  next
    case Create
    with track_Create [OF Create ps tr si free [OF Create]] show ?thesis by (auto simp: step_effect_def)
  next
    case (Fill n)
    with track_Fill [OF Fill ps tr si] step_phase(2) [OF ps] show ?thesis by (auto simp: step_effect_def has_node_def)
  next
    case (Next n)
    with track_Next [OF Next ps tr] show ?thesis by (auto simp: step_effect_def has_node_def)
  next
    case (Last n)
    with track_Last [OF Last ps tr] show ?thesis by (auto simp: step_effect_def has_node_def)
  next
    case Flush
    with track_Flush [OF Flush ps tr] show ?thesis by (auto simp: step_effect_def has_node_def)
  next
    case Sync
    with track_Sync [OF Sync ps tr] show ?thesis by (auto simp: step_effect_def has_node_def)
  next
    case (Drop r)
    with track_Drop [OF Drop ps tr] show ?thesis by (auto simp: step_effect_def has_node_def)
  next
    case Rename
    then have "entries (disk w) (p_tmp p) = Some (w_ino (p_fout p))" using own by (simp add: owns_def has_node_def)
    from track_Rename [OF Rename ps this] Rename show ?thesis by (auto simp: step_effect_def proc_track_def has_node_def)
  next
    case (Clean r)
    then have "r \<noteq> Ok ()" using tr by (simp add: proc_track_def)
    with track_Clean [OF Clean ps] Clean show ?thesis by (auto simp: step_effect_def proc_track_def has_node_def)
  next
    case (Done r)
    with nf show ?thesis by (simp add: finished_def)
  qed
qed

end
