(* ===== verification/Filum_Concurrent_Safety.thy ===== *)
theory Filum_Concurrent_Safety
  imports Filum_Concurrent
begin

text \<open>
  The invariant of interleaved calls of \<open>decrypt_file_chunked\<close>, and what follows from it: at every
  moment every destination is as before or holds one complete plaintext, calls do not disturb each
  other, and every run comes to an end.
\<close>

subsection \<open>The invariant\<close>

text \<open>A file made by one of the calls has one name.\<close>

definition single_named :: "disk \<Rightarrow> disk \<Rightarrow> bool" where
  "single_named d0 d \<longleftrightarrow>
     (\<forall>q q' j. entries d q = Some j \<longrightarrow> entries d q' = Some j \<longrightarrow> next_ino d0 \<le> j \<longrightarrow> q = q')"

text \<open>The temporary names in use are distinct, and are not the files the calls work on.\<close>

definition temps_apart :: "'d process list \<Rightarrow> bool" where
  "temps_apart ps \<longleftrightarrow>
     (\<forall>i < length ps. \<forall>k < length ps. holds_temp (ps ! i) \<longrightarrow>
        p_tmp (ps ! i) \<noteq> p_output (ps ! k) \<and> p_tmp (ps ! i) \<noteq> p_input (ps ! k) \<and>
        (i \<noteq> k \<longrightarrow> holds_temp (ps ! k) \<longrightarrow> p_tmp (ps ! i) \<noteq> p_tmp (ps ! k)))"

definition inputs_apart :: "'d process list \<Rightarrow> bool" where
  "inputs_apart ps \<longleftrightarrow>
     (\<forall>i < length ps. \<forall>k < length ps. p_input (ps ! i) = p_output (ps ! k) \<longrightarrow> i = k)"

text \<open>What a name refers to: a published plaintext, what it referred to at the beginning, or a temporary file.\<close>

definition succeeded :: "path \<Rightarrow> 'd process \<Rightarrow> bool" where
  "succeeded q p \<longleftrightarrow> p_phase p = Done (Ok ()) \<and> p_output p = q"

definition holds_plaintext :: "('e, 'd) aead_lib \<Rightarrow> disk \<Rightarrow> disk \<Rightarrow> path \<Rightarrow> 'd process \<Rightarrow> bool" where
  "holds_plaintext A d0 d q p \<longleftrightarrow>
     (\<exists>j pt. entries d q = Some j \<and> next_ino d0 \<le> j \<and> node d j = \<lparr> contents = pt, synced_mark = True \<rparr> \<and>
        on_track A d0 p (Some pt))"

definition name_ok :: "('e, 'd) aead_lib \<Rightarrow> os \<Rightarrow> disk \<Rightarrow> 'd process list \<Rightarrow> disk \<Rightarrow> path \<Rightarrow> bool" where
  "name_ok A os d0 ps d q \<longleftrightarrow>
     (if \<exists>p \<in> set ps. succeeded q p then \<exists>p \<in> set ps. succeeded q p \<and> holds_plaintext A d0 d q p
      else entries d q = entries d0 q \<or>
        (\<forall>p \<in> set ps. p_output p \<noteq> q) \<and> entries d0 q = None \<and> (\<exists>p \<in> set ps. temp_name (p_output p) q) \<and>
        (os_ok os \<longrightarrow> (\<exists>p \<in> set ps. holds_temp p \<and> p_tmp p = q)))"

definition sys_inv :: "('e, 'd) aead_lib \<Rightarrow> os \<Rightarrow> disk \<Rightarrow> 'd process list \<times> 'r world \<Rightarrow> bool" where
  "sys_inv A os d0 s \<longleftrightarrow>
     wf_disk (disk (snd s)) \<and> sources_intact d0 (disk (snd s)) \<and> single_named d0 (disk (snd s)) \<and>
     (\<forall>p \<in> set (fst s). proc_track A d0 p (disk (snd s)) \<and> owns d0 p (disk (snd s))) \<and>
     temps_apart (fst s) \<and> inputs_apart (fst s) \<and> (\<forall>q. name_ok A os d0 (fst s) (disk (snd s)) q) \<and> clash_free s"

text \<open>One step in a state with the invariant.\<close>

definition moves ::
  "('e, 'd) aead_lib \<Rightarrow> 'r rng \<Rightarrow> os \<Rightarrow> disk \<Rightarrow> 'd process list \<Rightarrow> 'r world \<Rightarrow> nat \<Rightarrow> 'd process \<Rightarrow> 'r world \<Rightarrow> bool" where
  "moves A R os d0 ps w i p' w' \<longleftrightarrow>
     sys_inv A os d0 (ps, w) \<and> i < length ps \<and> pstep A R os (ps ! i, w) (p', w') \<and> clash_free (ps[i := p'], w')"

lemma moves_inv:
  assumes "moves A R os d0 ps w i p' w'"
  shows "wf_disk (disk w)" "sources_intact d0 (disk w)" "single_named d0 (disk w)" "i < length ps"
    "k < length ps \<Longrightarrow> proc_track A d0 (ps ! k) (disk w) \<and> owns d0 (ps ! k) (disk w)"
    "temps_apart ps" "inputs_apart ps" "name_ok A os d0 ps (disk w) q"
    "p_phase (ps ! i) = Create \<Longrightarrow> entries (disk w) (p_tmp (ps ! i)) = None"
    "clash_free (ps[i := p'], w')"
  using assms by (auto simp: moves_def sys_inv_def clash_free_def)

lemma moves_step:
  assumes m: "moves A R os d0 ps w i p' w'"
  shows "proc_step A R os (ps ! i, w) = (p', w')" "\<not> finished (ps ! i)"
    "proc_track A d0 p' (disk w')" "step_effect (ps ! i) (disk w) p' (disk w')"
proof -
  have step: "pstep A R os (ps ! i, w) (p', w')" using m by (simp add: moves_def)
  then show "proc_step A R os (ps ! i, w) = (p', w')" "\<not> finished (ps ! i)" by (auto elim!: pstepE)
  show "proc_track A d0 p' (disk w')" "step_effect (ps ! i) (disk w) p' (disk w')"
    using call_step [OF step] moves_inv(2,9) [OF m] moves_inv(5) [OF m moves_inv(4) [OF m]] by blast+
qed

lemma moves_args:
  assumes m: "moves A R os d0 ps w i p' w'" and "k < length ps"
  shows "p_input (ps[i := p'] ! k) = p_input (ps ! k)" "p_output (ps[i := p'] ! k) = p_output (ps ! k)"
  using step_args(1,2) [OF moves_step(1) [OF m]] assms(2) by (cases "k = i"; simp)+

text \<open>The name a call holds was drawn just now, or it is the one it held before.\<close>

lemma moves_temp:
  assumes m: "moves A R os d0 ps w i p' w'" and "holds_temp p'"
  shows "p_phase (ps ! i) = Draw \<and> p_phase p' = Create \<and> temp_name (p_output (ps ! i)) (p_tmp p') \<or>
    holds_temp (ps ! i) \<and> p_tmp p' = p_tmp (ps ! i)"
proof (cases "p_phase (ps ! i) = Draw")
  case True
  then show ?thesis
    using track_Draw [OF True moves_step(1) [OF m]] moves_inv(5) [OF m moves_inv(4) [OF m]] assms(2) by blast
next
  case False
  then show ?thesis
    using step_phase(3) [OF moves_step(1) [OF m] assms(2)] step_args(5) [OF moves_step(1) [OF m] False] by blast
qed

lemma name_owner:
  assumes "sys_inv A os d0 (ps, w)" "p \<in> set ps" "has_node p" "entries (disk w) q = Some (w_ino (p_fout p))"
  shows "q = p_tmp p"
  using assms unfolding sys_inv_def owns_def single_named_def by (metis fst_conv snd_conv)

subsection \<open>A step keeps the invariant\<close>

lemma step_effectE:
  assumes "step_effect p d p' d'"
  obtains (same) "d' = d" "has_node p' \<longrightarrow> has_node p" "p_phase p' \<noteq> Done (Ok ())" "w_ino (p_fout p') = w_ino (p_fout p)"
  | (created) "p_phase p = Create" "has_node p'" "w_ino (p_fout p') = next_ino d" "d' = disk_with_new (p_tmp p) d"
  | (wrote) "has_node p" "only_node (w_ino (p_fout p)) d d'" "holds_temp p'" "w_ino (p_fout p') = w_ino (p_fout p)"
  | (renamed) "p_phase p = Rename" "p' = p\<lparr> p_phase := Done (Ok ()) \<rparr>"
      "d' = d\<lparr> entries := (entries d)(p_tmp p := None, p_output p \<mapsto> w_ino (p_fout p)) \<rparr>"
  | (removed) r where "p_phase p = Clean r" "p_phase p' = Done r" "d' = d\<lparr> entries := (entries d)(p_tmp p := None) \<rparr>"
  using assms unfolding step_effect_def by blast

text \<open>What the moving call owns before the step.\<close>

lemma moves_owns:
  assumes m: "moves A R os d0 ps w i p' w'" and "has_node (ps ! i)"
  shows "entries (disk w) (p_tmp (ps ! i)) = Some (w_ino (p_fout (ps ! i)))" "next_ino d0 \<le> w_ino (p_fout (ps ! i))"
  using moves_inv(5) [OF m moves_inv(4) [OF m]] assms(2) by (simp_all add: owns_def)

lemma kept_disk:
  assumes m: "moves A R os d0 ps w i p' w'"
  shows "wf_disk (disk w') \<and> sources_intact d0 (disk w') \<and> single_named d0 (disk w')"
  using moves_step(4) [OF m]
proof (cases rule: step_effectE)
  case same
  then show ?thesis using moves_inv(1-3) [OF m] by simp
next
  case created
  have "q = q'" if "entries (disk w') q = Some j" "entries (disk w') q' = Some j" "next_ino d0 \<le> j" for q q' j
    using that moves_inv(1,3) [OF m] unfolding created(4)
    by (auto simp: disk_with_new_def single_named_def wf_disk_def split: if_splits)
  then have "single_named d0 (disk w')" unfolding single_named_def by blast
  then show ?thesis
    using moves_inv(1,2) [OF m] wf_disk_with_new [of "disk w"] unfolding created(4)
    by (auto simp: sources_intact_def disk_with_new_def)
next
  case wrote
  note own = moves_owns [OF m wrote(1)]
  have eq: "entries (disk w') = entries (disk w)" "next_ino (disk w') = next_ino (disk w)"
    using wrote(2) by (simp_all add: only_node_def)
  have "node (disk w') j = node d0 j" if "j < next_ino d0" for j
    using wrote(2) own(2) that moves_inv(2) [OF m] by (simp add: only_node_def sources_intact_def)
  then show ?thesis
    using wf_only_node [OF wrote(2)] moves_inv(1-3) [OF m] by (simp add: eq sources_intact_def single_named_def)
next
  case renamed
  have nd: "has_node (ps ! i)" using renamed(1) by (simp add: has_node_def)
  note own = moves_owns [OF m nd]
  have "q = q'" if "entries (disk w') q = Some j" "entries (disk w') q' = Some j" "next_ino d0 \<le> j" for q q' j
    using that own(1) moves_inv(3) [OF m] unfolding renamed(3) single_named_def
    by (simp split: if_splits)
  then have "single_named d0 (disk w')" unfolding single_named_def by blast
  then show ?thesis
    using moves_inv(1,2) [OF m] wf_disk_renamed [OF _ own(1)] unfolding renamed(3) by (simp add: sources_intact_def)
next
  case removed
  then show ?thesis
    using moves_inv(1-3) [OF m] wf_disk_removed [of "disk w"]
    by (auto simp: sources_intact_def single_named_def split: if_splits)
qed

text \<open>The other calls: their names and their node are not touched.\<close>

lemma others_frame:
  assumes m: "moves A R os d0 ps w i p' w'" and k: "k < length ps" "k \<noteq> i"
  shows "p_phase (ps ! k) = Start \<Longrightarrow> entries (disk w') (p_input (ps ! k)) = entries (disk w) (p_input (ps ! k))"
    "has_node (ps ! k) \<Longrightarrow> entries (disk w') (p_tmp (ps ! k)) = entries (disk w) (p_tmp (ps ! k)) \<and>
       node (disk w') (w_ino (p_fout (ps ! k))) = node (disk w) (w_ino (p_fout (ps ! k)))"
proof -
  note inv = moves_inv [OF m]
  have i: "holds_temp (ps ! i) \<Longrightarrow> p_tmp (ps ! i) \<noteq> p_input (ps ! k)"
    "holds_temp (ps ! i) \<Longrightarrow> holds_temp (ps ! k) \<Longrightarrow> p_tmp (ps ! i) \<noteq> p_tmp (ps ! k)"
    "holds_temp (ps ! k) \<Longrightarrow> p_tmp (ps ! k) \<noteq> p_output (ps ! i)" "p_input (ps ! k) \<noteq> p_output (ps ! i)"
    using inv(4,6,7) k by (auto simp: temps_apart_def inputs_apart_def)
  have own: "entries (disk w) (p_tmp (ps ! k)) = Some (w_ino (p_fout (ps ! k)))" "w_ino (p_fout (ps ! k)) < next_ino (disk w)"
    "next_ino d0 \<le> w_ino (p_fout (ps ! k))" "holds_temp (ps ! k)" if "has_node (ps ! k)"
    using that inv(1) inv(5) [OF k(1)] by (auto simp: owns_def wf_disk_def intro: has_node_holds)
  show "entries (disk w') (p_input (ps ! k)) = entries (disk w) (p_input (ps ! k))" if "p_phase (ps ! k) = Start"
    using moves_step(4) [OF m] i
    by (cases rule: step_effectE) (auto simp: disk_with_new_def only_node_def holds_temp_def)
  show "entries (disk w') (p_tmp (ps ! k)) = entries (disk w) (p_tmp (ps ! k)) \<and>
       node (disk w') (w_ino (p_fout (ps ! k))) = node (disk w) (w_ino (p_fout (ps ! k)))" if n: "has_node (ps ! k)"
    using moves_step(4) [OF m]
  proof (cases rule: step_effectE)
    case wrote
    have "w_ino (p_fout (ps ! k)) \<noteq> w_ino (p_fout (ps ! i))"
      using own [OF n] i(2) [OF has_node_holds [OF wrote(1)]] moves_owns [OF m wrote(1)] inv(3)
      unfolding single_named_def by metis
    then show ?thesis using wrote(2) by (simp add: only_node_def)
  qed (use own [OF n] i(2,3) in \<open>auto simp: disk_with_new_def holds_temp_def\<close>)
qed

lemma stream_frame:
  assumes "node d' (w_ino (p_fout p)) = node d (w_ino (p_fout p))"
  shows "streaming A d0 p d' n = streaming A d0 p d n" "complete A d0 p d' = complete A d0 p d"
  using assms by (simp_all add: streaming_def complete_def)

lemma track_frame:
  assumes "proc_track A d0 p d" "p_phase p = Start \<Longrightarrow> entries d' (p_input p) = entries d (p_input p)"
    and "has_node p \<Longrightarrow> node d' (w_ino (p_fout p)) = node d (w_ino (p_fout p))"
  shows "proc_track A d0 p d'"
  using assms by (cases "p_phase p") (simp_all add: proc_track_def has_node_def stream_frame [of d' p d A d0])

lemma kept_others:
  assumes m: "moves A R os d0 ps w i p' w'" and k: "k < length ps" "k \<noteq> i"
  shows "proc_track A d0 (ps ! k) (disk w') \<and> owns d0 (ps ! k) (disk w')"
proof -
  note inv = moves_inv(5) [OF m k(1)] and fr = others_frame [OF m k]
  have "proc_track A d0 (ps ! k) (disk w')" by (rule track_frame) (use inv fr in auto)
  then show ?thesis using inv fr(2) by (auto simp: owns_def)
qed

lemma has_node_not_Draw: "has_node p \<Longrightarrow> p_phase p \<noteq> Draw"
  by (auto simp: has_node_def)

lemma kept_mover:
  assumes m: "moves A R os d0 ps w i p' w'"
  shows "owns d0 p' (disk w')"
proof -
  note inv = moves_inv [OF m] and args = step_args [OF moves_step(1) [OF m]]
  have own: "owns d0 (ps ! i) (disk w)" using inv(5) [OF inv(4)] by simp
  have nd: "entries (disk w') (p_tmp p') = Some (w_ino (p_fout p')) \<and> next_ino d0 \<le> w_ino (p_fout p')" if n: "has_node p'"
    using moves_step(4) [OF m]
  proof (cases rule: step_effectE)
    case same
    then have "has_node (ps ! i)" using n by blast
    then show ?thesis using same own args(5) [OF has_node_not_Draw] by (simp add: owns_def)
  next
    case created
    then show ?thesis using args(5) inv(2) by (auto simp: disk_with_new_def sources_intact_def)
  next
    case wrote
    then show ?thesis using own args(5) [OF has_node_not_Draw] by (simp add: owns_def only_node_def)
  qed (use n in \<open>auto simp: has_node_def\<close>)
  have tn: "temp_name (p_output p') (p_tmp p') \<and> entries d0 (p_tmp p') = None" if h: "holds_temp p'"
    using moves_temp [OF m h]
  proof (elim disjE conjE)
    assume d: "p_phase (ps ! i) = Draw" "p_phase p' = Create" "temp_name (p_output (ps ! i)) (p_tmp p')"
    have dd: "disk w' = disk w" using moves_step(4) [OF m] d
      by (cases rule: step_effectE) (auto simp: has_node_def)
    have "entries (disk w') (p_tmp p') = None" "\<forall>q \<in> set (ps[i := p']). p_tmp p' \<noteq> p_output q"
      using inv(10) d(2) inv(4) by (auto simp: clash_free_def set_update_memI)
    moreover from this(2) have "p_output p \<noteq> p_tmp p'" if "p \<in> set ps" for p
      using that moves_args(2) [OF m] by (metis in_set_conv_nth length_list_update nth_mem)
    ultimately have "entries d0 (p_tmp p') = None"
      using inv(8) [of "p_tmp p'"] dd by (auto simp: name_ok_def succeeded_def)
    then show ?thesis using d(3) args(2) by simp
  next
    assume "holds_temp (ps ! i)" "p_tmp p' = p_tmp (ps ! i)"
    then show ?thesis using own args(2) by (simp add: owns_def)
  qed
  show ?thesis using nd tn by (simp add: owns_def)
qed

lemma kept_apart:
  assumes m: "moves A R os d0 ps w i p' w'"
  shows "temps_apart (ps[i := p']) \<and> inputs_apart (ps[i := p'])"
proof -
  note inv = moves_inv [OF m] and args = moves_args [OF m]
  let ?ps = "ps[i := p']"
  have old: "p_tmp (ps ! a) \<noteq> p_output (ps ! b) \<and> p_tmp (ps ! a) \<noteq> p_input (ps ! b) \<and>
      (a \<noteq> b \<longrightarrow> holds_temp (ps ! b) \<longrightarrow> p_tmp (ps ! a) \<noteq> p_tmp (ps ! b))"
    if "a < length ps" "b < length ps" "holds_temp (ps ! a)" for a b
    using inv(6) that by (simp add: temps_apart_def)
  have drawn: "p_tmp p' \<noteq> p_output (?ps ! b) \<and> p_tmp p' \<noteq> p_input (?ps ! b) \<and>
      (i \<noteq> b \<longrightarrow> holds_temp (ps ! b) \<longrightarrow> p_tmp p' \<noteq> p_tmp (ps ! b))"
    if "p_phase p' = Create" "b < length ps" for b
  proof -
    have "p_tmp p' \<noteq> p_output q \<and> p_tmp p' \<noteq> p_input q" if "q \<in> set ?ps" for q
      using inv(10) \<open>p_phase p' = Create\<close> that set_update_memI [OF inv(4), of p'] unfolding clash_free_def by auto
    moreover have "p_tmp (?ps ! i) \<noteq> p_tmp (?ps ! b)" if "i \<noteq> b" "holds_temp (?ps ! b)"
      using inv(10) [unfolded clash_free_def, THEN conjunct2, simplified, rule_format, of i b] that inv(4)
        \<open>p_phase p' = Create\<close> \<open>b < length ps\<close> by simp
    ultimately show ?thesis using inv(4) \<open>b < length ps\<close> by (auto simp: nth_mem)
  qed
  have "p_tmp (?ps ! a) \<noteq> p_output (?ps ! b) \<and> p_tmp (?ps ! a) \<noteq> p_input (?ps ! b) \<and>
      (a \<noteq> b \<longrightarrow> holds_temp (?ps ! b) \<longrightarrow> p_tmp (?ps ! a) \<noteq> p_tmp (?ps ! b))"
    if ab: "a < length ps" "b < length ps" "holds_temp (?ps ! a)" for a b
  proof (cases "a = i")
    case True
    then have "holds_temp p'" using ab inv(4) by simp
    from moves_temp [OF m this] show ?thesis
      using old [of i b] drawn [of b] True ab(2) inv(4) args [OF ab(2)] by (cases "b = i") auto
  next
    case False
    show ?thesis
    proof (cases "b = i \<and> holds_temp p'")
      case True
      with moves_temp [OF m] show ?thesis
        using old [of a i] drawn [of a] False ab(1,3) inv(4) args [OF inv(4)] by auto
    next
      case nh: False
      then show ?thesis
        using old [of a b] False ab inv(4) args [OF ab(2)] by (cases "b = i") auto
    qed
  qed
  then show ?thesis
    using inv(7) args by (auto simp: temps_apart_def inputs_apart_def)
qed

lemma temps_apartD:
  assumes "temps_apart ps" "i < length ps" "k < length ps" "holds_temp (ps ! i)"
  shows "p_tmp (ps ! i) \<noteq> p_output (ps ! k)" "p_tmp (ps ! i) \<noteq> p_input (ps ! k)"
  using assms by (simp_all add: temps_apart_def)

text \<open>The names: who is in the list after the step.\<close>

lemma moved_set:
  assumes "i < length ps"
  shows "p \<in> set (ps[i := p']) \<longleftrightarrow> p = p' \<or> (\<exists>k < length ps. k \<noteq> i \<and> p = ps ! k)"
  using assms by (auto simp: in_set_conv_nth nth_list_update)

lemma moved_outputs:
  assumes m: "moves A R os d0 ps w i p' w'"
  shows "(\<exists>p \<in> set (ps[i := p']). P (p_output p)) \<longleftrightarrow> (\<exists>p \<in> set ps. P (p_output p))"
proof -
  note i = moves_inv(4) [OF m] and out = step_args(2) [OF moves_step(1) [OF m]]
  show ?thesis
    unfolding Bex_def moved_set [OF i] using i out by (metis in_set_conv_nth)
qed

lemma moved_succeeded:
  assumes m: "moves A R os d0 ps w i p' w'"
  shows "(\<exists>p \<in> set (ps[i := p']). succeeded q p \<and> P p) \<longleftrightarrow> succeeded q p' \<and> P p' \<or> (\<exists>p \<in> set ps. succeeded q p \<and> P p)"
proof -
  note i = moves_inv(4) [OF m]
  have "\<not> succeeded q (ps ! i)" using moves_step(2) [OF m] by (auto simp: finished_def succeeded_def)
  then show ?thesis unfolding Bex_def moved_set [OF i] using i by (metis in_set_conv_nth)
qed

lemma moved_holder:
  assumes m: "moves A R os d0 ps w i p' w'" and h: "\<exists>p \<in> set ps. holds_temp p \<and> p_tmp p = q"
    and keep: "holds_temp (ps ! i) \<Longrightarrow> p_tmp (ps ! i) = q \<Longrightarrow> holds_temp p'"
  shows "\<exists>p \<in> set (ps[i := p']). holds_temp p \<and> p_tmp p = q"
proof -
  note i = moves_inv(4) [OF m]
  from h obtain k where k: "k < length ps" "holds_temp (ps ! k)" "p_tmp (ps ! k) = q" by (auto simp: in_set_conv_nth)
  show ?thesis
  proof (cases "k = i")
    case True
    then have "p_phase (ps ! i) \<noteq> Draw" using k by (auto simp: holds_temp_def)
    then have "p_tmp p' = q" using step_args(5) [OF moves_step(1) [OF m]] k True by simp
    then show ?thesis using keep k True moved_set [OF i] by blast
  next
    case False
    then show ?thesis using k moved_set [OF i] by blast
  qed
qed

lemma succeeded_mover:
  assumes m: "moves A R os d0 ps w i p' w'" and "succeeded q p'"
  shows "p_phase (ps ! i) = Rename" "q = p_output (ps ! i)" "holds_plaintext A d0 (disk w') q p'"
proof -
  note ps = moves_step(1) [OF m] and i = moves_inv(4) [OF m]
  have tr: "proc_track A d0 (ps ! i) (disk w)" using moves_inv(5) [OF m i] by simp
  show ph: "p_phase (ps ! i) = Rename"
    using step_phase(2) [OF ps] assms(2) moves_step(2) [OF m] tr
    by (auto simp: succeeded_def finished_def proc_track_def)
  show q: "q = p_output (ps ! i)" using assms(2) step_args(2) [OF ps] by (simp add: succeeded_def)
  have nd: "has_node (ps ! i)" using ph by (simp add: has_node_def)
  note own = moves_owns [OF m nd]
  have fx: "p' = (ps ! i)\<lparr> p_phase := Done (Ok ()) \<rparr>"
    "disk w' = (disk w)\<lparr> entries := (entries (disk w))(p_tmp (ps ! i) := None, p_output (ps ! i) \<mapsto> w_ino (p_fout (ps ! i))) \<rparr>"
    using track_Rename [OF ph ps own(1)] assms(2) by (auto simp: succeeded_def)
  show "holds_plaintext A d0 (disk w') q p'"
    using tr ph own(2)
    by (cases "node (disk w) (w_ino (p_fout (ps ! i)))") (auto simp: fx q holds_plaintext_def proc_track_def complete_def)
qed

text \<open>A published plaintext stays, unless the step publishes another one in its place.\<close>

lemma plaintext_frame:
  assumes m: "moves A R os d0 ps w i p' w'" and hp: "holds_plaintext A d0 (disk w) q p"
    and out: "k < length ps" "p_output (ps ! k) = q" and ns: "\<not> succeeded q p'"
  shows "holds_plaintext A d0 (disk w') q p"
proof -
  note inv = moves_inv [OF m]
  have nt: "holds_temp (ps ! i) \<Longrightarrow> q \<noteq> p_tmp (ps ! i)"
    using temps_apartD(1) [OF inv(6,4) out(1)] out(2) by metis
  from hp obtain j pt where j: "entries (disk w) q = Some j" "next_ino d0 \<le> j"
    "node (disk w) j = \<lparr> contents = pt, synced_mark = True \<rparr>" "on_track A d0 p (Some pt)"
    by (auto simp: holds_plaintext_def)
  have lt: "j < next_ino (disk w)" using inv(1) j(1) by (auto simp: wf_disk_def)
  have "entries (disk w') q = Some j \<and> node (disk w') j = node (disk w) j"
    using moves_step(4) [OF m]
  proof (cases rule: step_effectE)
    case wrote
    have "j \<noteq> w_ino (p_fout (ps ! i))"
      using inv(3) j(1,2) moves_owns(1) [OF m wrote(1)] nt [OF has_node_holds [OF wrote(1)]]
      unfolding single_named_def by metis
    then show ?thesis using wrote(2) j(1) by (simp add: only_node_def)
  next
    case renamed
    then show ?thesis using j(1) nt ns by (auto simp: holds_temp_def succeeded_def)
  qed (use j(1) lt nt in \<open>auto simp: disk_with_new_def holds_temp_def\<close>)
  then show ?thesis using j by (auto simp: holds_plaintext_def)
qed

text \<open>Any other name: it refers to what it did, or it is the temporary file of the moving call.\<close>

lemma other_name:
  assumes m: "moves A R os d0 ps w i p' w'" and ns: "\<not> succeeded q p'"
  shows "entries (disk w') q = entries (disk w) q \<and>
      (os_ok os \<longrightarrow> holds_temp (ps ! i) \<longrightarrow> p_tmp (ps ! i) = q \<longrightarrow> holds_temp p' \<or> entries (disk w') q = None) \<or>
    holds_temp (ps ! i) \<and> q = p_tmp (ps ! i) \<and> (entries (disk w') q = None \<or> holds_temp p')"
  using moves_step(4) [OF m]
proof (cases rule: step_effectE)
  case same
  have "holds_temp p' \<or> entries (disk w') q = None" if h: "os_ok os" "holds_temp (ps ! i)" "p_tmp (ps ! i) = q"
  proof (rule disjCI)
    assume ne: "entries (disk w') q \<noteq> None"
    show "holds_temp p'"
    proof (rule ccontr)
      assume n: "\<not> holds_temp p'"
      from step_phase(4) [OF moves_step(1) [OF m] h(2) n]
      consider "p_phase (ps ! i) = Rename" | r where "p_phase (ps ! i) = Clean r" by blast
      then show False
      proof cases
        case 1
        then have "has_node (ps ! i)" by (simp add: has_node_def)
        from track_Rename [OF 1 moves_step(1) [OF m] moves_owns(1) [OF m this]] n same(3) show False
          by (auto simp: holds_temp_def)
      next
        case 2
        then show False using track_Clean [OF 2 moves_step(1) [OF m]] h ne by simp
      qed
    qed
  qed
  then show ?thesis unfolding same(1) by metis
next
  case created
  then have "holds_temp p'" "holds_temp (ps ! i)" by (simp_all add: has_node_holds) (simp add: holds_temp_def)
  then show ?thesis unfolding created(4) by (auto simp: disk_with_new_def)
next
  case wrote
  then show ?thesis by (simp add: only_node_def)
next
  case renamed
  then show ?thesis using ns by (auto simp: holds_temp_def succeeded_def)
next
  case removed
  then show ?thesis by (auto simp: holds_temp_def)
qed

lemma kept_unpublished:
  assumes m: "moves A R os d0 ps w i p' w'" and ns: "\<not> succeeded q p'" "\<not> (\<exists>p \<in> set ps. succeeded q p)"
  shows "entries (disk w') q = entries d0 q \<or> (\<forall>p \<in> set ps. p_output p \<noteq> q) \<and> entries d0 q = None \<and>
      (\<exists>p \<in> set ps. temp_name (p_output p) q) \<and> (os_ok os \<longrightarrow> (\<exists>p \<in> set (ps[i := p']). holds_temp p \<and> p_tmp p = q))"
proof -
  note inv = moves_inv [OF m]
  have old: "entries (disk w) q = entries d0 q \<or> (\<forall>p \<in> set ps. p_output p \<noteq> q) \<and> entries d0 q = None \<and>
      (\<exists>p \<in> set ps. temp_name (p_output p) q) \<and> (os_ok os \<longrightarrow> (\<exists>p \<in> set ps. holds_temp p \<and> p_tmp p = q))"
    using moves_inv(8) [OF m, of q] ns(2) unfolding name_ok_def by meson
  consider (other) "entries (disk w') q = entries (disk w) q"
      "os_ok os \<longrightarrow> holds_temp (ps ! i) \<longrightarrow> p_tmp (ps ! i) = q \<longrightarrow> holds_temp p' \<or> entries (disk w') q = None"
    | (own) "holds_temp (ps ! i)" "q = p_tmp (ps ! i)" "entries (disk w') q = None \<or> holds_temp p'"
    using other_name [OF m ns(1)] by blast
  then show ?thesis
  proof cases
    case other
    show ?thesis
    proof (cases "entries (disk w') q = entries d0 q")
      case ne: False
      have "\<exists>p \<in> set (ps[i := p']). holds_temp p \<and> p_tmp p = q" if "os_ok os"
        by (rule moved_holder [OF m]) (use old ne other that in auto)
      then show ?thesis using old ne other(1) by auto
    qed simp
  next
    case own
    have "p_output p \<noteq> q" if "p \<in> set ps" for p
      using temps_apartD(1) [OF inv(6,4) _ own(1)] own(2) that by (metis in_set_conv_nth)
    moreover have "temp_name (p_output (ps ! i)) q" "entries d0 q = None"
      using inv(5) [OF inv(4)] own(1,2) by (auto simp: owns_def)
    moreover have "\<exists>p \<in> set (ps[i := p']). holds_temp p \<and> p_tmp p = q" if "holds_temp p'"
      by (rule moved_holder [OF m]) (use own that inv(4) in auto)
    ultimately show ?thesis using own(3) inv(4) by (metis nth_mem)
  qed
qed

lemma kept_names:
  assumes m: "moves A R os d0 ps w i p' w'"
  shows "name_ok A os d0 (ps[i := p']) (disk w') q"
proof (cases "succeeded q p'")
  case True
  then show ?thesis
    using succeeded_mover(3) [OF m True] moved_set [OF moves_inv(4) [OF m], of p' p'] by (auto simp: name_ok_def)
next
  case False
  have succ: "(\<exists>p \<in> set (ps[i := p']). succeeded q p) \<longleftrightarrow> (\<exists>p \<in> set ps. succeeded q p)"
    using moved_succeeded [OF m, of q "\<lambda>_. True"] False by simp
  show ?thesis
  proof (cases "\<exists>p \<in> set ps. succeeded q p")
    case True
    then obtain p where p: "p \<in> set ps" "succeeded q p" "holds_plaintext A d0 (disk w) q p"
      using moves_inv(8) [OF m, of q] by (auto simp: name_ok_def)
    then obtain k where "k < length ps" "p_output (ps ! k) = q" by (auto simp: in_set_conv_nth succeeded_def)
    from plaintext_frame [OF m p(3) this False] p(1,2) show ?thesis
      using moved_succeeded [OF m, of q "holds_plaintext A d0 (disk w') q"] succ True by (auto simp: name_ok_def)
  next
    case ns: False
    have outs: "(\<forall>p \<in> set (ps[i := p']). p_output p \<noteq> q) \<longleftrightarrow> (\<forall>p \<in> set ps. p_output p \<noteq> q)"
      "(\<exists>p \<in> set (ps[i := p']). temp_name (p_output p) q) \<longleftrightarrow> (\<exists>p \<in> set ps. temp_name (p_output p) q)"
      using moved_outputs [OF m, of "\<lambda>x. x = q"] moved_outputs [OF m, of "\<lambda>x. temp_name x q"] by blast+
    show ?thesis using kept_unpublished [OF m False ns] ns succ outs by (simp add: name_ok_def)
  qed
qed

lemma sys_inv_moved:
  assumes m: "moves A R os d0 ps w i p' w'"
  shows "sys_inv A os d0 (ps[i := p'], w')"
proof -
  have "proc_track A d0 p (disk w') \<and> owns d0 p (disk w')" if "p \<in> set (ps[i := p'])" for p
  proof -
    from that consider "p = p'" | k where "k < length ps" "k \<noteq> i" "p = ps ! k"
      unfolding moved_set [OF moves_inv(4) [OF m]] by blast
    then show ?thesis
      using kept_others [OF m] kept_mover [OF m] moves_step(3) [OF m] by cases simp_all
  qed
  then show ?thesis
    using kept_disk [OF m] kept_apart [OF m] kept_names [OF m] moves_inv(10) [OF m] by (simp add: sys_inv_def)
qed

lemma sys_inv_step:
  assumes "sys_inv A os d0 s" "clean_step A R os s t"
  shows "sys_inv A os d0 t"
  using assms(2)
proof (cases rule: clean_step.cases)
  case clean
  from clean(1) show ?thesis
  proof (cases rule: sys_step.cases)
    case (move i ps w p' w')
    with assms(1) clean(2) have "moves A R os d0 ps w i p' w'" by (simp add: moves_def)
    from sys_inv_moved [OF this] move show ?thesis by simp
  qed
qed

lemma sys_inv_initial:
  assumes "initial s"
  shows "sys_inv A os (disk (snd s)) s"
proof -
  have st: "p_phase p = Start" if "p \<in> set (fst s)" for p using assms that by (simp add: initial_def)
  have wf: "wf_disk (disk (snd s))" using assms by (simp add: initial_def)
  then have "single_named (disk (snd s)) (disk (snd s))"
    by (auto simp: single_named_def wf_disk_def) (meson linorder_not_less)
  moreover have "temps_apart (fst s)" "inputs_apart (fst s)"
    using assms st by (simp_all add: temps_apart_def inputs_apart_def initial_def holds_temp_def)
  moreover have "name_ok A os (disk (snd s)) (fst s) (disk (snd s)) q" for q
  proof -
    have "\<not> (\<exists>p \<in> set (fst s). succeeded q p)" using st by (fastforce simp: succeeded_def)
    then show ?thesis unfolding name_ok_def by (simp only: if_False simp_thms)
  qed
  moreover have "proc_track A (disk (snd s)) p (disk (snd s)) \<and> owns (disk (snd s)) p (disk (snd s))" if "p \<in> set (fst s)" for p
    using st [OF that] by (simp add: proc_track_def owns_def has_node_def holds_temp_def)
  moreover have "clash_free s" using st nth_mem [of _ "fst s"] unfolding clash_free_def by fastforce
  ultimately show ?thesis using wf by (simp add: sys_inv_def sources_intact_def)
qed

end
