(* ===== verification/Filum_Concurrent_Guarantees.thy ===== *)
theory Filum_Concurrent_Guarantees
  imports Filum_Concurrent_Safety Filum_File_Guarantees
begin

text \<open>
  What is promised to callers that decrypt several blobs to files at once: at every moment every
  destination is as before or holds one complete plaintext; when all calls have ended nothing else has
  changed; and every interleaving ends, after a number of steps linear in the size of the inputs.
\<close>

subsection \<open>Every run ends\<close>

text \<open>
  The work a call has left: every step of a read loop moves at least one byte out of the input, and
  between two turns of the streaming loop a whole chunk has been read.
\<close>

definition proc_work :: "disk \<Rightarrow> 'd process \<Rightarrow> nat" where
  "proc_work d0 p =
     (let r = 5 * length (rem_on d0 (p_fin p)) in
      case p_phase p of
        Start \<Rightarrow> 5 * length (source_bytes d0 p) + 15
      | Head _ \<Rightarrow> r + 14
      | Parse _ \<Rightarrow> r + 13
      | Draw \<Rightarrow> r + 12
      | Create \<Rightarrow> r + 11
      | Fill n \<Rightarrow> r + (if n = 0 then 10 else 13)
      | Next n \<Rightarrow> r + (if n = 0 then 9 else 12)
      | Last n \<Rightarrow> r + (if n = 0 then 8 else 11)
      | Flush \<Rightarrow> 7 | Sync \<Rightarrow> 6 | Drop _ \<Rightarrow> 5 | Rename \<Rightarrow> 4 | Clean _ \<Rightarrow> 3 | Done _ \<Rightarrow> 0)"

definition sys_work :: "disk \<Rightarrow> 'd process list \<times> 'r world \<Rightarrow> nat" where
  "sys_work d0 s = (\<Sum>p \<leftarrow> fst s. proc_work d0 p)"

lemma fill_turn_moves:
  assumes ft: "fill_turn os (p_fin p) (p_buf p) n w = (Ok (go, rd, buf, n'), w1)" and "n \<le> length (p_buf p)"
    and si: "sources_intact d0 (disk w)" "reads_source d0 p"
  shows "length (rem_on d0 rd) + n' = length (rem_on d0 (p_fin p)) + n"
proof -
  note fo = fill_turn_Ok [OF ft]
  have "remaining (p_fin p) w = rem_on d0 (p_fin p)" "remaining rd w = rem_on d0 rd"
    using remaining_source [OF si(1)] si(2) fo(1) unfolding reads_source_def by metis+
  with fo(3) [OF assms(2)] have "take n' buf @ rem_on d0 rd = take n (p_buf p) @ rem_on d0 (p_fin p)"
    "n' \<le> length buf" by simp_all
  from arg_cong [OF this(1), of length] this(2) assms(2) show ?thesis by simp
qed

lemma fill_work:
  assumes ps: "proc_step A R os (p, w) = (p', w')" and tr: "proc_track A d0 p (disk w)"
    and si: "sources_intact d0 (disk w)" and ph: "p_phase p = Head n \<or> p_phase p = Fill n"
  shows "proc_work d0 p' < proc_work d0 p"
proof -
  obtain r w1 where ft: "fill_turn os (p_fin p) (p_buf p) n w = (r, w1)" by (metis surj_pair)
  have src: "reads_source d0 p" "n \<le> length (p_buf p)"
    using tr ph by (auto simp: proc_track_def heading_def streaming_def)
  show ?thesis
  proof (cases r)
    case (Ok x)
    obtain go rd buf n' where x: "x = (go, rd, buf, n')" by (cases x) auto
    note ft = ft [unfolded Ok x]
    have p': "p' = p\<lparr> p_fin := rd, p_buf := buf, p_phase :=
        (if p_phase p = Head n then (if go then Head n' else Parse n') else (if go then Fill n' else Next n')) \<rparr>"
      using ps ph ft by (auto simp: proc_step_def)
    show ?thesis
      using fill_turn_moves [OF ft src(2) si src(1)] fill_turn_Ok(4,5) [OF ft] ph
      by (cases go) (auto simp: p' proc_work_def)
  qed (use ps ph ft in \<open>auto simp: proc_step_def proc_work_def\<close>)
qed

lemma work_decreases_step:
  assumes ps: "proc_step A R os (p, w) = (p', w')" and tr: "proc_track A d0 p (disk w)"
    and si: "sources_intact d0 (disk w)" and nf: "\<not> finished p"
  shows "proc_work d0 p' < proc_work d0 p"
proof (cases "p_phase p")
  case Start
  have "proc_track A d0 p' (disk w')" using track_Start [OF Start ps tr si] by blast
  moreover have "source_bytes d0 p' = source_bytes d0 p" using step_args(1) [OF ps] by (simp add: source_bytes_def)
  moreover have "p_phase p' = Head 0 \<or> (\<exists>r. p_phase p' = Done r)"
    using ps Start by (auto simp: proc_step_def branch_def split: prod.splits outcome.splits)
  ultimately show ?thesis using Start by (auto simp: proc_track_def heading_def proc_work_def)
next
  case (Head n)
  show ?thesis by (rule fill_work [OF ps tr si]) (simp add: Head)
next
  case (Fill n)
  show ?thesis by (rule fill_work [OF ps tr si]) (simp add: Fill)
next
  case (Last n)
  have "0 < p_chunk p" "n \<le> p_chunk p" using tr Last by (auto simp: proc_track_def streaming_def)
  then show ?thesis
    using ps Last by (auto simp: proc_step_def branch_def proc_work_def split: prod.splits outcome.splits if_splits)
next
  case (Done r)
  with nf show ?thesis by (simp add: finished_def)
qed (use ps in \<open>auto simp: proc_step_def branch_def proc_work_def split: prod.splits outcome.splits\<close>)

lemma sys_work_step:
  assumes inv: "sys_inv A os d0 s" and step: "clean_step A R os s t"
  shows "sys_work d0 t < sys_work d0 s"
  using step
proof (cases rule: clean_step.cases)
  case clean
  from clean(1) show ?thesis
  proof (cases rule: sys_step.cases)
    case (move i ps w p' w')
    with inv clean(2) have m: "moves A R os d0 ps w i p' w'" by (simp add: moves_def)
    have "proc_work d0 p' < proc_work d0 (ps ! i)"
      using work_decreases_step [OF moves_step(1) [OF m] _ moves_inv(2) [OF m] moves_step(2) [OF m]]
        moves_inv(5) [OF m moves_inv(4) [OF m]] by blast
    then have "proc_work d0 p' + (\<Sum>p \<leftarrow> ps. proc_work d0 p) < proc_work d0 (ps ! i) + (\<Sum>p \<leftarrow> ps. proc_work d0 p)"
      by simp
    moreover have "sum_list (map (proc_work d0) ps) = proc_work d0 (ps ! i) + sum_list (map (proc_work d0) (take i ps @ drop (Suc i) ps))"
      by (subst id_take_nth_drop [OF move(3)]) simp
    ultimately show ?thesis
      using move(3) by (simp add: move(1,2) sys_work_def upd_conv_take_nth_drop)
  qed
qed

text \<open>Interleaved calls, from a given disk, are a terminating system.\<close>

interpretation calls_at_once: terminating_system "\<lambda>s. initial s \<and> disk (snd s) = d0" "clean_step A R os" "sys_inv A os d0" "sys_work d0"
  by unfold_locales (auto intro: sys_inv_initial sys_inv_step sys_work_step)

subsection \<open>What holds at every moment\<close>

lemma reached:
  assumes "initial s0" "(clean_step A R os)\<^sup>*\<^sup>* s0 s"
  shows "sys_inv A os (disk (snd s0)) s"
  using calls_at_once.always [of s0 "disk (snd s0)" A R os s] assms by simp

lemma name_now:
  assumes "sys_inv A os d0 (ps, w)" "stream_min16 A"
  shows "\<exists>p \<in> set ps. succeeded q p \<Longrightarrow> \<exists>p \<in> set ps. succeeded q p \<and> on_stable_storage (disk w) q \<and>
      (\<exists>pt. delivers A d0 p pt \<and> read_path (disk w) q = Some pt)"
    "\<not> (\<exists>p \<in> set ps. succeeded q p) \<Longrightarrow> read_path (disk w) q = read_path d0 q \<or>
      (\<forall>p \<in> set ps. p_output p \<noteq> q) \<and> (\<exists>p \<in> set ps. temp_name (p_output p) q) \<and> read_path d0 q = None \<and>
      (os_ok os \<longrightarrow> (\<exists>p \<in> set ps. holds_temp p \<and> p_tmp p = q))"
proof -
  have nm: "name_ok A os d0 ps (disk w) q" and si: "sources_intact d0 (disk w)"
    using assms(1) by (simp_all add: sys_inv_def)
  show "\<exists>p \<in> set ps. succeeded q p \<and> on_stable_storage (disk w) q \<and>
      (\<exists>pt. delivers A d0 p pt \<and> read_path (disk w) q = Some pt)" if s: "\<exists>p \<in> set ps. succeeded q p"
  proof -
    from nm obtain p where p: "p \<in> set ps" "succeeded q p" "holds_plaintext A d0 (disk w) q p"
      unfolding name_ok_def if_P [OF s] by blast
    then obtain j pt where j: "entries (disk w) q = Some j" "node (disk w) j = \<lparr> contents = pt, synced_mark = True \<rparr>"
      "on_track A d0 p (Some pt)" unfolding holds_plaintext_def by blast
    then have "on_stable_storage (disk w) q" "read_path (disk w) q = Some pt"
      by (simp_all add: on_stable_storage_def read_path_def)
    with p on_track_delivers [OF j(3) assms(2)] show ?thesis by blast
  qed
  show "read_path (disk w) q = read_path d0 q \<or>
      (\<forall>p \<in> set ps. p_output p \<noteq> q) \<and> (\<exists>p \<in> set ps. temp_name (p_output p) q) \<and> read_path d0 q = None \<and>
      (os_ok os \<longrightarrow> (\<exists>p \<in> set ps. holds_temp p \<and> p_tmp p = q))" if s: "\<not> (\<exists>p \<in> set ps. succeeded q p)"
    using nm unfolding name_ok_def if_not_P [OF s]
  proof (elim disjE conjE)
    assume "entries (disk w) q = entries d0 q"
    then have "read_path (disk w) q = read_path d0 q"
      using source_node(2) [OF si, of q] by (cases "entries d0 q") (simp_all add: read_path_def)
    then show ?thesis by blast
  qed (simp add: read_path_def)
qed

subsection \<open>One call running while the others wait\<close>

text \<open>A run of one call is a run of the system, as long as its temporary name is free.\<close>

definition names_free :: "disk \<Rightarrow> 'd process list \<Rightarrow> path \<Rightarrow> bool" where
  "names_free d ps out \<longleftrightarrow>
     (\<forall>t. temp_name out t \<longrightarrow> entries d t = None \<and> (\<forall>q \<in> set ps. t \<noteq> p_output q \<and> t \<noteq> p_input q))"

lemma psteps_args:
  assumes "psteps A R os s t"
  shows "p_input (fst t) = p_input (fst s) \<and> p_output (fst t) = p_output (fst s) \<and> p_key (fst t) = p_key (fst s) \<and>
    p_id (fst t) = p_id (fst s)"
  using assms
proof (induction rule: rtranclp_induct)
  case (step t u)
  obtain p w p' w' where "t = (p, w)" "u = (p', w')" by (cases t; cases u)
  with step step_args(1-4) [of A R os p w p' w'] show ?case by (auto elim!: pstepE)
qed simp

lemma alone_clash_free:
  assumes inv: "sys_inv A os d0 (p # qs, w)" and ok: "os_ok os" and qs: "\<forall>q \<in> set qs. p_phase q = Start"
    and free: "names_free d0 (p # qs) (p_output p)" and ps: "proc_step A R os (p, w) = (p', w')"
  shows "clash_free (p' # qs, w')"
proof (cases "p_phase p' = Create")
  case True
  then have dr: "p_phase p = Draw" using step_phase(1) [OF ps] by blast
  have tr: "proc_track A d0 p (disk w)" using inv by (simp add: sys_inv_def)
  have t: "temp_name (p_output p) (p_tmp p')" "disk w' = disk w"
    using track_Draw [OF dr ps tr] True by (simp_all add: holds_temp_def)
  have nh: "\<not> holds_temp q" "\<not> succeeded u q" if "q \<in> set (p # qs)" for q u
    using that dr qs by (auto simp: holds_temp_def succeeded_def)
  have "name_ok A os d0 (p # qs) (disk w) (p_tmp p')" using inv by (simp add: sys_inv_def)
  then have "entries (disk w') (p_tmp p') = None"
    using nh ok t free unfolding name_ok_def names_free_def by metis
  moreover have "p_tmp p' \<noteq> p_output q \<and> p_tmp p' \<noteq> p_input q" if "q \<in> set (p' # qs)" for q
    using that t(1) free step_args(1,2) [OF ps] by (auto simp: names_free_def)
  ultimately show ?thesis
    using nh(1) qs by (auto simp: clash_free_def nth_Cons' holds_temp_def)
next
  case False
  then show ?thesis using qs by (auto simp: clash_free_def nth_Cons')
qed

lemma alone:
  assumes "sys_inv A os d0 (p # qs, w)" "os_ok os" "\<forall>q \<in> set qs. p_phase q = Start"
    "names_free d0 (p # qs) (p_output p)" "psteps A R os (p, w) (p', w')"
  shows "(clean_step A R os)\<^sup>*\<^sup>* (p # qs, w) (p' # qs, w')"
proof -
  have "sys_inv A os d0 (fst s # qs, snd s) \<Longrightarrow> names_free d0 (fst s # qs) (p_output (fst s)) \<Longrightarrow>
      (clean_step A R os)\<^sup>*\<^sup>* (fst s # qs, snd s) (fst t # qs, snd t)" if "psteps A R os s t" for s t
    using that
  proof (induction rule: converse_rtranclp_induct)
    case (step s s')
    obtain p1 w1 p2 w2 where s: "s = (p1, w1)" "s' = (p2, w2)" by (cases s; cases s')
    have st: "proc_step A R os (p1, w1) = (p2, w2)" using step.hyps(1) by (auto simp: s elim!: pstepE)
    have "sys_step A R os (p1 # qs, w1) (p2 # qs, w2)"
      using sys_step.move [of 0 "p1 # qs" A R os w1 p2 w2] step.hyps(1) by (simp add: s)
    with alone_clash_free [OF _ assms(2,3) _ st] step.prems
    have one: "clean_step A R os (p1 # qs, w1) (p2 # qs, w2)" by (auto simp: s intro: clean_step.clean)
    then have "sys_inv A os d0 (p2 # qs, w2)" using sys_inv_step step.prems(1) by (metis s(1) fst_conv snd_conv)
    moreover have "names_free d0 (p2 # qs) (p_output p2)"
      using step.prems(2) step_args(1,2) [OF st] by (simp add: s names_free_def)
    ultimately show ?case using one step.IH by (simp add: s)
  qed simp
  from this [OF assms(5)] assms(1,4) show ?thesis by simp
qed

text \<open>Two calls for the same destination, the first of which has run to its end.\<close>

definition sample_call :: "ref_stream process" where
  "sample_call = \<lparr> p_input = in_path, p_output = out_path, p_key = sample_key, p_id = ''ab'', p_aad = [],
     p_fin = \<lparr> r_ino = 0, r_pos = 0, r_buf = [] \<rparr>, p_buf = [], p_dec = ([], [], 0), p_chunk = 0, p_tmp = [],
     p_fout = \<lparr> w_ino = 0, w_buf = [] \<rparr>, p_pending = None, p_phase = Start \<rparr>"

lemma sample_initial: "initial ([sample_call, sample_call], one_file data)" "initial ([sample_call], one_file data)"
  by (simp_all add: initial_def sample_call_def one_file_facts nth_Cons')

lemma sample_names_free: "names_free (disk (one_file data)) [sample_call, sample_call] out_path"
  "names_free (disk (one_file data)) [sample_call] out_path"
proof -
  have "entries (disk (one_file data)) t = None \<and> t \<noteq> out_path \<and> t \<noteq> in_path" if t: "temp_name out_path t" for t
  proof -
    have "\<exists>n. t = [RootDir, Normal (''out'' @ ''.'' @ hex16 n @ ''.part'')]"
      using t temp_path_eq [OF one_file_facts(5,6)] one_file_facts(6) by (auto simp: temp_name_def out_path_def)
    then show ?thesis by (auto simp: one_file_def in_path_def out_path_def)
  qed
  then show "names_free (disk (one_file data)) [sample_call, sample_call] out_path"
    "names_free (disk (one_file data)) [sample_call] out_path" by (simp_all add: names_free_def sample_call_def)
qed

lemma sample_run:
  assumes "set qs \<subseteq> {sample_call}" "initial (sample_call # qs, one_file sample_blob)"
  obtains p w where
    "(clean_step ref_aead ref_rng calm)\<^sup>*\<^sup>* (sample_call # qs, one_file sample_blob) (p # qs, w)" "succeeded out_path p"
    "p_input p = in_path" "p_key p = sample_key" "p_id p = ''ab''"
proof (rule sample_file_decrypted)
  fix w'
  assume "decrypt_file_chunked ref_aead ref_rng calm in_path out_path sample_key ''ab'' (one_file sample_blob) = Some (Ok (), w')"
  from call_runs [OF this, of sample_call] obtain p where
    p: "psteps ref_aead ref_rng calm (sample_call, one_file sample_blob) (p, w')" "p_phase p = Done (Ok ())"
    by (auto simp: calls_def sample_call_def)
  have "names_free (disk (one_file sample_blob)) (sample_call # qs) out_path"
    using sample_names_free(2) assms(1) by (auto simp: names_free_def)
  then have free: "names_free (disk (one_file sample_blob)) (sample_call # qs) (p_output sample_call)"
    by (simp add: sample_call_def)
  have "p_phase q = Start" if "q \<in> set qs" for q using that assms(1) by (auto simp: sample_call_def)
  then have "(clean_step ref_aead ref_rng calm)\<^sup>*\<^sup>* (sample_call # qs, one_file sample_blob) (p # qs, w')"
    using alone [OF _ calm_ok _ free p(1)] sys_inv_initial [OF assms(2), of ref_aead calm] by simp
  moreover have "p_output p = out_path" "p_input p = in_path" "p_key p = sample_key" "p_id p = ''ab''"
    using psteps_args [OF p(1)] by (simp_all add: sample_call_def)
  ultimately show thesis using p(2) that by (simp add: succeeded_def)
qed

subsection \<open>Guarantees\<close>

text \<open>
  C8: concurrent decryptions do not disturb each other. Start any number of calls of
  \<open>decrypt_file_chunked\<close> (several may have the same destination; none reads another's destination) and
  interleave their steps in any way, whatever calls of the operating system fail, with no temporary
  name drawn twice or already in use. At every moment, a destination for which a call has succeeded
  holds, on stable storage, the complete authenticated plaintext of one of the calls that succeeded for
  it; every other file is as at the beginning, except for temporary siblings of destinations, which
  were not there before.
\<close>

theorem concurrent_decrypts_atomic:
  assumes "initial (ps0, w0)" "(clean_step A R os)\<^sup>*\<^sup>* (ps0, w0) (ps, w)" "stream_min16 A"
  shows "if \<exists>p \<in> set ps. succeeded q p
    then \<exists>p \<in> set ps. succeeded q p \<and> on_stable_storage (disk w) q \<and>
      (\<exists>pt. delivers A (disk w0) p pt \<and> read_path (disk w) q = Some pt)
    else read_path (disk w) q = read_path (disk w0) q \<or>
      (\<forall>p \<in> set ps. p_output p \<noteq> q) \<and> (\<exists>p \<in> set ps. temp_name (p_output p) q) \<and> read_path (disk w0) q = None"
proof -
  have inv: "sys_inv A os (disk w0) (ps, w)" using reached [OF assms(1,2)] by simp
  show ?thesis
  proof (cases "\<exists>p \<in> set ps. succeeded q p")
    case True
    from name_now(1) [OF inv assms(3) True] show ?thesis unfolding if_P [OF True] .
  next
    case False
    from name_now(2) [OF inv assms(3) False] show ?thesis unfolding if_not_P [OF False] by blast
  qed
qed

theorem concurrent_decrypts_atomic_witness:
  "\<exists>p w. (clean_step ref_aead ref_rng calm)\<^sup>*\<^sup>* ([sample_call, sample_call], one_file sample_blob) ([p, sample_call], w) \<and>
     succeeded out_path p \<and> on_stable_storage (disk w) out_path \<and> read_path (disk w) out_path = Some [1, 2, 3]"
proof (rule sample_run [OF _ sample_initial(1)])
  fix p w
  assume run: "(clean_step ref_aead ref_rng calm)\<^sup>*\<^sup>* ([sample_call, sample_call], one_file sample_blob) ([p, sample_call], w)"
    and p: "succeeded out_path p" and arg: "p_input p = in_path" "p_key p = sample_key" "p_id p = ''ab''"
  have "\<not> succeeded out_path sample_call" by (simp add: succeeded_def sample_call_def)
  with concurrent_decrypts_atomic [OF sample_initial(1) run ref_stream_laws(5), of out_path] p
  obtain pt where "delivers ref_aead (disk (one_file sample_blob)) p pt" "on_stable_storage (disk w) out_path"
    "read_path (disk w) out_path = Some pt" by auto
  with run p arg show ?thesis using sample_decrypted one_file_facts(2) [of sample_blob] by (auto simp: delivers_def)
qed simp

text \<open>
  C15: concurrent decryptions leave nothing behind. If no call of the operating system fails, then once
  all calls have ended the only files that differ from the beginning are the destinations of the calls
  that succeeded: no temporary file is left, whichever calls failed.
\<close>

theorem concurrent_decrypts_leave_nothing:
  assumes "initial (ps0, w0)" "(clean_step A R os)\<^sup>*\<^sup>* (ps0, w0) (ps, w)" "stream_min16 A"
    and "os_ok os" "\<forall>p \<in> set ps. finished p" "\<forall>p \<in> set ps. \<not> succeeded q p"
  shows "read_path (disk w) q = read_path (disk w0) q"
proof -
  have inv: "sys_inv A os (disk w0) (ps, w)" using reached [OF assms(1,2)] by simp
  have "\<not> holds_temp p" if "p \<in> set ps" for p
    using assms(5) that by (auto simp: finished_def holds_temp_def split: phase.splits)
  then show ?thesis using name_now(2) [OF inv assms(3), of q] assms(4,6) by blast
qed

theorem concurrent_decrypts_leave_nothing_witness:
  "\<exists>p w. (clean_step ref_aead ref_rng calm)\<^sup>*\<^sup>* ([sample_call], one_file sample_blob) ([p], w) \<and>
     read_path (disk w) in_path = Some sample_blob"
proof (rule sample_run [OF _ sample_initial(2)])
  fix p w
  assume run: "(clean_step ref_aead ref_rng calm)\<^sup>*\<^sup>* ([sample_call], one_file sample_blob) ([p], w)"
    and p: "succeeded out_path p"
  from p have "\<forall>p \<in> set [p]. finished p" "\<forall>p \<in> set [p]. \<not> succeeded in_path p"
    using one_file_facts(8) by (auto simp: succeeded_def finished_def)
  with concurrent_decrypts_leave_nothing [OF sample_initial(2) run ref_stream_laws(5) calm_ok] run one_file_facts(2)
  show ?thesis by auto
qed simp

text \<open>
  C16: concurrent decryptions end. Whatever the operating system does and however the calls are
  interleaved, a run has at most five steps per input byte and fifteen per call, no run is infinite,
  and a call that has not ended can always go on.
\<close>

theorem concurrent_decrypts_terminate:
  assumes "initial (ps0, w0)"
  shows "(\<forall>n t. ((clean_step A R os) ^^ n) (ps0, w0) t \<longrightarrow>
        n \<le> (\<Sum>p \<leftarrow> ps0. 5 * length (source_bytes (disk w0) p) + 15)) \<and>
      (\<nexists>run. run 0 = (ps0, w0) \<and> (\<forall>i. clean_step A R os (run i) (run (Suc i)))) \<and>
      (\<forall>ps w i. (clean_step A R os)\<^sup>*\<^sup>* (ps0, w0) (ps, w) \<longrightarrow> i < length ps \<longrightarrow> \<not> finished (ps ! i) \<longrightarrow>
        (\<exists>p' w'. sys_step A R os (ps, w) (ps[i := p'], w')))"
proof (intro conjI allI impI notI)
  fix n t
  assume "((clean_step A R os) ^^ n) (ps0, w0) t"
  from calls_at_once.run_bounded [OF _ this] assms have "n \<le> sys_work (disk w0) (ps0, w0)" by fastforce
  also have "\<dots> = (\<Sum>p \<leftarrow> ps0. 5 * length (source_bytes (disk w0) p) + 15)"
    unfolding sys_work_def fst_conv
    by (rule arg_cong [where f = sum_list], rule map_cong) (use assms in \<open>simp_all add: initial_def proc_work_def\<close>)
  finally show "n \<le> (\<Sum>p \<leftarrow> ps0. 5 * length (source_bytes (disk w0) p) + 15)" .
next
  assume "\<exists>run. run 0 = (ps0, w0) \<and> (\<forall>i. clean_step A R os (run i) (run (Suc i)))"
  then obtain run where run: "run 0 = (ps0, w0)" "\<And>i. clean_step A R os (run i) (run (Suc i))" by blast
  with calls_at_once.no_infinite_run [of run "disk w0" A R os] assms show False by simp
next
  fix ps w i
  assume "(clean_step A R os)\<^sup>*\<^sup>* (ps0, w0) (ps, w)" "i < length ps" "\<not> finished (ps ! i)"
  then show "\<exists>p' w'. sys_step A R os (ps, w) (ps[i := p'], w')"
    using sys_step.move [of i ps A R os w] pstep.move [of "(ps ! i, w)" A R os] by (metis fst_conv surj_pair)
qed

theorem concurrent_decrypts_terminate_witness:
  "initial ([sample_call], one_file sample_blob) \<and>
   (\<nexists>n t. 5 * length sample_blob + 15 < n \<and> ((clean_step ref_aead ref_rng calm) ^^ n) ([sample_call], one_file sample_blob) t)"
proof -
  let ?s = "([sample_call], one_file sample_blob)"
  have "(\<Sum>p \<leftarrow> [sample_call]. 5 * length (source_bytes (disk (one_file sample_blob)) p) + 15) = 5 * length sample_blob + 15"
    by (simp add: source_bytes_def sample_call_def one_file_def)
  then have "\<forall>n t. ((clean_step ref_aead ref_rng calm) ^^ n) ?s t \<longrightarrow> n \<le> 5 * length sample_blob + 15"
    using conjunct1 [OF concurrent_decrypts_terminate [OF sample_initial(2), of ref_aead ref_rng calm sample_blob]] by simp
  then show ?thesis using sample_initial(2) by (meson linorder_not_less)
qed

end
