(* ===== verification/Filum_Memory.thy ===== *)
theory Filum_Memory
  imports Filum_Process Filum_File_Guarantees
begin

text \<open>
  The memory of a call of \<open>decrypt_file_chunked\<close>: the buffers it holds are bounded independently of the
  size of the blob and of what the header says (the reason for the check on \<open>chunk_size\<close>), and the bound
  is reached: two ciphertext chunks at a time.
\<close>

subsection \<open>The invariant\<close>

text \<open>A call that has not started: nothing is allocated.\<close>

definition fresh :: "'d process \<Rightarrow> bool" where
  "fresh p \<longleftrightarrow>
     p_phase p = Start \<and> p_buf p = [] \<and> p_pending p = None \<and> p_chunk p = 0 \<and> r_buf (p_fin p) = [] \<and> w_buf (p_fout p) = []"

text \<open>The bytes a call holds: the chunk buffer, the held chunk, and the buffers of reader and writer.\<close>

definition buffers_bounded :: "'d process \<Rightarrow> bool" where
  "buffers_bounded p \<longleftrightarrow>
     length (p_buf p) \<le> CHUNK_SIZE + 16 \<and> length (concat (held (p_pending p))) \<le> CHUNK_SIZE + 16 \<and>
     length (r_buf (p_fin p)) \<le> DEFAULT_BUF_SIZE \<and> length (w_buf (p_fout p)) \<le> DEFAULT_BUF_SIZE"

definition memory_inv :: "'d process \<Rightarrow> bool" where
  "memory_inv p \<longleftrightarrow>
     buffers_bounded p \<and> p_chunk p \<le> CHUNK_SIZE + 16 \<and>
     (case p_phase p of Head n \<Rightarrow> n \<le> length (p_buf p) | Fill n \<Rightarrow> n \<le> length (p_buf p) | _ \<Rightarrow> True)"

lemma open_header_chunk: "open_header A h wk i = Ok (np, dk, cs) \<Longrightarrow> cs = CHUNK_SIZE"
  by (auto simp: open_header_def Let_def res_bind_eq_Ok split: if_splits)

lemma write_pending_buffer:
  assumes "write_pending next os a pending key s = (r, s')" "length (w_buf (fst s)) \<le> DEFAULT_BUF_SIZE"
  shows "length (w_buf (fst s')) \<le> DEFAULT_BUF_SIZE"
proof (cases pending)
  case (Some prev)
  show ?thesis
  proof (cases "next key prev a")
    case (Some x)
    obtain out key1 where x: "x = (out, key1)" by (cases x)
    obtain r1 s1 where wa: "write_all os out s = (r1, s1)" by (metis surj_pair)
    have "s' = s1" using assms(1) \<open>pending = _\<close> Some x wa
      by (cases r1) (auto simp: write_pending_def st_bind_def st_map_err_apply)
    then show ?thesis using write_all_cases(5) [OF wa assms(2)] by simp
  qed (use assms \<open>pending = _\<close> in \<open>auto simp: write_pending_def st_bind_def\<close>)
qed (use assms in \<open>auto simp: write_pending_def\<close>)

lemma write_last_buffer:
  assumes "write_last final os a msg key s = (r, s')" "length (w_buf (fst s)) \<le> DEFAULT_BUF_SIZE"
  shows "length (w_buf (fst s')) \<le> DEFAULT_BUF_SIZE"
proof (cases "final key msg a")
  case (Some out)
  obtain r1 s1 where wa: "write_all os out s = (r1, s1)" by (metis surj_pair)
  have "s' = s1" using assms(1) Some wa by (cases r1) (auto simp: write_last_def st_bind_def st_map_err_apply)
  then show ?thesis using write_all_cases(5) [OF wa assms(2)] by simp
qed (use assms in \<open>auto simp: write_last_def st_bind_def\<close>)

lemma fill_memory:
  assumes ps: "proc_step A R os (p, w) = (p', w')" and inv: "memory_inv p"
    and ph: "p_phase p = Head n \<or> p_phase p = Fill n"
  shows "memory_inv p'"
proof -
  obtain r w1 where ft: "fill_turn os (p_fin p) (p_buf p) n w = (r, w1)" by (metis surj_pair)
  show ?thesis
  proof (cases r)
    case (Ok x)
    obtain go rd buf n' where x: "x = (go, rd, buf, n')" by (cases x) auto
    note ft = ft [unfolded Ok x]
    have p': "p' = p\<lparr> p_fin := rd, p_buf := buf, p_phase :=
        (if p_phase p = Head n then (if go then Head n' else Parse n') else (if go then Fill n' else Next n')) \<rparr>"
      using ps ph ft by (auto simp: proc_step_def)
    have "n \<le> length (p_buf p)" using inv ph by (auto simp: memory_inv_def)
    with fill_turn_Ok(2,3) [OF ft] inv show ?thesis
      by (auto simp: p' memory_inv_def buffers_bounded_def)
  qed (use ps ph ft inv in \<open>auto simp: proc_step_def memory_inv_def buffers_bounded_def\<close>)
qed

lemma memory_setup_step:
  assumes ps: "proc_step A R os (p, w) = (p', w')" and inv: "memory_inv p"
  shows "p_phase p = Start \<Longrightarrow> memory_inv p'" "p_phase p = Parse n \<Longrightarrow> memory_inv p'" "p_phase p = Create \<Longrightarrow> memory_inv p'"
proof -
  obtain r w1 where op: "file_open os (p_input p) w = (r, w1)" by (metis surj_pair)
  show "p_phase p = Start \<Longrightarrow> memory_inv p'"
    using ps inv op file_open_cases(4) [OF op]
    by (cases r)
      (auto simp: proc_step_def st_map_err_apply memory_inv_def buffers_bounded_def CHUNK_SIZE_def split: outcome.splits)
  show "p_phase p = Parse n \<Longrightarrow> memory_inv p'"
    using ps inv
    by (auto simp: proc_step_def branch_def memory_inv_def buffers_bounded_def res_bind_eq_Ok dest!: open_header_chunk
        split: outcome.splits prod.splits if_splits)
  obtain r w1 where cr: "file_create os (p_tmp p) w = (r, w1)" by (metis surj_pair)
  have "r = Ok wr \<Longrightarrow> w_buf wr = []" for wr
    using file_create_cases(5,6) [OF cr, where wr = wr] by (cases "entries (disk w) (p_tmp p)") auto
  then show "p_phase p = Create \<Longrightarrow> memory_inv p'"
    using ps inv cr
    by (cases r) (auto simp: proc_step_def st_map_err_apply memory_inv_def buffers_bounded_def held_def)
qed

lemma memory_writer_step:
  assumes ps: "proc_step A R os (p, w) = (p', w')" and inv: "memory_inv p"
  shows "p_phase p = Next n \<Longrightarrow> memory_inv p'" "p_phase p = Last n \<Longrightarrow> memory_inv p'"
    "p_phase p = Flush \<Longrightarrow> memory_inv p'" "p_phase p = Sync \<Longrightarrow> memory_inv p'"
proof -
  obtain r wr w1 where wp: "write_pending (dec_next A) os (p_aad p) (p_pending p) (p_dec p) (p_fout p, w) = (r, wr, w1)"
    by (metis surj_pair)
  show "p_phase p = Next n \<Longrightarrow> memory_inv p'"
    using ps inv wp write_pending_buffer [OF wp]
    by (cases r) (auto simp: proc_step_def memory_inv_def buffers_bounded_def held_def)
  obtain r wr w1 where wl: "write_last (dec_last A) os (p_aad p) (take n (p_buf p)) (p_dec p) (p_fout p, w) = (r, wr, w1)"
    by (metis surj_pair)
  show "p_phase p = Last n \<Longrightarrow> memory_inv p'"
    using ps inv wl write_last_buffer [OF wl]
    by (cases r) (auto simp: proc_step_def memory_inv_def buffers_bounded_def held_def split: if_splits)
  obtain r wr w1 where f: "flush os (p_fout p, w) = (r, wr, w1)" by (metis surj_pair)
  show "p_phase p = Flush \<Longrightarrow> memory_inv p'"
    using ps inv f flush_cases(5) [OF f]
    by (cases r) (auto simp: proc_step_def st_map_err_apply memory_inv_def buffers_bounded_def)
  obtain r wr w1 where s: "sync_all os (p_fout p, w) = (r, wr, w1)" by (metis surj_pair)
  show "p_phase p = Sync \<Longrightarrow> memory_inv p'"
    using ps inv s sync_all_cases(5) [OF s]
    by (cases r) (auto simp: proc_step_def st_map_err_apply memory_inv_def buffers_bounded_def)
qed

lemma memory_step:
  assumes ps: "proc_step A R os (p, w) = (p', w')" and inv: "memory_inv p"
  shows "memory_inv p'"
proof (cases "p_phase p")
  case (Head n)
  then show ?thesis using fill_memory [OF ps inv, of n] by simp
next
  case (Fill n)
  then show ?thesis using fill_memory [OF ps inv, of n] by simp
qed (use memory_setup_step [OF ps inv] memory_writer_step [OF ps inv] ps inv in
    \<open>auto simp: proc_step_def branch_def memory_inv_def buffers_bounded_def split: prod.splits outcome.splits\<close>)

lemma memory_fresh: "fresh p \<Longrightarrow> memory_inv p"
  by (simp add: fresh_def memory_inv_def buffers_bounded_def held_def)

lemma memory_pstep: "memory_inv (fst s) \<Longrightarrow> pstep A R os s t \<Longrightarrow> memory_inv (fst t)"
  using memory_step [of A R os "fst s" "snd s" "fst t" "snd t"] by (auto elim!: pstepE)

interpretation memory: inductive_invariant "\<lambda>s. fresh (fst s)" "pstep A R os" "\<lambda>s. memory_inv (fst s)"
  by unfold_locales (auto intro: memory_fresh memory_pstep)

text \<open>
  C17: decryption to a file runs in constant memory. Whatever the blob, its size and the operating system,
  at every moment of a call the chunk buffer and the held chunk have at most \<open>CHUNK_SIZE + 16\<close> bytes each and
  the buffers of reader and writer at most \<open>8192\<close>: a hostile \<open>chunk_size\<close> in the header allocates nothing.
\<close>

theorem decrypt_memory_bounded:
  assumes "fresh locals" "psteps A R os (start_call input output wk i locals, w) (q, w')"
  shows "length (p_buf q) \<le> CHUNK_SIZE + 16 \<and> (\<forall>c. p_pending q = Some c \<longrightarrow> length c \<le> CHUNK_SIZE + 16) \<and>
    length (r_buf (p_fin q)) \<le> DEFAULT_BUF_SIZE \<and> length (w_buf (p_fout q)) \<le> DEFAULT_BUF_SIZE"
  using memory.always [OF _ assms(2)] assms(1)
  by (auto simp: fresh_def start_call_def memory_inv_def buffers_bounded_def held_def)

definition blank_call :: "ref_stream process" where
  "blank_call = \<lparr> p_input = [], p_output = [], p_key = [], p_id = [], p_aad = [],
     p_fin = \<lparr> r_ino = 0, r_pos = 0, r_buf = [] \<rparr>, p_buf = [], p_dec = ([], [], 0), p_chunk = 0, p_tmp = [],
     p_fout = \<lparr> w_ino = 0, w_buf = [] \<rparr>, p_pending = None, p_phase = Start \<rparr>"

theorem decrypt_memory_bounded_witness:
  "\<exists>q w'. psteps ref_aead ref_rng calm (start_call in_path out_path sample_key ''ab'' blank_call, one_file sample_blob) (q, w') \<and>
     p_phase q = Done (Ok ()) \<and> length (p_buf q) \<le> CHUNK_SIZE + 16"
proof (rule sample_file_decrypted)
  fix w'
  assume "decrypt_file_chunked ref_aead ref_rng calm in_path out_path sample_key ''ab'' (one_file sample_blob) = Some (Ok (), w')"
  from call_runs [OF this, of "start_call in_path out_path sample_key ''ab'' blank_call"] obtain q where
    q: "psteps ref_aead ref_rng calm (start_call in_path out_path sample_key ''ab'' blank_call, one_file sample_blob) (q, w')"
      "p_phase q = Done (Ok ())" by (auto simp: calls_def start_call_def)
  have "fresh blank_call" by (simp add: fresh_def blank_call_def)
  from decrypt_memory_bounded [OF this q(1)] q show ?thesis by blast
qed

subsection \<open>Two chunks are held\<close>

lemma opened_reaches_draw:
  assumes "os_ok os" "read_path (disk w) input = Some data" "decrypt_chunked A data wk i = Ok pt" "calls input output wk i p"
  shows "\<exists>q w1. psteps A R os (p, w) (q, w1) \<and> p_phase q = Draw \<and> p_output q = output \<and> disk w1 = disk w \<and>
    rng_state w1 = rng_state w \<and> entries (disk w) input = Some (r_ino (p_fin q)) \<and>
    p_chunk q = CHUNK_SIZE + 16 \<and> remaining (p_fin q) w1 = drop 72 data"
proof -
  obtain r w1 where op: "decrypt_open A os input wk i w = (r, w1)" by (metis surj_pair)
  note oc = decrypt_open_cases [OF op]
  have "valid_context i" "72 \<le> length data" by (rule decrypt_chunked_Ok [OF assms(3)], assumption)+
  then have "r \<noteq> Err e" for e using oc(5) [of e data] assms(1-3) by auto
  then obtain a rd dec n where r: "r = Ok (a, rd, dec, n)" using oc(3) by (cases r) auto
  have d: "disk w1 = disk w" using oc(1) by (simp add: quiet_def)
  from opening_runs [of A os p w r w1 R] op assms(4) obtain q where "psteps A R os (p, w) (q, w1)" "after_open output r q"
    by (auto simp: calls_def)
  moreover have "n = CHUNK_SIZE + 16" "remaining rd w1 = drop 72 data" "entries (disk w) input = Some (r_ino rd)"
    using oc(4) [OF r] assms(2) d
    by (auto simp: opened_def stands_behind_def remaining_def node_bytes_def read_path_def)
  ultimately show ?thesis using d oc(2) by (auto simp: after_open_def r)
qed

text \<open>From the accepted header to the first chunk.\<close>

lemma draw_reaches_loop:
  assumes "os_ok os" "rng_available R" "file_name (p_output q) \<noteq> None" "p_phase q = Draw" "wf_disk (disk w)"
    and free: "\<And>t. fst (sibling_temp_path R (p_output q) (rng_state w)) = Ok t \<Longrightarrow> entries (disk w) t = None"
    and ino: "r_ino (p_fin q) < next_ino (disk w)"
  shows "\<exists>t w1. psteps A R os (q, w) (t, w1) \<and> p_phase t = Fill 0 \<and> p_chunk t = p_chunk q \<and> p_fin t = p_fin q \<and>
    length (p_buf t) = p_chunk q \<and> p_pending t = None \<and> remaining (p_fin q) w1 = remaining (p_fin q) w"
proof -
  obtain r g where st: "sibling_temp_path R (p_output q) (rng_state w) = (r, g)" by (metis surj_pair)
  then obtain tmp where r: "r = Ok tmp"
    using sibling_temp_path_cases(1,3) [OF st] assms(2,3) by (cases r) auto
  let ?w = "w\<lparr> rng_state := g \<rparr>" and ?q = "q\<lparr> p_tmp := tmp, p_phase := Create \<rparr>"
  have 1: "pstep A R os (q, w) (?q, ?w)"
    using assms(4) st r by (intro pstep_eq) (simp_all add: finished_def proc_step_def with_rng_def)
  obtain r1 w1 where cr: "file_create os tmp ?w = (r1, w1)" by (metis surj_pair)
  then obtain wr where wr: "r1 = Ok wr" using file_create_cases(3) [OF cr assms(1)] by blast
  let ?t = "?q\<lparr> p_fout := wr, p_buf := replicate (p_chunk q) 0, p_pending := None, p_phase := Fill 0 \<rparr>"
  have 2: "pstep A R os (?q, ?w) (?t, w1)"
    using cr wr by (intro pstep_eq) (simp_all add: finished_def proc_step_def st_map_err_apply)
  have "disk w1 = disk_with_new tmp (disk w)"
    using file_create_cases(5) [OF cr, of wr] wr free [of tmp] st r by simp
  then have "remaining (p_fin q) w1 = remaining (p_fin q) w"
    using ino by (simp add: remaining_def node_bytes_def disk_with_new_def)
  moreover have "psteps A R os (q, w) (?t, w1)"
    using 1 2 by (meson converse_rtranclp_into_rtranclp rtranclp.rtrancl_refl)
  ultimately show ?thesis by (intro exI [of _ ?t] exI [of _ w1]) simp
qed

text \<open>A read of a full chunk.\<close>

lemma chunk_reaches_next:
  assumes "os_ok os" "p_phase p = Fill 0" "length (p_buf p) \<le> length (remaining (p_fin p) w)"
  shows "\<exists>rd w1. psteps A R os (p, w) (p\<lparr> p_fin := rd, p_buf := take (length (p_buf p)) (remaining (p_fin p) w),
      p_phase := Next (length (p_buf p)) \<rparr>, w1) \<and>
    remaining rd w1 = drop (length (p_buf p)) (remaining (p_fin p) w)"
proof -
  obtain r w1 where rf: "read_full os (p_fin p) (p_buf p) 0 w = (r, w1)" by (metis surj_pair)
  note rc = read_full_cases [OF rf]
  obtain n rd buf where r: "r = Ok (n, rd, buf)" using rc(3,4) assms(1) by (cases r) auto
  note ok = rc(5) [OF r]
  have n: "n = length (p_buf p)" using ok assms(3) by simp
  then have buf: "buf = take (length (p_buf p)) (remaining (p_fin p) w)" using ok by (metis order_refl take_all)
  have "p\<lparr> p_fin := p_fin p, p_buf := p_buf p, p_phase := Fill 0 \<rparr> = p" using assms(2) by (cases p) simp
  with chunk_runs [OF rf, of A R p] have
    "psteps A R os (p, w) (p\<lparr> p_fin := rd, p_buf := buf, p_phase := Next n \<rparr>, w1)" by (simp add: r)
  moreover have "remaining rd w1 = drop n (remaining (p_fin p) w)" using ok remaining_quiet [OF rc(1)] by simp
  ultimately show ?thesis unfolding buf n by blast
qed

lemma first_chunk_held:
  assumes "p_phase p = Next n" "p_pending p = None" "n = p_chunk p" "length (p_buf p) = n"
  shows "psteps A R os (p, w) (p\<lparr> p_pending := Some (p_buf p), p_phase := Fill 0 \<rparr>, w)"
proof -
  have "pstep A R os (p, w) (p\<lparr> p_phase := Last n \<rparr>, w)"
    using assms(1,2) by (cases p; intro pstep_eq) (simp_all add: finished_def proc_step_def write_pending_def)
  moreover have "pstep A R os (p\<lparr> p_phase := Last n \<rparr>, w) (p\<lparr> p_pending := Some (p_buf p), p_phase := Fill 0 \<rparr>, w)"
    using assms(3,4) by (intro pstep_eq) (simp_all add: finished_def proc_step_def)
  ultimately show ?thesis by (meson converse_rtranclp_into_rtranclp rtranclp.rtrancl_refl)
qed

text \<open>
  C32: decryption to a file holds two ciphertext chunks at a time. For every blob with at least two full
  segments, if no call fails, a call reaches a state in which the first segment is still held for
  decryption while the second one fills the buffer; the comment on \<open>CHUNK_SIZE\<close> speaks of one.
\<close>

theorem two_ciphertext_chunks_held:
  assumes "wf_disk (disk w)" "temp_free R output w" "os_ok os" "rng_available R" "file_name output \<noteq> None"
    and "read_path (disk w) input = Some data" "decrypt_chunked A data wk i = Ok pt"
    and "72 + 2 * (CHUNK_SIZE + 16) \<le> length data"
  shows "\<exists>q w'. psteps A R os (start_call input output wk i locals, w) (q, w') \<and>
    p_pending q = Some (take (CHUNK_SIZE + 16) (drop 72 data)) \<and>
    p_buf q = take (CHUNK_SIZE + 16) (drop (72 + (CHUNK_SIZE + 16)) data)"
proof -
  let ?c = "CHUNK_SIZE + 16" and ?p = "start_call input output wk i locals"
  have "calls input output wk i ?p" by (simp add: calls_def start_call_def)
  from opened_reaches_draw [OF assms(3,6,7) this, of R] obtain q w1 where
    q: "psteps A R os (?p, w) (q, w1)" "p_phase q = Draw" "p_output q = output" "disk w1 = disk w"
      "rng_state w1 = rng_state w" "entries (disk w) input = Some (r_ino (p_fin q))"
      "p_chunk q = ?c" "remaining (p_fin q) w1 = drop 72 data" by blast
  have "\<exists>t w2. psteps A R os (q, w1) (t, w2) \<and> p_phase t = Fill 0 \<and> p_chunk t = p_chunk q \<and> p_fin t = p_fin q \<and>
      length (p_buf t) = p_chunk q \<and> p_pending t = None \<and> remaining (p_fin q) w2 = remaining (p_fin q) w1"
    by (rule draw_reaches_loop [OF assms(3,4)]) (use assms(1,2,5) q in \<open>auto simp: temp_free_def wf_disk_def\<close>)
  then obtain t w2 where t: "psteps A R os (q, w1) (t, w2)" "p_phase t = Fill 0" "p_chunk t = ?c"
    "length (p_buf t) = ?c" "p_pending t = None" "remaining (p_fin t) w2 = drop 72 data" using q(7,8) by auto
  have le: "?c \<le> length (drop 72 data)" "?c \<le> length (drop ?c (drop 72 data))" using assms(8) by simp_all
  from chunk_reaches_next [OF assms(3) t(2), of w2 A R, unfolded t(4,6), OF le(1)] obtain rd w3 where
    n1: "psteps A R os (t, w2) (t\<lparr> p_fin := rd, p_buf := take ?c (drop 72 data), p_phase := Next ?c \<rparr>, w3)"
      "remaining rd w3 = drop ?c (drop 72 data)" by blast
  let ?t = "t\<lparr> p_fin := rd, p_buf := take ?c (drop 72 data), p_phase := Next ?c \<rparr>"
  let ?u = "?t\<lparr> p_pending := Some (p_buf ?t), p_phase := Fill 0 \<rparr>"
  have h: "psteps A R os (?t, w3) (?u, w3)" by (rule first_chunk_held [of _ ?c]) (use t(3,5) assms(8) in simp_all)
  have len: "length (p_buf ?u) = ?c" using assms(8) by simp
  have u: "p_fin ?u = rd" "p_phase ?u = Fill 0" by simp_all
  from chunk_reaches_next [OF assms(3) u(2), of w3 A R, unfolded len u(1) n1(2), OF le(2)] obtain rd' w4 where
    n2: "psteps A R os (?u, w3) (?u\<lparr> p_fin := rd', p_buf := take ?c (drop ?c (drop 72 data)), p_phase := Next ?c \<rparr>, w4)"
    by blast
  from q(1) t(1) n1(1) h n2 have
    "psteps A R os (?p, w) (?u\<lparr> p_fin := rd', p_buf := take ?c (drop ?c (drop 72 data)), p_phase := Next ?c \<rparr>, w4)"
    by (meson rtranclp_trans)
  then show ?thesis by (intro exI conjI) (assumption, simp_all add: add.commute add.left_commute)
qed

theorem two_ciphertext_chunks_held_witness:
  "\<exists>data q w'. psteps ref_aead ref_rng calm (start_call in_path out_path sample_key ''ab'' blank_call, one_file data) (q, w') \<and>
     length (p_buf q) = CHUNK_SIZE + 16 \<and> (\<exists>c. p_pending q = Some c \<and> length c = CHUNK_SIZE + 16)"
proof -
  let ?pt = "replicate (2 * CHUNK_SIZE) (0 :: u8)"
  have "length ?pt < 2 ^ 32 * CHUNK_SIZE" by (simp add: CHUNK_SIZE_def)
  then obtain data s' where enc: "encrypt_chunked ref_aead ref_rng ?pt sample_key ''ab'' 0 = (Ok data, s')"
    by (rule encrypt_chunked_succeeds [OF ref_rng_available ref_gcm_laws(4,3) ref_stream_laws(4) sample_facts(1,2)])
  have dec: "decrypt_chunked ref_aead data sample_key ''ab'' = Ok ?pt"
    by (rule blob_box.roundtrip [OF ref_lawful sample_facts(1) enc])
  have big: "72 + 2 * (CHUNK_SIZE + 16) \<le> length data"
    using encrypt_chunked_size [OF ref_stream_laws(3) enc] by (simp add: CHUNK_SIZE_def)
  have "file_name out_path \<noteq> None" by (simp add: one_file_facts(6))
  from two_ciphertext_chunks_held [OF one_file_facts(1) one_file_temp_free calm_ok ref_rng_available this
      one_file_facts(2) dec big, of blank_call]
  obtain q w' where
    "psteps ref_aead ref_rng calm (start_call in_path out_path sample_key ''ab'' blank_call, one_file data) (q, w')"
    "p_pending q = Some (take (CHUNK_SIZE + 16) (drop 72 data))"
    "p_buf q = take (CHUNK_SIZE + 16) (drop (72 + (CHUNK_SIZE + 16)) data)" by blast
  with big show ?thesis by (intro exI [of _ data] exI [of _ q] exI [of _ w']) auto
qed

end
