(* ===== verification/Filum_Session.thy ===== *)
theory Filum_Session
  imports Filum_Vault Filum_File_Guarantees
begin

text \<open>
  Vaults against untrusted storage. Devices seal blobs and fields, in memory or from files, and sign;
  everything they open, restore or verify later comes from a storage and a backend that may present
  anything. A session is a history of such operations, newest first, together with the world it leads
  to; between two operations the disk may change in any way. The specification is an ideal box that
  remembers what was sealed and signed. A session in which AES-GCM, STREAM and Ed25519 are not forged,
  and no data key is drawn twice, is a history of the ideal box.
\<close>

subsection \<open>Sessions\<close>

text \<open>
  The events, with the key in use: the wrapping key for blobs, the metadata key for fields, the public
  key for signatures. \<open>Restored\<close> has the bytes of the input file and of the output file.
\<close>

datatype event =
    Sealed_Blob bytes string bytes bytes
  | Sealed_Field bytes "string \<times> string" bytes EncryptedField
  | Opened_Blob bytes string bytes "bytes Result"
  | Opened_Field bytes "string \<times> string" EncryptedField "bytes Result"
  | Restored bytes string bytes bytes
  | Signed bytes bytes bytes bytes
  | Verified bytes bytes bytes "unit Result"
  | Failed FilumCryptoError
  | Tampered

text \<open>
  The histories. Each rule but \<open>tamper\<close> and \<open>sign_other\<close> is one call of an operation of \<open>vault.rs\<close> or of
  \<open>verify_signature\<close>, with any arguments; the operating system may behave differently in every call.
  \<open>sign_other\<close> is the signing key in the hands of another flow, which frames its messages under a domain
  tag of its own, as the comment on \<open>ATTEST_DOMAIN\<close> asks.
\<close>

inductive session ::
  "('e, 'd) aead_lib \<Rightarrow> 'r rng \<Rightarrow> ('sk, 'vk) ed_lib \<Rightarrow> event list \<Rightarrow> 'r world \<Rightarrow> bool"
  for A R E where
  start: "wf_disk (disk w) \<Longrightarrow> session A R E [] w"
| tamper: "session A R E s w \<Longrightarrow> wf_disk d \<Longrightarrow> session A R E (Tampered # s) (w\<lparr> disk := d \<rparr>)"
| seal_blob: "session A R E s w \<Longrightarrow> wf_vault E v \<Longrightarrow>
    Vault_encrypt_blob A R v pt i (rng_state w) = (Ok framed, g) \<Longrightarrow>
    session A R E (Sealed_Blob (wrap_key v) i pt framed # s) (w\<lparr> rng_state := g \<rparr>)"
| seal_blob_failed: "session A R E s w \<Longrightarrow> wf_vault E v \<Longrightarrow>
    Vault_encrypt_blob A R v pt i (rng_state w) = (Err e, g) \<Longrightarrow>
    session A R E (Failed e # s) (w\<lparr> rng_state := g \<rparr>)"
| open_blob: "session A R E s w \<Longrightarrow> wf_vault E v \<Longrightarrow>
    session A R E (Opened_Blob (wrap_key v) i framed (Vault_decrypt_blob A v framed i) # s) w"
| seal_field: "session A R E s w \<Longrightarrow> wf_vault E v \<Longrightarrow>
    Vault_encrypt_metadata_field A R v pt (fst c) (snd c) (rng_state w) = (Ok field, g) \<Longrightarrow>
    session A R E (Sealed_Field (metadata_key v) c pt field # s) (w\<lparr> rng_state := g \<rparr>)"
| seal_field_failed: "session A R E s w \<Longrightarrow> wf_vault E v \<Longrightarrow>
    Vault_encrypt_metadata_field A R v pt (fst c) (snd c) (rng_state w) = (Err e, g) \<Longrightarrow>
    session A R E (Failed e # s) (w\<lparr> rng_state := g \<rparr>)"
| open_field: "session A R E s w \<Longrightarrow> wf_vault E v \<Longrightarrow>
    session A R E (Opened_Field (metadata_key v) c field (Vault_decrypt_metadata_field A v field (fst c) (snd c)) # s) w"
| store_file: "session A R E s w \<Longrightarrow> wf_vault E v \<Longrightarrow> read_path (disk w) (components src) = Some pt \<Longrightarrow>
    \<not> same_file (disk w) (components src) (components blob) \<Longrightarrow>
    Vault_encrypt_file_to_blob A R os v src blob i w = Some (Ok (), w') \<Longrightarrow>
    read_path (disk w') (components blob) = Some framed \<Longrightarrow>
    session A R E (Sealed_Blob (wrap_key v) i pt framed # s) w'"
| store_file_failed: "session A R E s w \<Longrightarrow> wf_vault E v \<Longrightarrow> read_path (disk w) (components src) = Some pt \<Longrightarrow>
    \<not> same_file (disk w) (components src) (components blob) \<Longrightarrow>
    Vault_encrypt_file_to_blob A R os v src blob i w = Some (Err e, w') \<Longrightarrow>
    session A R E (Failed e # s) w'"
| restore_file: "session A R E s w \<Longrightarrow> wf_vault E v \<Longrightarrow> temp_free R (components dst) w \<Longrightarrow>
    read_path (disk w) (components blob) = Some framed \<Longrightarrow>
    Vault_decrypt_blob_to_file A R os v blob dst i w = Some (Ok (), w') \<Longrightarrow>
    read_path (disk w') (components dst) = Some pt \<Longrightarrow>
    session A R E (Restored (wrap_key v) i framed pt # s) w'"
| restore_file_failed: "session A R E s w \<Longrightarrow> wf_vault E v \<Longrightarrow> temp_free R (components dst) w \<Longrightarrow>
    Vault_decrypt_blob_to_file A R os v blob dst i w = Some (Err e, w') \<Longrightarrow>
    session A R E (Failed e # s) w'"
| sign: "session A R E s w \<Longrightarrow> wf_vault E v \<Longrightarrow>
    session A R E (Signed (Vault_device_public_key E v) ATTEST_DOMAIN msg (sig_bytes (Vault_sign_challenge E v msg)) # s) w"
| sign_other: "session A R E s w \<Longrightarrow> wf_vault E v \<Longrightarrow> tag \<noteq> ATTEST_DOMAIN \<Longrightarrow> length tag \<le> 255 \<Longrightarrow>
    session A R E (Signed (Vault_device_public_key E v) tag msg (sk_sign E (signing_key v) (domain_frame tag @ msg)) # s) w"
| verify: "session A R E s w \<Longrightarrow> session A R E (Verified pk msg sig (verify_signature E pk msg sig) # s) w"

subsection \<open>The ideal box\<close>

text \<open>
  The box knows no keys and no ciphertexts but those it handed out: a blob opens, under a key and for
  an identifier, exactly to what was sealed as this very blob under that key for that identifier, and
  to nothing if nothing was. A signature is accepted only for a message that was signed as an
  attestation, and always if it is the signature made for it.
\<close>

definition ideal_opening :: "bool \<Rightarrow> bytes set \<Rightarrow> bytes Result \<Rightarrow> bool" where
  "ideal_opening valid pts r \<longleftrightarrow>
     (\<exists>pt. pts = {pt} \<and> r = Ok pt) \<or> pts = {} \<and> r = Err (if valid then Aead else InvalidContext)"

fun ideal :: "event list \<Rightarrow> bool" where
  "ideal [] \<longleftrightarrow> True"
| "ideal (e # s) \<longleftrightarrow> ideal s \<and>
     (case e of
        Sealed_Blob k i pt framed \<Rightarrow> valid_context i
      | Sealed_Field k c pt field \<Rightarrow> valid_field_context c
      | Opened_Blob k i framed r \<Rightarrow> ideal_opening (valid_context i) {pt. Sealed_Blob k i pt framed \<in> set s} r
      | Opened_Field k c field r \<Rightarrow> ideal_opening (valid_field_context c) {pt. Sealed_Field k c pt field \<in> set s} r
      | Restored k i framed pt \<Rightarrow> Sealed_Blob k i pt framed \<in> set s
      | Verified pk msg sig r \<Rightarrow>
          (r = Ok () \<or> r = Err InvalidSignature) \<and>
          (r = Ok () \<longrightarrow> (\<exists>sig'. Signed pk ATTEST_DOMAIN msg sig' \<in> set s)) \<and>
          (Signed pk ATTEST_DOMAIN msg sig \<in> set s \<longrightarrow> r = Ok ())
      | _ \<Rightarrow> True)"

subsection \<open>No forgery\<close>

text \<open>
  What AES-GCM sealed in a history (key, nonce, ciphertext, associated data), whatever it was used for:
  the wrapped data keys of the blobs and the fields.
\<close>

definition gcm_log :: "event list \<Rightarrow> (bytes \<times> bytes \<times> bytes \<times> bytes) set" where
  "gcm_log s =
     {(k, header_iv f, header_ct f, header_aad i f) | k i pt f. Sealed_Blob k i pt f \<in> set s} \<union>
     {(k, field_iv f, ciphertext f, field_aad_bytes c) | k c pt f. Sealed_Field k c pt f \<in> set s}"

text \<open>The data key a blob's header unwraps to, and what STREAM sealed: data key, nonce prefix, associated data, body.\<close>

definition data_key :: "('e, 'd) aead_lib \<Rightarrow> bytes \<Rightarrow> string \<Rightarrow> bytes \<Rightarrow> bytes option" where
  "data_key A k i f = gcm_decrypt A k (header_iv f) (header_ct f) (header_aad i f)"

definition stream_log :: "('e, 'd) aead_lib \<Rightarrow> event list \<Rightarrow> (bytes \<times> bytes \<times> bytes \<times> bytes) set" where
  "stream_log A s =
     {(dk, take 7 (drop 61 f), seg_aad_bytes i, drop 72 f) | dk k i pt f.
        Sealed_Blob k i pt f \<in> set s \<and> data_key A k i f = Some dk}"

text \<open>The messages the Ed25519 keys signed, as the bytes that went into the signature.\<close>

definition sig_log :: "event list \<Rightarrow> (bytes \<times> bytes) set" where
  "sig_log s = {(pk, domain_frame tag @ msg) | pk tag msg sig. Signed pk tag msg sig \<in> set s}"

text \<open>
  The queries of the history: whenever the code asks a primitive to accept something, the primitive
  accepts only what it made before.
\<close>

definition blob_query :: "('e, 'd) aead_lib \<Rightarrow> event list \<Rightarrow> bytes \<Rightarrow> string \<Rightarrow> bytes \<Rightarrow> bool" where
  "blob_query A s k i f \<longleftrightarrow>
     (\<forall>dk. data_key A k i f = Some dk \<longrightarrow>
        (k, header_iv f, header_ct f, header_aad i f) \<in> gcm_log s \<and>
        (open_segments A (seg_aad_bytes i) (dec_from_aead A dk (take 7 (drop 61 f)))
             (chunks (CHUNK_SIZE + 16) (drop 72 f)) \<noteq> None \<longrightarrow>
           (dk, take 7 (drop 61 f), seg_aad_bytes i, drop 72 f) \<in> stream_log A s))"

definition field_query :: "('e, 'd) aead_lib \<Rightarrow> event list \<Rightarrow> bytes \<Rightarrow> string \<times> string \<Rightarrow> EncryptedField \<Rightarrow> bool" where
  "field_query A s k c f \<longleftrightarrow>
     (gcm_decrypt A k (field_iv f) (ciphertext f) (field_aad_bytes c) \<noteq> None \<longrightarrow>
        (k, field_iv f, ciphertext f, field_aad_bytes c) \<in> gcm_log s)"

definition signature_query :: "('sk, 'vk) ed_lib \<Rightarrow> event list \<Rightarrow> bytes \<Rightarrow> bytes \<Rightarrow> bytes \<Rightarrow> bool" where
  "signature_query E s pk msg sig \<longleftrightarrow>
     (\<forall>vk. vk_from_bytes E pk = Some vk \<longrightarrow> vk_verify_strict E vk (domain_separated msg) sig \<longrightarrow>
        (pk, domain_separated msg) \<in> sig_log s)"

fun unforged :: "('e, 'd) aead_lib \<Rightarrow> ('sk, 'vk) ed_lib \<Rightarrow> event list \<Rightarrow> bool" where
  "unforged A E [] \<longleftrightarrow> True"
| "unforged A E (e # s) \<longleftrightarrow> unforged A E s \<and>
     (case e of
        Opened_Blob k i f r \<Rightarrow> blob_query A s k i f
      | Restored k i f pt \<Rightarrow> blob_query A s k i f
      | Opened_Field k c f r \<Rightarrow> field_query A s k c f
      | Verified pk msg sig r \<Rightarrow> signature_query E s pk msg sig
      | _ \<Rightarrow> True)"

text \<open>No two blobs have the same data key: the 256-bit draws of \<open>new_blob_keys\<close> do not collide.\<close>

fun fresh_keys :: "('e, 'd) aead_lib \<Rightarrow> event list \<Rightarrow> bool" where
  "fresh_keys A [] \<longleftrightarrow> True"
| "fresh_keys A (e # s) \<longleftrightarrow> fresh_keys A s \<and>
     (case e of
        Sealed_Blob k i pt f \<Rightarrow> (\<forall>k' i' pt' f'. Sealed_Blob k' i' pt' f' \<in> set s \<longrightarrow> data_key A k' i' f' \<noteq> data_key A k i f)
      | _ \<Rightarrow> True)"

subsection \<open>What a session has sealed and signed\<close>

text \<open>The sealed events of a session are outputs of the two codecs, under 32-byte keys.\<close>

definition blobs_honest :: "('e, 'd) aead_lib \<Rightarrow> 'r rng \<Rightarrow> event list \<Rightarrow> bool" where
  "blobs_honest A R s \<longleftrightarrow> (\<forall>k i pt f. Sealed_Blob k i pt f \<in> set s \<longrightarrow>
     length k = 32 \<and> (\<exists>g g'. encrypt_chunked A R pt k i g = (Ok f, g')))"

definition fields_honest :: "('e, 'd) aead_lib \<Rightarrow> 'r rng \<Rightarrow> event list \<Rightarrow> bool" where
  "fields_honest A R s \<longleftrightarrow> (\<forall>k c pt f. Sealed_Field k c pt f \<in> set s \<longrightarrow>
     length k = 32 \<and> (\<exists>g g'. seal_field A R pt k c g = (Ok f, g')))"

definition signatures_honest :: "('sk, 'vk) ed_lib \<Rightarrow> event list \<Rightarrow> bool" where
  "signatures_honest E s \<longleftrightarrow> (\<forall>pk tag msg sig. Signed pk tag msg sig \<in> set s \<longrightarrow>
     length tag \<le> 255 \<and> (tag = ATTEST_DOMAIN \<longrightarrow> (\<exists>seed. length seed = 32 \<and>
       pk = public_key_bytes E (signing_key_from_seed E seed) \<and>
       sig = sig_bytes (sign_challenge E (signing_key_from_seed E seed) msg))))"

lemmas honest_defs = blobs_honest_def fields_honest_def signatures_honest_def

lemma stored_file:
  assumes "wf_disk (disk w)" "read_path (disk w) (components src) = Some pt"
    "\<not> same_file (disk w) (components src) (components blob)"
    and run: "Vault_encrypt_file_to_blob A R os v src blob i w = Some (r, w')"
  shows "wf_disk (disk w')"
    "r = Ok () \<Longrightarrow> read_path (disk w') (components blob) = Some framed \<Longrightarrow>
       \<exists>g'. encrypt_chunked A R pt (wrap_key v) i (rng_state w) = (Ok framed, g')"
proof -
  have "wf_disk (disk w') \<and> (r = Ok () \<longrightarrow> read_path (disk w') (components blob) = Some framed \<longrightarrow>
       (\<exists>g'. encrypt_chunked A R pt (wrap_key v) i (rng_state w) = (Ok framed, g')))"
  proof (rule encrypt_file_spec [OF assms(1-3), of A R os "wrap_key v" i], goal_cases)
    case (1 r2 w2)
    then have "r2 = r" "w2 = w'" using run by (simp_all add: Vault_encrypt_file_to_blob_def)
    with 1(4,7) show ?case
      by (cases "encrypt_chunked A R pt (wrap_key v) i (rng_state w)") auto
  qed
  then show "wf_disk (disk w')"
    "r = Ok () \<Longrightarrow> read_path (disk w') (components blob) = Some framed \<Longrightarrow>
       \<exists>g'. encrypt_chunked A R pt (wrap_key v) i (rng_state w) = (Ok framed, g')" by blast+
qed

lemma restored_file:
  assumes "wf_disk (disk w)" "temp_free R (components dst) w" "stream_min16 A"
    and run: "Vault_decrypt_blob_to_file A R os v blob dst i w = Some (r, w')"
  shows "wf_disk (disk w')"
    "r = Ok () \<Longrightarrow> read_path (disk w) (components blob) = Some framed \<Longrightarrow>
       read_path (disk w') (components dst) = Some pt \<Longrightarrow> decrypt_chunked A framed (wrap_key v) i = Ok pt"
proof -
  note d = decrypt_file_run [OF assms(1-3) run [unfolded Vault_decrypt_blob_to_file_def]]
  show "wf_disk (disk w')" by (rule d(2))
  assume "r = Ok ()" and in_out: "read_path (disk w) (components blob) = Some framed"
    "read_path (disk w') (components dst) = Some pt"
  from d(4) [OF this(1)] show "decrypt_chunked A framed (wrap_key v) i = Ok pt"
    using published_effects(1) [OF _ assms(1) wf_path_components] in_out by fastforce
qed

lemma wf_vaultD:
  assumes "wf_vault E v"
  shows "length (wrap_key v) = 32" "length (metadata_key v) = 32"
    "\<exists>seed. length seed = 32 \<and> signing_key v = signing_key_from_seed E seed"
  using assms by (simp_all add: wf_vault_def)

lemma session_honest:
  assumes "session A R E s w" "stream_min16 A"
  shows "wf_disk (disk w) \<and> blobs_honest A R s \<and> fields_honest A R s \<and> signatures_honest E s"
  using assms(1)
proof induction
  case (seal_blob s w v pt i framed g)
  then show ?case
    using wf_vaultD(1) [OF seal_blob(2)] by (auto simp: honest_defs Vault_encrypt_blob_def)
next
  case (seal_field s w v pt c field g)
  then show ?case
    using wf_vaultD(2) [OF seal_field(2)] by (auto simp: honest_defs Vault_encrypt_metadata_field_def)
next
  case (store_file s w v src pt blob os i w' framed)
  note st = stored_file [OF _ store_file(3-5)]
  show ?case
    using store_file.IH st(1) st(2) [OF _ refl store_file(6)] wf_vaultD(1) [OF store_file(2)]
    by (auto simp: honest_defs)
next
  case (store_file_failed s w v src pt blob os i e w')
  then show ?case using stored_file(1) [OF _ store_file_failed(3-5)] by (auto simp: honest_defs)
next
  case (restore_file s w v dst blob framed os i w' pt)
  then show ?case using restored_file(1) [OF _ restore_file(3) assms(2) restore_file(5)] by (auto simp: honest_defs)
next
  case (restore_file_failed s w v dst os blob i e w')
  then show ?case using restored_file(1) [OF _ restore_file_failed(3) assms(2) restore_file_failed(4)] by (auto simp: honest_defs)
next
  case (sign s w v msg)
  then show ?case
    using wf_vaultD(3) [OF sign(2)] attest_domain_fits(2)
    by (auto simp: honest_defs Vault_device_public_key_def Vault_sign_challenge_def)
qed (auto simp: honest_defs)

subsection \<open>Opening blobs\<close>

lemma sealed_blob_facts:
  assumes "aead_lawful A" "blobs_honest A R s" "Sealed_Blob k i pt f \<in> set s"
  shows "length k = 32" "decrypt_chunked A f k i = Ok pt" "valid_context i"
    "72 \<le> length f" "hd f = VERSION" "take 4 (drop 68 f) = chunk_size_be"
proof -
  from assms(2,3) obtain g g' where "length k = 32" "encrypt_chunked A R pt k i g = (Ok f, g')"
    unfolding blobs_honest_def by blast
  then show k: "length k = 32" and d: "decrypt_chunked A f k i = Ok pt"
    using encrypt_then_decrypt [OF assms(1)] by auto
  show "valid_context i" "72 \<le> length f" "hd f = VERSION" "take 4 (drop 68 f) = chunk_size_be"
    using d by (auto elim: decrypt_chunked_Ok)
qed

lemma fresh_keysD:
  assumes "fresh_keys A s" "Sealed_Blob k i pt f \<in> set s" "Sealed_Blob k' i' pt' f' \<in> set s"
    "data_key A k i f = data_key A k' i' f'"
  shows "k = k' \<and> i = i' \<and> pt = pt' \<and> f = f'"
  using assms
proof (induction s)
  case (Cons e s)
  then show ?case by (cases e) (auto, (metis)+)
qed simp

lemma aads_differ: "header_aad i f \<noteq> field_aad_bytes c"
  by (simp add: header_aad_def wrap_aad_bytes_def field_aad_bytes_def domains_differ)

text \<open>An accepted key wrap of the history is that of a blob: the associated data says which, and for what.\<close>

lemma logged_wrap:
  assumes laws: "aead_lawful A" and hon: "blobs_honest A R s"
    and log: "(k, header_iv f, header_ct f, header_aad i f) \<in> gcm_log s"
    and i: "valid_context i" and len: "72 \<le> length f"
  obtains pt f' where "Sealed_Blob k i pt f' \<in> set s" "header_iv f' = header_iv f" "header_ct f' = header_ct f"
    "take 7 (drop 61 f') = take 7 (drop 61 f)"
proof -
  from log aads_differ obtain i' pt f' where s: "Sealed_Blob k i' pt f' \<in> set s" and iv: "header_iv f' = header_iv f"
      "header_ct f' = header_ct f" and aad: "header_aad i' f' = header_aad i f"
    unfolding gcm_log_def by auto
  note sf = sealed_blob_facts [OF laws hon s]
  have "i' = i \<and> take 7 (drop 61 f') = take 7 (drop 61 f)"
    by (rule wrap_aad_bytes_inject [OF sf(3) i]) (use aad sf(4) len in \<open>simp_all add: header_aad_def\<close>)
  then show thesis using that s iv by blast
qed

lemma opened_blob_was_sealed:
  assumes laws: "aead_lawful A" and hon: "blobs_honest A R s" and fresh: "fresh_keys A s"
    and q: "blob_query A s k i f" and ok: "decrypt_chunked A f k i = Ok pt"
  shows "Sealed_Blob k i pt f \<in> set s"
proof -
  obtain dk where d: "valid_context i" "72 \<le> length f" "hd f = VERSION" "take 4 (drop 68 f) = chunk_size_be"
    "gcm_decrypt A k (take 12 (drop 1 f)) (take 48 (drop 13 f)) (wrap_aad_bytes i (take 7 (drop 61 f))) = Some dk"
    "open_segments A (seg_aad_bytes i) (dec_from_aead A dk (take 7 (drop 61 f)))
       (chunks (CHUNK_SIZE + 16) (drop 72 f)) = Some pt"
    using ok by (rule decrypt_chunked_Ok)
  have dk: "data_key A k i f = Some dk" using d(5) by (simp add: data_key_def header_iv_def header_ct_def header_aad_def)
  with q d(6) have gl: "(k, header_iv f, header_ct f, header_aad i f) \<in> gcm_log s"
    and sl: "(dk, take 7 (drop 61 f), seg_aad_bytes i, drop 72 f) \<in> stream_log A s"
    by (auto simp: blob_query_def)
  obtain pt' f' where s: "Sealed_Blob k i pt' f' \<in> set s" "header_iv f' = header_iv f" "header_ct f' = header_ct f"
    "take 7 (drop 61 f') = take 7 (drop 61 f)" by (rule logged_wrap [OF laws hon gl d(1,2)])
  have dk': "data_key A k i f' = Some dk" using dk s(2-4) by (simp add: data_key_def header_aad_def)
  from sl obtain k2 i2 pt2 f2 where s2: "Sealed_Blob k2 i2 pt2 f2 \<in> set s" "data_key A k2 i2 f2 = Some dk" "drop 72 f2 = drop 72 f"
    by (auto simp: stream_log_def)
  have "f2 = f'" using fresh_keysD [OF fresh s(1) s2(1)] dk' s2(2) by simp
  then have "drop 72 f' = drop 72 f" using s2(3) by simp
  moreover note sf = sealed_blob_facts [OF laws hon s(1)]
  ultimately have "f' = f"
    using header_split [OF sf(4)] header_split [OF d(2)] s(2-4) sf(5,6) d(3,4)
    by (simp add: header_iv_def header_ct_def)
  then show ?thesis using s(1) sf(2) ok by simp
qed

text \<open>So a blob opens to what was sealed as this blob, and to nothing else.\<close>

lemma blob_opening_ideal:
  assumes laws: "aead_lawful A" and hon: "blobs_honest A R s" and fresh: "fresh_keys A s" and q: "blob_query A s k i f"
  shows "ideal_opening (valid_context i) {pt. Sealed_Blob k i pt f \<in> set s} (decrypt_chunked A f k i)"
proof (cases "decrypt_chunked A f k i")
  case (Ok pt)
  have "pt' = pt" if "Sealed_Blob k i pt' f \<in> set s" for pt' using sealed_blob_facts(2) [OF laws hon that] Ok by simp
  then have "{pt. Sealed_Blob k i pt f \<in> set s} = {pt}"
    using opened_blob_was_sealed [OF laws hon fresh q Ok] by blast
  then show ?thesis using Ok by (simp add: ideal_opening_def)
next
  case (Err e)
  have "Sealed_Blob k i pt f \<notin> set s" for pt using sealed_blob_facts(2) [OF laws hon, of k i pt f] Err by auto
  then have "{pt. Sealed_Blob k i pt f \<in> set s} = {}" by blast
  moreover have "e = (if valid_context i then Aead else InvalidContext)"
    using Err decrypt_chunked_errors(1,2) [of i A f k] by auto
  ultimately show ?thesis using Err by (simp add: ideal_opening_def)
qed (simp add: decrypt_chunked_errors)

subsection \<open>Opening fields and verifying signatures\<close>

lemma opened_field_was_sealed:
  assumes hon: "fields_honest A R s" and q: "field_query A s k c f" and ok: "unseal_field A f k c = Ok pt"
  obtains pt' where "Sealed_Field k c pt' f \<in> set s"
proof -
  have c: "valid_field_context c" and "gcm_decrypt A k (field_iv f) (ciphertext f) (field_aad_bytes c) \<noteq> None"
    using ok by (auto simp: decrypt_field_eq split: if_splits)
  with q have log: "(k, field_iv f, ciphertext f, field_aad_bytes c) \<in> gcm_log s" by (simp add: field_query_def)
  from log aads_differ [symmetric] obtain c' pt' f' where s: "Sealed_Field k c' pt' f' \<in> set s" "field_iv f' = field_iv f" "ciphertext f' = ciphertext f"
      "field_aad_bytes c' = field_aad_bytes c"
    unfolding gcm_log_def by auto
  from hon s(1) obtain g g' where "seal_field A R pt' k c' g = (Ok f', g')" unfolding fields_honest_def by blast
  then have "valid_field_context c'" by (rule encrypt_field_Ok(1))
  then have "c' = c" using field_aad_bytes_inject [OF _ c s(4)] by blast
  moreover have "f' = f" using s(2,3) by simp
  ultimately show thesis using that s(1) by blast
qed

lemma field_opening_ideal:
  assumes laws: "gcm_correct A" and hon: "fields_honest A R s" and q: "field_query A s k c f"
  shows "ideal_opening (valid_field_context c) {pt. Sealed_Field k c pt f \<in> set s} (unseal_field A f k c)"
proof -
  have opens: "unseal_field A f k c = Ok pt" if "Sealed_Field k c pt f \<in> set s" for pt
  proof -
    from hon that obtain g g' where "length k = 32" "seal_field A R pt k c g = (Ok f, g')"
      unfolding fields_honest_def by blast
    then show ?thesis by (rule field_box.roundtrip [OF laws])
  qed
  show ?thesis
  proof (cases "unseal_field A f k c")
    case (Ok pt)
    have only: "pt' = pt" if "Sealed_Field k c pt' f \<in> set s" for pt' using opens [OF that] Ok by simp
    obtain pt' where "Sealed_Field k c pt' f \<in> set s" by (rule opened_field_was_sealed [OF hon q Ok])
    with only have "{pt. Sealed_Field k c pt f \<in> set s} = {pt}" by blast
    then show ?thesis using Ok by (simp add: ideal_opening_def)
  next
    case (Err e)
    then have "{pt. Sealed_Field k c pt f \<in> set s} = {}" using opens by fastforce
    then show ?thesis using Err by (auto simp: ideal_opening_def decrypt_field_eq split: if_splits)
  next
    case Panic
    then show ?thesis using field_box.unseal_no_panic [of A f k c] by simp
  qed
qed

lemma verification_ideal:
  assumes "ed_correct E" "signatures_honest E s" "signature_query E s pk msg sig"
  shows "verify_signature E pk msg sig = Ok () \<or> verify_signature E pk msg sig = Err InvalidSignature"
    "verify_signature E pk msg sig = Ok () \<Longrightarrow> \<exists>sig'. Signed pk ATTEST_DOMAIN msg sig' \<in> set s"
    "Signed pk ATTEST_DOMAIN msg sig \<in> set s \<Longrightarrow> verify_signature E pk msg sig = Ok ()"
proof -
  show "verify_signature E pk msg sig = Ok () \<or> verify_signature E pk msg sig = Err InvalidSignature"
    by (simp add: verify_signature_eq split: option.split)
  show "verify_signature E pk msg sig = Ok ()" if "Signed pk ATTEST_DOMAIN msg sig \<in> set s"
    using assms(2) that sign_then_verify [OF assms(1)] unfolding signatures_honest_def by blast
  assume "verify_signature E pk msg sig = Ok ()"
  with assms(3) have "(pk, domain_separated msg) \<in> sig_log s"
    by (auto simp: signature_query_def verify_signature_eq split: option.splits if_splits)
  then obtain tag msg' sig' where s: "Signed pk tag msg' sig' \<in> set s"
      "domain_frame ATTEST_DOMAIN @ msg = domain_frame tag @ msg'"
    by (auto simp: sig_log_def domain_separated_frame)
  have "length tag \<le> 255" using assms(2) s(1) by (auto simp: signatures_honest_def)
  from frame.delimited [OF attest_domain_fits(2) this s(2)] s(1)
  show "\<exists>sig'. Signed pk ATTEST_DOMAIN msg sig' \<in> set s" by blast
qed

subsection \<open>Sessions are histories of the ideal box\<close>

lemma session_is_ideal:
  assumes "session A R E s w" "aead_lawful A" "stream_min16 A" "ed_correct E"
  shows "unforged A E s \<Longrightarrow> fresh_keys A s \<Longrightarrow> ideal s"
  using assms(1)
proof induction
  case (seal_blob s w v pt i framed g)
  then show ?case using blob_box.seal_ctx_ok by (auto simp: Vault_encrypt_blob_def)
next
  case (store_file s w v src pt blob os i w' framed)
  have "wf_disk (disk w)" using session_honest [OF store_file(1) assms(3)] by simp
  from stored_file(2) [OF this store_file(3-5) refl store_file(6)] have "valid_context i"
    by (auto dest: blob_box.seal_ctx_ok)
  then show ?case using store_file by simp
next
  case (seal_field s w v pt c field g)
  then have "valid_field_context c"
    using field_box.seal_ctx_ok [of A R pt "metadata_key v" c "rng_state w"] by (auto simp: Vault_encrypt_metadata_field_def)
  then show ?case using seal_field by simp
next
  case (open_blob s w v i framed)
  then have "ideal_opening (valid_context i) {pt. Sealed_Blob (wrap_key v) i pt framed \<in> set s} (decrypt_chunked A framed (wrap_key v) i)"
    using blob_opening_ideal [OF assms(2), of R s] session_honest [OF open_blob(1) assms(3)] by simp
  then show ?case using open_blob by (simp add: Vault_decrypt_blob_def)
next
  case (restore_file s w v dst blob framed os i w' pt)
  note hon = session_honest [OF restore_file(1) assms(3)]
  then have "decrypt_chunked A framed (wrap_key v) i = Ok pt"
    using restored_file(2) [OF _ restore_file(3) assms(3) restore_file(5) refl restore_file(4,6)] by simp
  from opened_blob_was_sealed [OF assms(2) _ _ _ this, of R s] hon restore_file show ?case by simp
next
  case (open_field s w v c field)
  then have "ideal_opening (valid_field_context c) {pt. Sealed_Field (metadata_key v) c pt field \<in> set s} (unseal_field A field (metadata_key v) c)"
    using field_opening_ideal [of A R s] session_honest [OF open_field(1) assms(3)] assms(2) by (simp add: aead_lawful_def)
  then show ?case using open_field by (simp add: Vault_decrypt_metadata_field_def)
next
  case (verify s w pk msg sig)
  then show ?case
    using verification_ideal [OF assms(4), of s pk msg sig] session_honest [OF verify(1) assms(3)] by simp
qed simp_all

subsection \<open>Properties\<close>

text \<open>
  C7: against an untrusted storage and backend, the vaults behave like an ideal box. Whatever happens to
  the disk between the operations, whatever is presented for opening, restoring and verification, and
  whichever calls of the operating system fail: if AES-GCM, STREAM and Ed25519 accept nothing in the
  session but what they made before, and no data key is drawn twice, every answer of every vault is
  the answer of a box that remembers what was sealed and signed. Blobs and fields cannot be confused
  even if the two keys are equal, nor attestations with messages signed under another domain tag.
\<close>

theorem session_refines_ideal_box:
  assumes "session A R E s w" "aead_lawful A" "stream_min16 A" "ed_correct E" "unforged A E s" "fresh_keys A s"
  shows "ideal s"
  by (rule session_is_ideal [OF assms])

text \<open>A small session: a blob is sealed and opened, a challenge is signed and verified.\<close>

definition small_session :: "bytes \<Rightarrow> bytes \<Rightarrow> bytes \<Rightarrow> bytes \<Rightarrow> event list" where
  "small_session k framed pk sig =
     [Verified pk [7] sig (Ok ()), Signed pk ATTEST_DOMAIN [7] sig,
      Opened_Blob k ''ab'' framed (Ok [1]), Tampered, Sealed_Blob k ''ab'' [1] framed]"

lemma small_session_clean:
  "unforged A E (small_session k framed pk sig)" "fresh_keys A (small_session k framed pk sig)"
proof -
  have "(k, header_iv framed, header_ct framed, header_aad ''ab'' framed) \<in> gcm_log [Tampered, Sealed_Blob k ''ab'' [1] framed]"
    by (auto simp: gcm_log_def)
  moreover have "(dk, take 7 (drop 61 framed), seg_aad_bytes ''ab'', drop 72 framed) \<in> stream_log A [Tampered, Sealed_Blob k ''ab'' [1] framed]"
    if "data_key A k ''ab'' framed = Some dk" for dk
    using that by (auto simp: stream_log_def)
  ultimately have "blob_query A [Tampered, Sealed_Blob k ''ab'' [1] framed] k ''ab'' framed"
    unfolding blob_query_def by blast
  moreover have "(pk, domain_separated [7]) \<in> sig_log (tl (small_session k framed pk sig))"
    by (auto simp: sig_log_def small_session_def domain_separated_frame)
  ultimately show "unforged A E (small_session k framed pk sig)"
    by (simp add: small_session_def signature_query_def)
  show "fresh_keys A (small_session k framed pk sig)" by (simp add: small_session_def)
qed

lemma small_session_runs:
  obtains k framed pk sig w where "session ref_aead ref_rng ref_ed (small_session k framed pk sig) w"
proof (rule Vault_open_succeeds [OF ref_hkdf_limit, of ref_ed "replicate 32 4"])
  fix v
  assume "Vault_open ref_hkdf ref_ed (replicate 32 4) = Ok v"
  then have v: "wf_vault ref_ed v" by (rule Vault_open_wf)
  show thesis
  proof (rule ref_vault_seals [OF v])
    fix framed g field t
    assume b: "Vault_encrypt_blob ref_aead ref_rng v [1] ''ab'' 0 = (Ok framed, g)"
    let ?k = "wrap_key v" and ?w = "one_file []" and ?pk = "Vault_device_public_key ref_ed v"
      and ?sig = "sig_bytes (Vault_sign_challenge ref_ed v [7])"
    have op: "Vault_decrypt_blob ref_aead v framed ''ab'' = Ok [1]"
      using blob_box.roundtrip [OF _ wf_vaultD(1) [OF v] b [unfolded Vault_encrypt_blob_def]] ref_lawful
      by (simp add: Vault_decrypt_blob_def)
    obtain seed where "length seed = 32" "signing_key v = signing_key_from_seed ref_ed seed" using wf_vaultD(3) [OF v] by blast
    then have ver: "verify_signature ref_ed ?pk [7] ?sig = Ok ()"
      using sign_then_verify [OF ref_ed_laws(1)] by (simp add: Vault_device_public_key_def Vault_sign_challenge_def)
    note s1 = session.seal_blob [OF session.start [OF one_file_facts(1) [of "[]"]] v, of ref_aead ref_rng "[1]" "''ab''" framed g]
    from s1 b have "session ref_aead ref_rng ref_ed [Sealed_Blob ?k ''ab'' [1] framed] (?w\<lparr> rng_state := g \<rparr>)"
      by (simp add: one_file_def)
    from session.tamper [OF this one_file_facts(1) [of framed]]
    have "session ref_aead ref_rng ref_ed [Tampered, Sealed_Blob ?k ''ab'' [1] framed]
        (?w\<lparr> rng_state := g, disk := disk (one_file framed) \<rparr>)" by simp
    from session.verify [OF session.sign [OF session.open_blob [OF this v, of "''ab''" framed] v, of "[7]"], of ?pk "[7]" ?sig]
    show thesis using that unfolding op ver small_session_def by blast
  qed
qed

theorem session_refines_ideal_box_witness:
  "\<exists>k framed pk sig w. session ref_aead ref_rng ref_ed (small_session k framed pk sig) w \<and>
     ideal (small_session k framed pk sig)"
proof (rule small_session_runs)
  fix k framed pk sig w
  assume s: "session ref_aead ref_rng ref_ed (small_session k framed pk sig) w"
  from session_refines_ideal_box [OF s ref_lawful ref_stream_laws(5) ref_ed_laws(1) small_session_clean] s
  show ?thesis by blast
qed

end
