(* ===== verification/Filum_Secrets.thy ===== *)
theory Filum_Secrets
  imports Filum_Ffi
begin

text \<open>
  Where secrets remain in memory. The operations that handle master secrets, recovery phrases and keys
  (\<open>recovery.rs\<close>, \<open>vault.rs\<close>, the binding layer) on a memory of buffers. Every variable the source binds to a
  secret is a buffer of its own; a buffer that is released keeps its bytes, as freed memory does, and
  a \<open>Zeroizing\<close> buffer is wiped when its scope ends, on every way out of it. Moving a value that is not \<open>Copy\<close>
  hands its buffer over; using an array, which is \<open>Copy\<close>, by value makes another buffer. Temporaries without a
  name and the objects of the crates (\<open>Mnemonic\<close> and \<open>SigningKey\<close> wipe themselves, as \<open>Cargo.toml\<close> asks for) are not
  represented. Each operation returns what the operation without memory returns.
\<close>

subsection \<open>Memory\<close>

text \<open>The buffers, and whatever else an operation works on.\<close>

record 's mem =
  outer :: 's
  cells :: "bytes list"

definition alloc :: "bytes \<Rightarrow> ('s mem, 'e, nat) st" where
  "alloc b s = (Ok (length (cells s)), s\<lparr> cells := cells s @ [b] \<rparr>)"

definition load :: "nat \<Rightarrow> ('s mem, 'e, bytes) st" where
  "load a s = (Ok (cells s ! a), s)"

definition store :: "nat \<Rightarrow> bytes \<Rightarrow> ('s mem, 'e, unit) st" where
  "store a b s = (Ok (), s\<lparr> cells := (cells s)[a := b] \<rparr>)"

definition zeros :: "bytes \<Rightarrow> bytes" where
  "zeros b = replicate (length b) 0"

definition wipe :: "nat \<Rightarrow> 's mem \<Rightarrow> 's mem" where
  "wipe a s = s\<lparr> cells := (cells s)[a := zeros (cells s ! a)] \<rparr>"

text \<open>\<open>zeroize()\<close> of a buffer.\<close>

definition zeroize :: "nat \<Rightarrow> ('s mem, 'e, unit) st" where
  "zeroize a s = (Ok (), wipe a s)"

text \<open>
  The scope of a \<open>Zeroizing\<close> buffer. The second form is for a buffer that the result takes with it: it is
  dropped when the scope is left with an error or a panic.
\<close>

definition zeroizing :: "nat \<Rightarrow> ('s mem, 'e, 'a) st \<Rightarrow> ('s mem, 'e, 'a) st" where
  "zeroizing a m s = (case m s of (r, s') \<Rightarrow> (r, wipe a s'))"

definition zeroizing_moved :: "nat \<Rightarrow> ('s mem, 'e, 'a) st \<Rightarrow> ('s mem, 'e, 'a) st" where
  "zeroizing_moved a m s =
     (case m s of (r, s') \<Rightarrow> (r, case r of Ok _ \<Rightarrow> s' | Err _ \<Rightarrow> wipe a s' | Panic \<Rightarrow> wipe a s'))"

text \<open>Code that has nothing to do with the buffers.\<close>

definition outside :: "('s, 'e, 'a) st \<Rightarrow> ('s mem, 'e, 'a) st" where
  "outside m s = (case m (outer s) of (r, t) \<Rightarrow> (r, s\<lparr> outer := t \<rparr>))"

text \<open>
  Code on a part of a state, given by how the part is read and replaced: the random source is the
  whole outer state of the operations in memory, and a field of the world of the file codecs.
\<close>

definition via :: "('s \<Rightarrow> 'r) \<Rightarrow> ('r \<Rightarrow> 's \<Rightarrow> 's) \<Rightarrow> ('r, 'e, 'a) st \<Rightarrow> ('s, 'e, 'a) st" where
  "via get put m s = (case m (get s) of (r, g) \<Rightarrow> (r, put g s))"

text \<open>\<open>dst.copy_from_slice(&src)\<close> and \<open>try_fill_bytes(&mut buf)\<close> on buffers.\<close>

definition copy_cell :: "nat \<Rightarrow> nat \<Rightarrow> ('s mem, 'e, unit) st" where
  "copy_cell dst src =
     st_bind (load dst) (\<lambda>d. st_bind (load src) (\<lambda>b. st_bind (st_lift (copy_from_slice d b)) (store dst)))"

definition fill_cell :: "('s \<Rightarrow> 'r) \<Rightarrow> ('r \<Rightarrow> 's \<Rightarrow> 's) \<Rightarrow> 'r rng \<Rightarrow> nat \<Rightarrow> ('s mem, FilumCryptoError, unit) st" where
  "fill_cell get put R a =
     st_bind (load a) (\<lambda>buf. st_bind (outside (via get put (fill_random R buf))) (store a))"

text \<open>The text of a \<open>String\<close> buffer.\<close>

definition as_str :: "bytes \<Rightarrow> string" where
  "as_str b = map (\<lambda>c. char_of (unat c)) b"

subsection \<open>recovery.rs\<close>

definition mem_generate_master_secret :: "'r rng \<Rightarrow> ('r mem, FilumCryptoError, bytes) st" where
  "mem_generate_master_secret R =
     st_bind (alloc (replicate 32 0)) (\<lambda>out.
     st_bind (fill_cell id (\<lambda>g _. g) R out) (\<lambda>_.
     load out))"

definition mem_secret_to_phrase :: "'m bip39_lib \<Rightarrow> nat \<Rightarrow> ('s mem, FilumCryptoError, string) st" where
  "mem_secret_to_phrase B secret = st_bind (load secret) (\<lambda>bs. st_lift (secret_to_phrase B bs))"

definition mem_phrase_to_secret :: "'m bip39_lib \<Rightarrow> nat \<Rightarrow> ('s mem, FilumCryptoError, bytes) st" where
  "mem_phrase_to_secret B phrase =
     st_bind (load phrase) (\<lambda>text.
     st_bind (st_lift (ok_or InvalidPhrase (parse B (as_str text)))) (\<lambda>mnemonic.
     st_bind (alloc (to_entropy B mnemonic)) (\<lambda>entropy.
     st_bind (load entropy) (\<lambda>bs.
     if length bs \<noteq> 32 then
       st_bind (zeroize entropy) (\<lambda>_. st_lift (Err InvalidPhrase))
     else
       st_bind (alloc (replicate 32 0)) (\<lambda>out.
       st_bind (copy_cell out entropy) (\<lambda>_.
       st_bind (zeroize entropy) (\<lambda>_.
       load out)))))))"

subsection \<open>vault.rs\<close>

text \<open>A vault with its two \<open>Zeroizing\<close> fields as buffers; \<open>Drop\<close> wipes them in the order of the fields.\<close>

record 'sk mem_Vault =
  wrap_key_at :: nat
  metadata_key_at :: nat
  mem_signing_key :: 'sk

definition drop_Vault :: "'sk mem_Vault \<Rightarrow> 's mem \<Rightarrow> 's mem" where
  "drop_Vault v s = wipe (metadata_key_at v) (wipe (wrap_key_at v) s)"

definition mem_derive_subkey :: "hkdf \<Rightarrow> nat \<Rightarrow> bytes \<Rightarrow> nat \<Rightarrow> ('s mem, FilumCryptoError, unit) st" where
  "mem_derive_subkey H secret info out =
     st_bind (load secret) (\<lambda>sec. st_bind (load out) (\<lambda>buf.
     st_bind (st_lift (derive_subkey H sec info buf)) (store out)))"

definition mem_Vault_open ::
  "hkdf \<Rightarrow> ('sk, 'vk) ed_lib \<Rightarrow> nat \<Rightarrow> ('s mem, FilumCryptoError, 'sk mem_Vault) st" where
  "mem_Vault_open H E master_secret =
     st_bind (alloc (replicate 32 0)) (\<lambda>wk. zeroizing_moved wk (
     st_bind (mem_derive_subkey H master_secret WRAP_CTX wk) (\<lambda>_.
     st_bind (alloc (replicate 32 0)) (\<lambda>mk. zeroizing_moved mk (
     st_bind (mem_derive_subkey H master_secret METADATA_CTX mk) (\<lambda>_.
     st_bind (alloc (replicate 32 0)) (\<lambda>sign_seed. zeroizing sign_seed (
     st_bind (mem_derive_subkey H master_secret SIGN_CTX sign_seed) (\<lambda>_.
     st_bind (load sign_seed) (\<lambda>seed.
     st_lift (Ok \<lparr> wrap_key_at = wk, metadata_key_at = mk, mem_signing_key = signing_key_from_seed E seed \<rparr>)))))))))))"

definition mem_Vault_from_recovery_phrase ::
  "'m bip39_lib \<Rightarrow> hkdf \<Rightarrow> ('sk, 'vk) ed_lib \<Rightarrow> nat \<Rightarrow> ('s mem, FilumCryptoError, 'sk mem_Vault) st" where
  "mem_Vault_from_recovery_phrase B H E phrase =
     st_bind (mem_phrase_to_secret B phrase) (\<lambda>bs.
     st_bind (alloc bs) (\<lambda>secret. zeroizing secret (
     mem_Vault_open H E secret)))"

subsection \<open>The binding layer\<close>

definition mem_vec_to_secret_array :: "nat \<Rightarrow> ('s mem, Ffi_FilumCryptoError, nat) st" where
  "mem_vec_to_secret_array bs = zeroizing bs (
     st_bind (load bs) (\<lambda>b.
     if length b \<noteq> 32 then st_lift (Err Ffi_InvalidKeyLength)
     else
       st_bind (alloc (replicate 32 0)) (\<lambda>array. zeroizing_moved array (
       st_bind (copy_cell array bs) (\<lambda>_.
       st_lift (Ok array))))))"

definition mem_ffi_generate_master_secret :: "'r rng \<Rightarrow> ('r mem, Ffi_FilumCryptoError, bytes) st" where
  "mem_ffi_generate_master_secret R =
     st_bind (st_map_err ffi_error_from (mem_generate_master_secret R)) (\<lambda>bs.
     st_bind (alloc bs) (\<lambda>secret.
     st_bind (load secret) (\<lambda>copy.
     st_bind (alloc copy) (\<lambda>secret'. zeroizing secret' (
     load secret')))))"

definition mem_ffi_secret_to_phrase :: "'m bip39_lib \<Rightarrow> nat \<Rightarrow> ('s mem, Ffi_FilumCryptoError, string) st" where
  "mem_ffi_secret_to_phrase B secret =
     st_bind (mem_vec_to_secret_array secret) (\<lambda>array. zeroizing array (
     st_map_err ffi_error_from (mem_secret_to_phrase B array)))"

definition mem_ffi_phrase_to_secret :: "'m bip39_lib \<Rightarrow> nat \<Rightarrow> ('s mem, Ffi_FilumCryptoError, bytes) st" where
  "mem_ffi_phrase_to_secret B phrase = zeroizing phrase (
     st_bind (st_map_err ffi_error_from (mem_phrase_to_secret B phrase)) (\<lambda>bs.
     st_bind (alloc bs) (\<lambda>secret.
     st_bind (load secret) (\<lambda>copy.
     st_bind (alloc copy) (\<lambda>secret'. zeroizing secret' (
     load secret'))))))"

record 'sk mem_Ffi_Vault =
  mem_inner :: "'sk mem_Vault"

definition mem_Ffi_Vault_open ::
  "hkdf \<Rightarrow> ('sk, 'vk) ed_lib \<Rightarrow> nat \<Rightarrow> ('s mem, Ffi_FilumCryptoError, 'sk mem_Ffi_Vault) st" where
  "mem_Ffi_Vault_open H E master_secret =
     st_bind (mem_vec_to_secret_array master_secret) (\<lambda>array. zeroizing array (
     st_bind (st_map_err ffi_error_from (mem_Vault_open H E array)) (\<lambda>core.
     st_lift (Ok \<lparr> mem_inner = core \<rparr>))))"

definition mem_Ffi_Vault_from_recovery_phrase ::
  "'m bip39_lib \<Rightarrow> hkdf \<Rightarrow> ('sk, 'vk) ed_lib \<Rightarrow> nat \<Rightarrow> ('s mem, Ffi_FilumCryptoError, 'sk mem_Ffi_Vault) st" where
  "mem_Ffi_Vault_from_recovery_phrase B H E phrase = zeroizing phrase (
     st_bind (st_map_err ffi_error_from (mem_Vault_from_recovery_phrase B H E phrase)) (\<lambda>core.
     st_lift (Ok \<lparr> mem_inner = core \<rparr>)))"

subsection \<open>Running the operations\<close>

lemma zeros_simps [simp]: "length (zeros b) = length b" "zeros (zeros b) = zeros b" "zeros (replicate n 0) = replicate n 0"
  by (simp_all add: zeros_def)

lemma as_str_bytes [simp]: "as_str (as_bytes s) = s"
proof -
  have "char_of (unat (of_char c :: u8)) = c" for c
  proof -
    have "(of_char c :: nat) < 256" by simp
    then have "unat (word_of_nat (of_char c) :: u8) = of_char c" by (simp add: unat_of_nat)
    moreover have "(of_char c :: u8) = word_of_nat (of_char c)" by (simp add: of_nat_of_char)
    ultimately show ?thesis by simp
  qed
  then show ?thesis by (simp add: as_str_def as_bytes_def comp_def)
qed

lemma memory_simps [simp]:
  "st_bind (alloc b) f s = f (length (cells s)) (s\<lparr> cells := cells s @ [b] \<rparr>)"
  "st_bind (load a) g s = g (cells s ! a) s"
  "st_bind (store a b) h s = h () (s\<lparr> cells := (cells s)[a := b] \<rparr>)"
  "st_bind (zeroize a) h s = h () (wipe a s)"
  "load a s = (Ok (cells s ! a), s)"
  "store a b s = (Ok (), s\<lparr> cells := (cells s)[a := b] \<rparr>)"
  by (simp_all add: st_bind_def alloc_def load_def store_def zeroize_def)

lemma wipe_simps [simp]:
  "cells (wipe a s) = (cells s)[a := zeros (cells s ! a)]" "outer (wipe a s) = outer s"
  by (simp_all add: wipe_def)

lemma scope_simps:
  "m s = (r, s') \<Longrightarrow> zeroizing a m s = (r, wipe a s')"
  "m s = (Ok x, s') \<Longrightarrow> zeroizing_moved a m s = (Ok x, s')"
  "m s = (Err e, s') \<Longrightarrow> zeroizing_moved a m s = (Err e, wipe a s')"
  by (simp_all add: zeroizing_def zeroizing_moved_def)

lemma st_map_err_Ok: "m s = (Ok x, s') \<Longrightarrow> st_map_err g m s = (Ok x, s')"
  by (simp add: st_map_err_apply map_err_def)

lemma mem_derive_subkey_eq:
  "st_bind (mem_derive_subkey H a info b) f s =
     (case derive_subkey H (cells s ! a) info (cells s ! b) of
        Ok k \<Rightarrow> f () (s\<lparr> cells := (cells s)[b := k] \<rparr>) | Err e \<Rightarrow> (Err e, s) | Panic \<Rightarrow> (Panic, s))"
  by (auto simp: mem_derive_subkey_def st_bind_def load_def store_def split: outcome.split)

lemma copy_cell_eq:
  "length (cells s ! dst) = length (cells s ! src) \<Longrightarrow>
     st_bind (copy_cell dst src) f s = f () (s\<lparr> cells := (cells s)[dst := cells s ! src] \<rparr>)"
  by (simp add: copy_cell_def st_bind_def load_def store_def copy_from_slice_def)

text \<open>Opening a vault: what it returns, and the buffers it leaves behind.\<close>

lemma mem_Vault_open_run:
  assumes "a < length (cells s)"
  shows "case Vault_open H E (cells s ! a) of
      Ok v \<Rightarrow> mem_Vault_open H E a s =
        (Ok \<lparr> wrap_key_at = length (cells s), metadata_key_at = Suc (length (cells s)), mem_signing_key = signing_key v \<rparr>,
         s\<lparr> cells := cells s @ [wrap_key v, metadata_key v, replicate 32 0] \<rparr>)
    | Err e \<Rightarrow> \<exists>n. mem_Vault_open H E a s = (Err e, s\<lparr> cells := cells s @ replicate n (replicate 32 0) \<rparr>)
    | Panic \<Rightarrow> False"
proof -
  let ?d = "\<lambda>info. derive_subkey H (cells s ! a) info (replicate 32 0)"
  note eqs = mem_Vault_open_def Vault_open_def mem_derive_subkey_eq zeroizing_def zeroizing_moved_def wipe_def nth_append
    list_update_append assms less_SucI
  have len: "?d info = Ok k \<Longrightarrow> length k = 32" for info k using derive_subkey_length by force
  have cases: "(\<exists>k. ?d info = Ok k) \<or> ?d info = Err InvalidKeyLength" for info by (rule derive_subkey_cases)
  consider "?d WRAP_CTX = Err InvalidKeyLength"
    | k1 where "?d WRAP_CTX = Ok k1" "?d METADATA_CTX = Err InvalidKeyLength"
    | k1 k2 where "?d WRAP_CTX = Ok k1" "?d METADATA_CTX = Ok k2" "?d SIGN_CTX = Err InvalidKeyLength"
    | k1 k2 k3 where "?d WRAP_CTX = Ok k1" "?d METADATA_CTX = Ok k2" "?d SIGN_CTX = Ok k3"
    using cases by meson
  then show ?thesis
  proof cases
    case 1
    then show ?thesis by (simp add: eqs) (intro exI [of _ "Suc 0"]; simp)
  next
    case 2
    then show ?thesis using len [OF 2(1)] by (simp add: eqs zeros_def) (intro exI [of _ "Suc (Suc 0)"]; simp)
  next
    case 3
    then show ?thesis using len [OF 3(1)] len [OF 3(2)] by (simp add: eqs zeros_def) (intro exI [of _ "Suc (Suc (Suc 0))"]; simp)
  next
    case 4
    then show ?thesis using len [OF 4(3)] by (simp add: eqs zeros_def)
  qed
qed

lemma mem_vec_to_secret_array_run:
  assumes "a < length (cells s)"
  shows "mem_vec_to_secret_array a s =
    (if length (cells s ! a) = 32
     then (Ok (length (cells s)), s\<lparr> cells := (cells s)[a := replicate 32 0] @ [cells s ! a] \<rparr>)
     else (Err Ffi_InvalidKeyLength, s\<lparr> cells := (cells s)[a := zeros (cells s ! a)] \<rparr>))"
  using assms
  by (simp add: mem_vec_to_secret_array_def zeroizing_def zeroizing_moved_def wipe_def copy_cell_eq nth_append
      list_update_append zeros_def)

lemma mem_phrase_to_secret_run:
  assumes "a < length (cells s)"
  shows "case phrase_to_secret B (as_str (cells s ! a)) of
      Ok secret \<Rightarrow> mem_phrase_to_secret B a s = (Ok secret, s\<lparr> cells := cells s @ [replicate 32 0, secret] \<rparr>)
    | Err e \<Rightarrow> \<exists>bs. mem_phrase_to_secret B a s = (Err e, s\<lparr> cells := cells s @ map zeros bs \<rparr>)
    | Panic \<Rightarrow> False"
proof (cases "parse B (as_str (cells s ! a))")
  case None
  then show ?thesis
    by (simp add: mem_phrase_to_secret_def phrase_to_secret_eq) (intro exI [of _ "[]"]; simp)
next
  case (Some m)
  show ?thesis
  proof (cases "length (to_entropy B m) = 32")
    case True
    then show ?thesis
      using Some by (simp add: phrase_to_secret_eq mem_phrase_to_secret_def copy_cell_eq nth_append wipe_def list_update_append zeros_def)
  next
    case False
    then have "mem_phrase_to_secret B a s = (Err InvalidPhrase, s\<lparr> cells := cells s @ map zeros [to_entropy B m] \<rparr>)"
      using Some by (simp add: mem_phrase_to_secret_def nth_append wipe_def list_update_append)
    then show ?thesis using Some False by (simp add: phrase_to_secret_eq del: list.map) blast
  qed
qed

subsection \<open>What remains\<close>

text \<open>The buffers an operation was given or made, and what it must leave alone.\<close>

definition touched :: "nat \<Rightarrow> 's mem \<Rightarrow> 's mem \<Rightarrow> nat set" where
  "touched a s s' = insert a {length (cells s)..<length (cells s')}"

definition untouched :: "nat \<Rightarrow> 's mem \<Rightarrow> 's mem \<Rightarrow> bool" where
  "untouched a s s' \<longleftrightarrow> outer s' = outer s \<and> length (cells s) \<le> length (cells s') \<and>
     (\<forall>c < length (cells s). c \<noteq> a \<longrightarrow> cells s' ! c = cells s ! c)"

definition all_wiped :: "nat set \<Rightarrow> 's mem \<Rightarrow> bool" where
  "all_wiped as s \<longleftrightarrow> (\<forall>a \<in> as. cells s ! a = zeros (cells s ! a))"

text \<open>A vault in memory and the vault it stands for.\<close>

definition vault_in :: "'s mem \<Rightarrow> 'sk mem_Vault \<Rightarrow> 'sk Vault \<Rightarrow> bool" where
  "vault_in s mv v \<longleftrightarrow> wrap_key_at mv < length (cells s) \<and> cells s ! wrap_key_at mv = wrap_key v \<and>
     metadata_key_at mv < length (cells s) \<and> cells s ! metadata_key_at mv = metadata_key v \<and>
     mem_signing_key mv = signing_key v"

text \<open>The image after an operation: the buffer it was given has been wiped, and new ones follow.\<close>

lemma image_facts:
  assumes "a < length (cells s)" "cells s' = (cells s)[a := zeros (cells s ! a)] @ new" "outer s' = outer s"
  shows "untouched a s s'"
    and "all_wiped (touched a s s' - own) s' \<longleftrightarrow>
       (\<forall>i < length new. length (cells s) + i \<in> own \<or> new ! i = zeros (new ! i))"
proof -
  show "untouched a s s'" using assms by (auto simp: untouched_def nth_append)
  have tch: "touched a s s' = insert a ((+) (length (cells s)) ` {..<length new})"
    using assms by (simp add: touched_def lessThan_atLeast0 add.commute)
  have "cells s' ! a = zeros (cells s' ! a)" using assms by (simp add: nth_append)
  moreover have "cells s' ! (length (cells s) + i) = new ! i" for i
    using assms by (simp add: nth_append)
  ultimately show "all_wiped (touched a s s' - own) s' \<longleftrightarrow>
       (\<forall>i < length new. length (cells s) + i \<in> own \<or> new ! i = zeros (new ! i))"
    unfolding tch all_wiped_def by (simp add: Ball_def image_iff) (metis lessThan_iff)
qed

subsection \<open>Master secrets handed in\<close>

lemma mem_Ffi_Vault_open_run:
  assumes "a < length (cells s)" "mem_Ffi_Vault_open H E a s = (r, s')"
  obtains (opened) v where "Ffi_Vault_open H E (cells s ! a) = Ok \<lparr> inner = v \<rparr>"
      "r = Ok \<lparr> mem_inner = \<lparr> wrap_key_at = Suc (length (cells s)), metadata_key_at = Suc (Suc (length (cells s))),
         mem_signing_key = signing_key v \<rparr> \<rparr>"
      "cells s' = (cells s)[a := zeros (cells s ! a)] @ [replicate 32 0, wrap_key v, metadata_key v, replicate 32 0]"
      "outer s' = outer s"
    | (failed) e bs where "Ffi_Vault_open H E (cells s ! a) = Err e" "r = Err e"
      "cells s' = (cells s)[a := zeros (cells s ! a)] @ map zeros bs" "outer s' = outer s"
proof (cases "length (cells s ! a) = 32")
  case False
  then show thesis
    using failed [of Ffi_InvalidKeyLength "[]"] assms
    by (auto simp: mem_Ffi_Vault_open_def mem_vec_to_secret_array_run st_bind_def Ffi_Vault_open_def vec_to_secret_array_eq)
next
  case True
  let ?s = "s\<lparr> cells := (cells s)[a := replicate 32 0] @ [cells s ! a] \<rparr>"
  have secret: "cells ?s ! length (cells s) = cells s ! a" by (simp add: nth_append)
  have z: "zeros (cells s ! a) = replicate 32 0" using True by (simp add: zeros_def)
  note run = mem_Vault_open_run [of "length (cells s)" ?s H E, unfolded secret]
  show thesis
  proof (cases "Vault_open H E (cells s ! a)")
    case (Ok v)
    show thesis
      by (rule opened [of v])
        (use run True Ok assms z in \<open>auto simp: mem_Ffi_Vault_open_def mem_vec_to_secret_array_run st_bind_def st_map_err_apply
          Ffi_Vault_open_def vec_to_secret_array_eq zeroizing_def wipe_def nth_append list_update_append map_err_def\<close>)
  next
    case (Err e)
    with run obtain n where n: "mem_Vault_open H E (length (cells s)) ?s = (Err e, ?s\<lparr> cells := cells ?s @ replicate n (replicate 32 0) \<rparr>)"
      by auto
    show thesis
      by (rule failed [of "ffi_error_from e" "replicate (Suc n) (replicate 32 0)"])
        (use n True Err assms z in \<open>auto simp: mem_Ffi_Vault_open_def mem_vec_to_secret_array_run st_bind_def st_map_err_apply
          Ffi_Vault_open_def vec_to_secret_array_eq zeroizing_def wipe_def nth_append list_update_append map_err_def\<close>)
  qed (use run in simp)
qed

lemma mem_ffi_secret_to_phrase_run:
  assumes "a < length (cells s)"
  shows "\<exists>bs. mem_ffi_secret_to_phrase B a s = (ffi_secret_to_phrase B (cells s ! a),
    s\<lparr> cells := (cells s)[a := zeros (cells s ! a)] @ map zeros bs \<rparr>)"
proof (cases "length (cells s ! a) = 32")
  case True
  then show ?thesis
    using assms
    by (intro exI [of _ "[cells s ! a]"])
      (simp add: mem_ffi_secret_to_phrase_def mem_vec_to_secret_array_run st_bind_def zeroizing_def wipe_def nth_append
        list_update_append zeros_def mem_secret_to_phrase_def load_def st_map_err_apply ffi_secret_to_phrase_def vec_to_secret_array_eq)
next
  case False
  then show ?thesis
    using assms
    by (intro exI [of _ "[]"])
      (simp add: mem_ffi_secret_to_phrase_def mem_vec_to_secret_array_run st_bind_def ffi_secret_to_phrase_def vec_to_secret_array_eq)
qed

text \<open>What an operation of the binding layer leaves of a secret it was given, if it keeps nothing.\<close>

lemma kept_nothing:
  assumes "a < length (cells s)" "cells s' = (cells s)[a := zeros (cells s ! a)] @ map zeros bs" "outer s' = outer s"
  shows "untouched a s s' \<and> all_wiped (touched a s s') s'"
  using image_facts(1) [OF assms] image_facts(2) [OF assms, of "{}"] by simp

text \<open>
  C19: master secrets that come in over the FFI are wiped, and an open vault holds the only keys. Whatever
  the bytes handed to \<open>secret_to_phrase\<close> and \<open>Vault::open\<close>, and whichever way the call ends, the buffer handed in and
  every buffer the call made is all zeros afterwards, except the two subkeys of a vault that was
  opened; these are the subkeys of the vault the operation returns, and dropping the vault wipes them. Other
  buffers are left alone.
\<close>

theorem incoming_secrets_wiped:
  assumes "a < length (cells s)"
  shows "(case mem_ffi_secret_to_phrase B a s of (r, s') \<Rightarrow>
      r = ffi_secret_to_phrase B (cells s ! a) \<and> untouched a s s' \<and> all_wiped (touched a s s') s') \<and>
    (case mem_Ffi_Vault_open H E a s of (r, s') \<Rightarrow> untouched a s s' \<and>
      (case r of
         Ok mv \<Rightarrow> \<exists>v. Ffi_Vault_open H E (cells s ! a) = Ok \<lparr> inner = v \<rparr> \<and> vault_in s' (mem_inner mv) v \<and>
           all_wiped (touched a s s' - {wrap_key_at (mem_inner mv), metadata_key_at (mem_inner mv)}) s' \<and>
           all_wiped (touched a s s') (drop_Vault (mem_inner mv) s')
       | Err e \<Rightarrow> Ffi_Vault_open H E (cells s ! a) = Err e \<and> all_wiped (touched a s s') s'
       | Panic \<Rightarrow> False))"
proof -
  obtain bs where p: "mem_ffi_secret_to_phrase B a s = (ffi_secret_to_phrase B (cells s ! a),
      s\<lparr> cells := (cells s)[a := zeros (cells s ! a)] @ map zeros bs \<rparr>)"
    using mem_ffi_secret_to_phrase_run [OF assms] by blast
  have "case mem_ffi_secret_to_phrase B a s of (r, s') \<Rightarrow>
      r = ffi_secret_to_phrase B (cells s ! a) \<and> untouched a s s' \<and> all_wiped (touched a s s') s'"
    using kept_nothing [OF assms, of "s\<lparr> cells := (cells s)[a := zeros (cells s ! a)] @ map zeros bs \<rparr>" bs] by (simp add: p)
  moreover obtain r s' where run: "mem_Ffi_Vault_open H E a s = (r, s')" by (metis surj_pair)
  have "untouched a s s' \<and> (case r of
         Ok mv \<Rightarrow> \<exists>v. Ffi_Vault_open H E (cells s ! a) = Ok \<lparr> inner = v \<rparr> \<and> vault_in s' (mem_inner mv) v \<and>
           all_wiped (touched a s s' - {wrap_key_at (mem_inner mv), metadata_key_at (mem_inner mv)}) s' \<and>
           all_wiped (touched a s s') (drop_Vault (mem_inner mv) s')
       | Err e \<Rightarrow> Ffi_Vault_open H E (cells s ! a) = Err e \<and> all_wiped (touched a s s') s'
       | Panic \<Rightarrow> False)"
  proof (cases rule: mem_Ffi_Vault_open_run [OF assms run, case_names opened failed])
    case (opened v)
    let ?mv = "\<lparr> wrap_key_at = Suc (length (cells s)), metadata_key_at = Suc (Suc (length (cells s))), mem_signing_key = signing_key v \<rparr>"
    have "cells (drop_Vault ?mv s') = (cells s)[a := zeros (cells s ! a)] @
        map zeros [replicate 32 0, wrap_key v, metadata_key v, replicate 32 0]" "outer (drop_Vault ?mv s') = outer s"
      using assms opened(3,4) by (simp_all add: drop_Vault_def nth_append list_update_append)
    from kept_nothing [OF assms this] have "all_wiped (touched a s s') (drop_Vault ?mv s')"
      by (simp add: touched_def drop_Vault_def)
    moreover have "all_wiped (touched a s s' - {Suc (length (cells s)), Suc (Suc (length (cells s)))}) s'"
      unfolding image_facts(2) [OF assms opened(3,4)] by (auto simp: less_Suc_eq)
    moreover have "vault_in s' ?mv v" using opened(3) assms by (simp add: vault_in_def nth_append)
    ultimately show ?thesis using image_facts(1) [OF assms opened(3,4)] opened(1,2) by simp
  next
    case failed
    then show ?thesis using kept_nothing [OF assms failed(3,4)] by simp
  qed
  ultimately show ?thesis by (simp add: run)
qed

text \<open>A master secret of 32 bytes in a memory of one buffer.\<close>

theorem incoming_secrets_wiped_witness:
  "\<exists>mv s' v. mem_Ffi_Vault_open ref_hkdf ref_ed 0 \<lparr> outer = (), cells = [replicate 32 4] \<rparr> = (Ok mv, s') \<and>
     Ffi_Vault_open ref_hkdf ref_ed (replicate 32 4) = Ok \<lparr> inner = v \<rparr> \<and> vault_in s' (mem_inner mv) v \<and>
     cells s' ! 0 = replicate 32 0 \<and> all_wiped (touched 0 \<lparr> outer = (), cells = [replicate 32 4] \<rparr> s') (drop_Vault (mem_inner mv) s')"
proof (rule Vault_open_succeeds [OF ref_hkdf_limit, of ref_ed "replicate 32 4"])
  let ?s = "\<lparr> outer = (), cells = [replicate 32 4] \<rparr>"
  fix v
  assume "Vault_open ref_hkdf ref_ed (replicate 32 4) = Ok v"
  then have v: "Ffi_Vault_open ref_hkdf ref_ed (cells ?s ! 0) = Ok \<lparr> inner = v \<rparr>" by (simp add: Ffi_Vault_open_Ok)
  obtain r s' where run: "mem_Ffi_Vault_open ref_hkdf ref_ed 0 ?s = (r, s')" by (metis surj_pair)
  have in0: "0 < length (cells ?s)" by simp
  have "cells s' ! 0 = replicate 32 0"
    using mem_Ffi_Vault_open_run [OF in0 run] by cases (simp_all add: zeros_def)
  with incoming_secrets_wiped [OF in0, of ref_bip39 ref_hkdf ref_ed] v run show ?thesis
    by (auto split: outcome.splits)
qed

subsection \<open>Master secrets handed out\<close>

lemma handed_out:
  "st_bind (alloc bs) (\<lambda>c. st_bind (load c) (\<lambda>copy. st_bind (alloc copy) (\<lambda>c'. zeroizing c' (load c')))) s =
     (Ok bs, s\<lparr> cells := cells s @ [bs, zeros bs] \<rparr>)"
  by (simp add: nth_append zeroizing_def wipe_def list_update_append)

lemma mem_ffi_phrase_to_secret_run:
  assumes "a < length (cells s)" "phrase_to_secret B (as_str (cells s ! a)) = Ok sec"
  shows "mem_ffi_phrase_to_secret B a s =
    (Ok sec, s\<lparr> cells := (cells s)[a := zeros (cells s ! a)] @ [replicate 32 0, sec, sec, replicate 32 0] \<rparr>)"
proof -
  have sec: "mem_phrase_to_secret B a s = (Ok sec, s\<lparr> cells := cells s @ [replicate 32 0, sec] \<rparr>)"
    using mem_phrase_to_secret_run [OF assms(1), of B] assms(2) by simp
  have "mem_ffi_phrase_to_secret B a s = (Ok sec, wipe a (s\<lparr> cells := cells s @ [replicate 32 0, sec, sec, zeros sec] \<rparr>))"
    unfolding mem_ffi_phrase_to_secret_def
    by (rule scope_simps(1)) (simp add: st_bind_def [of "st_map_err _ _"] st_map_err_Ok [of "mem_phrase_to_secret B a"] sec handed_out
        del: memory_simps)
  moreover have "length sec = 32" by (rule phrase_to_secret_length [OF assms(2)])
  ultimately show ?thesis using assms(1) by (simp add: wipe_def nth_append list_update_append zeros_def)
qed

lemma mem_ffi_phrase_to_secret_Ok:
  assumes "a < length (cells s)" "mem_ffi_phrase_to_secret B a s = (Ok secret, s')"
  shows "ffi_phrase_to_secret B (as_str (cells s ! a)) = Ok secret"
    "cells s' = (cells s)[a := zeros (cells s ! a)] @ [replicate 32 0, secret, secret, replicate 32 0]"
proof -
  obtain sec where sec: "phrase_to_secret B (as_str (cells s ! a)) = Ok sec"
    using mem_phrase_to_secret_run [OF assms(1), of B] assms(2)
    by (auto simp: mem_ffi_phrase_to_secret_def zeroizing_def st_bind_def st_map_err_apply split: outcome.splits)
  then show "ffi_phrase_to_secret B (as_str (cells s ! a)) = Ok secret"
    "cells s' = (cells s)[a := zeros (cells s ! a)] @ [replicate 32 0, secret, secret, replicate 32 0]"
    using assms mem_ffi_phrase_to_secret_run [OF assms(1) sec] by (auto simp: ffi_phrase_to_secret_def map_err_def)
qed

lemma mem_Vault_from_recovery_phrase_Ok:
  assumes "a < length (cells s)" "mem_Vault_from_recovery_phrase B H E a s = (Ok mv, s')"
  obtains secret v where "phrase_to_secret B (as_str (cells s ! a)) = Ok secret" "Vault_open H E secret = Ok v"
    "mv = \<lparr> wrap_key_at = length (cells s) + 3, metadata_key_at = length (cells s) + 4, mem_signing_key = signing_key v \<rparr>"
    "s' = s\<lparr> cells := cells s @ [replicate 32 0, secret, replicate 32 0, wrap_key v, metadata_key v, replicate 32 0] \<rparr>"
proof -
  obtain secret where sec: "phrase_to_secret B (as_str (cells s ! a)) = Ok secret"
    "mem_phrase_to_secret B a s = (Ok secret, s\<lparr> cells := cells s @ [replicate 32 0, secret] \<rparr>)"
    using mem_phrase_to_secret_run [OF assms(1), of B] assms(2)
    by (auto simp: mem_Vault_from_recovery_phrase_def st_bind_def split: outcome.splits)
  let ?s = "s\<lparr> cells := cells s @ [replicate 32 0, secret, secret] \<rparr>"
  let ?c = "length (cells s) + 2"
  have c: "?c < length (cells ?s)" "cells ?s ! ?c = secret" by (simp_all add: nth_append)
  have run: "mem_Vault_from_recovery_phrase B H E a s = zeroizing ?c (mem_Vault_open H E ?c) ?s"
    using sec(2) by (simp add: mem_Vault_from_recovery_phrase_def st_bind_def [of "mem_phrase_to_secret B a"])
  note op = mem_Vault_open_run [OF c(1), of H E, unfolded c(2)]
  have "length secret = 32" by (rule phrase_to_secret_length [OF sec(1)])
  then show thesis
    using that [OF sec(1)] op assms(2) unfolding run zeroizing_def
    by (cases "Vault_open H E secret")
      (auto simp: wipe_def nth_append list_update_append zeros_def numeral_eq_Suc)
qed

lemma mem_Ffi_Vault_from_recovery_phrase_Ok:
  assumes "a < length (cells s)" "mem_Ffi_Vault_from_recovery_phrase B H E a s = (Ok mv, s2)"
  shows "\<exists>master v. phrase_to_secret B (as_str (cells s ! a)) = Ok master \<and>
    Ffi_Vault_from_recovery_phrase B H E (as_str (cells s ! a)) = Ok \<lparr> inner = v \<rparr> \<and>
    vault_in s2 (mem_inner mv) v \<and> cells s2 ! (length (cells s) + 1) = master \<and>
    all_wiped (touched a s s2 - {length (cells s) + 1, wrap_key_at (mem_inner mv), metadata_key_at (mem_inner mv)}) s2"
proof -
  obtain core s3 where core: "mem_Vault_from_recovery_phrase B H E a s = (Ok core, s3)" "mv = \<lparr> mem_inner = core \<rparr>" "s2 = wipe a s3"
    using assms(2)
    by (cases "mem_Vault_from_recovery_phrase B H E a s")
      (auto simp: mem_Ffi_Vault_from_recovery_phrase_def zeroizing_def st_bind_def st_map_err_apply map_err_def
        split: outcome.splits)
  obtain master v where m: "phrase_to_secret B (as_str (cells s ! a)) = Ok master" "Vault_open H E master = Ok v"
    "core = \<lparr> wrap_key_at = length (cells s) + 3, metadata_key_at = length (cells s) + 4, mem_signing_key = signing_key v \<rparr>"
    "s3 = s\<lparr> cells := cells s @ [replicate 32 0, master, replicate 32 0, wrap_key v, metadata_key v, replicate 32 0] \<rparr>"
    by (rule mem_Vault_from_recovery_phrase_Ok [OF assms(1) core(1)])
  have s2: "cells s2 = (cells s)[a := zeros (cells s ! a)] @ [replicate 32 0, master, replicate 32 0, wrap_key v, metadata_key v, replicate 32 0]"
    "outer s2 = outer s"
    using assms core(3) m(4) by (simp_all add: nth_append list_update_append)
  have "all_wiped (touched a s s2 - {length (cells s) + 1, wrap_key_at core, metadata_key_at core}) s2"
    unfolding image_facts(2) [OF assms(1) s2] by (auto simp: less_Suc_eq m(3) numeral_eq_Suc zeros_def)
  moreover have "vault_in s2 core v" "cells s2 ! (length (cells s) + 1) = master"
    using assms by (simp_all add: s2 vault_in_def m(3) nth_append)
  moreover have "Ffi_Vault_from_recovery_phrase B H E (as_str (cells s ! a)) = Ok \<lparr> inner = v \<rparr>"
    using m(1,2) by (simp add: Ffi_Vault_from_recovery_phrase_def Vault_from_recovery_phrase_def map_err_def)
  ultimately show ?thesis using m(1) core(2) by auto
qed

lemma mem_ffi_generate_master_secret_Ok:
  assumes "mem_ffi_generate_master_secret R s = (Ok secret, s')"
  shows "generate_master_secret R (outer s) = (Ok secret, outer s')"
    "cells s' = cells s @ [secret, secret, replicate 32 0]"
proof -
  obtain bs g where f: "fill_random R (replicate 32 0) (outer s) = (Ok bs, g)"
    using assms fill_random_cases [of R "replicate 32 0" "outer s"]
    by (auto simp: mem_ffi_generate_master_secret_def mem_generate_master_secret_def fill_cell_def via_def outside_def st_bind_def
        alloc_def load_def st_map_err_apply nth_append map_err_def)
  then have "mem_generate_master_secret R s = (Ok bs, s\<lparr> outer := g, cells := cells s @ [bs] \<rparr>)"
    by (simp add: mem_generate_master_secret_def fill_cell_def via_def outside_def st_bind_def alloc_def load_def store_def
        nth_append list_update_append)
  then have "mem_ffi_generate_master_secret R s = (Ok bs, s\<lparr> outer := g, cells := cells s @ [bs, bs, zeros bs] \<rparr>)"
    unfolding mem_ffi_generate_master_secret_def
    by (simp add: st_bind_def [of "st_map_err _ _"] st_map_err_Ok [of "mem_generate_master_secret R"] handed_out del: memory_simps)
  then show "generate_master_secret R (outer s) = (Ok secret, outer s')" "cells s' = cells s @ [secret, secret, replicate 32 0]"
    using assms f fill_random_length [OF f] by (auto simp: generate_master_secret_def zeros_def)
qed

text \<open>
  C33: not every copy of a master secret is wiped. The phrase handed in, the decoded entropy and the
  \<open>Zeroizing\<close> copies are zeros after the call. But an array is \<open>Copy\<close>, so the variable \<open>out\<close> in \<open>recovery.rs\<close> and the
  variable \<open>secret\<close> that the binding layer shadows by its \<open>Zeroizing\<close> namesake still hold the secret when
  their scopes end: two copies after \<open>phrase_to_secret\<close> and \<open>generate_master_secret\<close>, one after
  \<open>Vault::from_recovery_phrase\<close>, where everything else but the subkeys of the vault is wiped.
\<close>

theorem master_secret_copies_remain:
  assumes "a < length (cells s)"
  shows "(mem_ffi_phrase_to_secret B a s = (Ok secret, s1) \<longrightarrow>
      ffi_phrase_to_secret B (as_str (cells s ! a)) = Ok secret \<and>
      cells s1 = (cells s)[a := zeros (cells s ! a)] @ [replicate 32 0, secret, secret, replicate 32 0]) \<and>
    (mem_ffi_generate_master_secret R s = (Ok secret, s1) \<longrightarrow>
      ffi_generate_master_secret R (outer s) = (Ok secret, outer s1) \<and> cells s1 = cells s @ [secret, secret, replicate 32 0]) \<and>
    (mem_Ffi_Vault_from_recovery_phrase B H E a s = (Ok mv, s2) \<longrightarrow>
      (\<exists>master v. phrase_to_secret B (as_str (cells s ! a)) = Ok master \<and>
         Ffi_Vault_from_recovery_phrase B H E (as_str (cells s ! a)) = Ok \<lparr> inner = v \<rparr> \<and>
         vault_in s2 (mem_inner mv) v \<and> cells s2 ! (length (cells s) + 1) = master \<and>
         all_wiped (touched a s s2 - {length (cells s) + 1, wrap_key_at (mem_inner mv), metadata_key_at (mem_inner mv)}) s2))"
proof (intro conjI impI)
  assume "mem_ffi_phrase_to_secret B a s = (Ok secret, s1)"
  from mem_ffi_phrase_to_secret_Ok [OF assms this]
  show "ffi_phrase_to_secret B (as_str (cells s ! a)) = Ok secret"
    "cells s1 = (cells s)[a := zeros (cells s ! a)] @ [replicate 32 0, secret, secret, replicate 32 0]" .
next
  assume "mem_ffi_generate_master_secret R s = (Ok secret, s1)"
  from mem_ffi_generate_master_secret_Ok [OF this]
  show "ffi_generate_master_secret R (outer s) = (Ok secret, outer s1)" "cells s1 = cells s @ [secret, secret, replicate 32 0]"
    by (simp_all add: ffi_generate_master_secret_def st_bind_def st_map_err_apply map_err_def)
next
  assume "mem_Ffi_Vault_from_recovery_phrase B H E a s = (Ok mv, s2)"
  from mem_Ffi_Vault_from_recovery_phrase_Ok [OF assms this] show
    "\<exists>master v. phrase_to_secret B (as_str (cells s ! a)) = Ok master \<and>
       Ffi_Vault_from_recovery_phrase B H E (as_str (cells s ! a)) = Ok \<lparr> inner = v \<rparr> \<and>
       vault_in s2 (mem_inner mv) v \<and> cells s2 ! (length (cells s) + 1) = master \<and>
       all_wiped (touched a s s2 - {length (cells s) + 1, wrap_key_at (mem_inner mv), metadata_key_at (mem_inner mv)}) s2" .
qed

theorem master_secret_copies_remain_witness:
  "\<exists>phrase s1. mem_ffi_phrase_to_secret ref_bip39 0 \<lparr> outer = (0 :: nat), cells = [as_bytes phrase] \<rparr> = (Ok (replicate 32 3), s1) \<and>
     cells s1 ! 0 = replicate (length phrase) 0 \<and> cells s1 ! 3 = replicate 32 3"
proof (rule phrase_roundtrip [OF ref_bip39_correct length_replicate])
  fix phrase
  assume ph: "phrase_to_secret ref_bip39 phrase = Ok (replicate 32 3)"
  let ?s = "\<lparr> outer = (0 :: nat), cells = [as_bytes phrase] \<rparr>"
  have in0: "0 < length (cells ?s)" by simp
  obtain s1 where run: "mem_ffi_phrase_to_secret ref_bip39 0 ?s = (Ok (replicate 32 3), s1)"
    using mem_ffi_phrase_to_secret_run [OF in0, of ref_bip39] ph by simp
  have "cells s1 = [zeros (as_bytes phrase), replicate 32 0, replicate 32 3, replicate 32 3, replicate 32 0]"
    using master_secret_copies_remain [OF in0, of ref_bip39 "replicate 32 3" s1 ref_rng ref_hkdf ref_ed] run by simp
  then show ?thesis using run by (intro exI [of _ phrase] exI [of _ s1]) (simp add: zeros_def as_bytes_def)
qed

end
