(* ===== verification/Filum_Data_Keys.thy ===== *)
theory Filum_Data_Keys
  imports Filum_Secrets Filum_Blob_Guarantees
begin

text \<open>
  The data keys of blobs in memory (\<open>blob.rs\<close>). The four codecs again, with the buffers that hold key
  material as in \<open>Filum_Secrets\<close>: the data key drawn or unwrapped, the decrypted key before it is copied,
  and the wrapping key the caller lends. Identifiers, associated data, nonces, ciphertext and plaintext are
  values, as before, and so are the cipher objects of the crates.
\<close>

subsection \<open>Definitions\<close>

text \<open>A scope and outside code in the I/O monad of the file codecs.\<close>

definition io_zeroizing :: "nat \<Rightarrow> ('s mem, 'e, 'a) io \<Rightarrow> ('s mem, 'e, 'a) io" where
  "io_zeroizing a m s = map_option (\<lambda>(r, s'). (r, wipe a s')) (m s)"

definition io_outside :: "('s, 'e, 'a) io \<Rightarrow> ('s mem, 'e, 'a) io" where
  "io_outside m s = map_option (\<lambda>(r, t). (r, s\<lparr> outer := t \<rparr>)) (m (outer s))"

definition mem_unwrap_data_key ::
  "('e, 'd) aead_lib \<Rightarrow> bytes \<Rightarrow> nat \<Rightarrow> bytes \<Rightarrow> ('s mem, FilumCryptoError, nat) st" where
  "mem_unwrap_data_key A wrapped wrapping_key aad =
     (if length wrapped \<noteq> WRAPPED_KEY_LEN then st_lift (Err Aead)
      else
        st_bind (st_lift (split_at wrapped 12)) (\<lambda>(wrap_iv_bytes, wrapped_ct).
        st_bind (st_lift (copy_from_slice (replicate 12 0) wrap_iv_bytes)) (\<lambda>wrap_iv.
        st_bind (load wrapping_key) (\<lambda>wk.
        st_bind (st_lift (ok_or Aead (gcm_decrypt A wk wrap_iv wrapped_ct aad))) (\<lambda>vec.
        st_bind (alloc vec) (\<lambda>data_key_vec. zeroizing data_key_vec (
        st_bind (load data_key_vec) (\<lambda>v.
        if length v \<noteq> 32 then st_lift (Err Aead)
        else
          st_bind (alloc (replicate 32 0)) (\<lambda>data_key. zeroizing_moved data_key (
          st_bind (copy_cell data_key data_key_vec) (\<lambda>_.
          st_lift (Ok data_key))))))))))))"

text \<open>
  The opening of both encoders after the data key has its buffer: draw the data key and the nonce
  prefix, wrap the data key.
\<close>

definition mem_new_blob_keys ::
  "('s \<Rightarrow> 'r) \<Rightarrow> ('r \<Rightarrow> 's \<Rightarrow> 's) \<Rightarrow> ('e, 'd) aead_lib \<Rightarrow> 'r rng \<Rightarrow> nat \<Rightarrow> nat \<Rightarrow> string
     \<Rightarrow> ('s mem, FilumCryptoError, bytes \<times> bytes) st" where
  "mem_new_blob_keys get put A R data_key wrapping_key blob_id =
     st_bind (fill_cell get put R data_key) (\<lambda>_.
     st_bind (outside (via get put (fill_random R (replicate NONCE_PREFIX_LEN 0)))) (\<lambda>nonce_prefix.
     st_bind (st_lift (blob_wrap_aad blob_id VERSION nonce_prefix chunk_size_be)) (\<lambda>wrap_aad.
     st_bind (load data_key) (\<lambda>dk.
     st_bind (load wrapping_key) (\<lambda>wk.
     st_bind (outside (via get put (wrap_data_key A R dk wk wrap_aad))) (\<lambda>wrapped.
     st_lift (Ok (nonce_prefix, wrapped))))))))"

definition mem_encrypt_chunked ::
  "('e, 'd) aead_lib \<Rightarrow> 'r rng \<Rightarrow> bytes \<Rightarrow> nat \<Rightarrow> string \<Rightarrow> ('r mem, FilumCryptoError, bytes) st" where
  "mem_encrypt_chunked A R plaintext wrapping_key blob_id =
     st_bind (st_lift (blob_segment_aad blob_id)) (\<lambda>seg_aad.
     st_bind (alloc (replicate 32 0)) (\<lambda>data_key. zeroizing data_key (
     st_bind (mem_new_blob_keys id (\<lambda>g _. g) A R data_key wrapping_key blob_id) (\<lambda>(nonce_prefix, wrapped).
     st_bind (load data_key) (\<lambda>dk.
     st_lift (
       let out = write_header [] wrapped nonce_prefix;
           enc = enc_from_aead A dk nonce_prefix;
           full_chunks = length plaintext div CHUNK_SIZE
       in
         res_bind (encrypt_full_chunks A seg_aad plaintext [0..<full_chunks] enc out) (\<lambda>(enc, out).
         res_bind (slice plaintext (full_chunks * CHUNK_SIZE) (length plaintext)) (\<lambda>msg.
         res_bind (ok_or Aead (enc_last A enc msg seg_aad)) (\<lambda>ct.
         Ok (out @ ct))))))))))"

text \<open>The header parsing of both decoders; the data key comes back as a buffer the caller owns.\<close>

definition mem_open_header ::
  "('e, 'd) aead_lib \<Rightarrow> bytes \<Rightarrow> nat \<Rightarrow> string \<Rightarrow> ('s mem, FilumCryptoError, bytes \<times> nat \<times> nat) st" where
  "mem_open_header A header wrapping_key blob_id =
     st_bind (st_lift (slice header (1 + WRAPPED_KEY_LEN) (1 + WRAPPED_KEY_LEN + NONCE_PREFIX_LEN))) (\<lambda>src.
     st_bind (st_lift (copy_from_slice (replicate NONCE_PREFIX_LEN 0) src)) (\<lambda>nonce_prefix.
     let cs_off = 1 + WRAPPED_KEY_LEN + NONCE_PREFIX_LEN in
     st_bind (st_lift (slice header cs_off (cs_off + 4))) (\<lambda>cs_bytes.
     st_bind (st_lift (u32_from_be_slice cs_bytes)) (\<lambda>cs.
     let chunk_size = unat cs in
     if chunk_size \<noteq> CHUNK_SIZE then st_lift (Err Aead)
     else
       st_bind (st_lift (blob_wrap_aad blob_id VERSION nonce_prefix chunk_size_be)) (\<lambda>wrap_aad.
       st_bind (st_lift (slice header 1 (1 + WRAPPED_KEY_LEN))) (\<lambda>wrapped.
       st_bind (mem_unwrap_data_key A wrapped wrapping_key wrap_aad) (\<lambda>data_key.
       st_lift (Ok (nonce_prefix, data_key, chunk_size)))))))))"

definition mem_decrypt_chunked ::
  "('e, 'd) aead_lib \<Rightarrow> bytes \<Rightarrow> nat \<Rightarrow> string \<Rightarrow> ('s mem, FilumCryptoError, bytes) st" where
  "mem_decrypt_chunked A framed wrapping_key blob_id =
     st_bind (st_lift (blob_segment_aad blob_id)) (\<lambda>seg_aad.
     if length framed < HEADER_LEN then st_lift (Err Aead)
     else
       st_bind (st_lift (index framed 0)) (\<lambda>version.
       if version \<noteq> VERSION then st_lift (Err Aead)
       else
         st_bind (mem_open_header A framed wrapping_key blob_id) (\<lambda>(nonce_prefix, data_key, chunk_size). zeroizing data_key (
         st_bind (load data_key) (\<lambda>dk.
         let ct_chunk = chunk_size + 16;
             dec = dec_from_aead A dk nonce_prefix
         in
           st_lift (
             res_bind (slice framed HEADER_LEN (length framed)) (\<lambda>body.
             let it = chunks ct_chunk body in
             if it = [] then Err Aead
             else decrypt_segments A seg_aad dec [] it)))))))"

definition mem_encrypt_file_chunked ::
  "('e, 'd) aead_lib \<Rightarrow> 'r rng \<Rightarrow> os \<Rightarrow> path \<Rightarrow> path \<Rightarrow> nat \<Rightarrow> string
     \<Rightarrow> ('r world mem, FilumCryptoError, unit) io" where
  "mem_encrypt_file_chunked A R os input output wrapping_key blob_id =
     io_bind (io_st (st_lift (blob_segment_aad blob_id))) (\<lambda>seg_aad.
     io_bind (io_st (alloc (replicate 32 0))) (\<lambda>data_key. io_zeroizing data_key (
     io_bind (io_st (mem_new_blob_keys rng_state (\<lambda>g w. w\<lparr> rng_state := g \<rparr>) A R data_key wrapping_key blob_id))
       (\<lambda>(nonce_prefix, wrapped).
     io_bind (io_st (outside (st_map_err (\<lambda>_. Io) (file_open os input)))) (\<lambda>fin.
     io_bind (io_st (outside (st_map_err (\<lambda>_. Io) (file_create os output)))) (\<lambda>fout.
     io_bind (io_st (load data_key)) (\<lambda>dk.
     io_outside (\<lambda>w. map_option (\<lambda>(r, s). (r, drop_writer os s))
       (encrypt_stream A os seg_aad dk nonce_prefix wrapped fin (fout, w))))))))))"

definition mem_decrypt_file_chunked ::
  "('e, 'd) aead_lib \<Rightarrow> 'r rng \<Rightarrow> os \<Rightarrow> path \<Rightarrow> path \<Rightarrow> nat \<Rightarrow> string
     \<Rightarrow> ('r world mem, FilumCryptoError, unit) io" where
  "mem_decrypt_file_chunked A R os input output wrapping_key blob_id =
     io_bind (io_st (st_lift (blob_segment_aad blob_id))) (\<lambda>seg_aad.
     io_bind (io_st (outside (st_map_err (\<lambda>_. Io) (file_open os input)))) (\<lambda>fin.
     io_bind (io_st (outside (read_exact os fin (replicate HEADER_LEN 0)))) (\<lambda>(fin, header).
     io_bind (io_st (st_lift (index header 0))) (\<lambda>version.
     if version \<noteq> VERSION then io_st (st_lift (Err Aead))
     else
       io_bind (io_st (mem_open_header A header wrapping_key blob_id))
         (\<lambda>(nonce_prefix, data_key, chunk_size). io_zeroizing data_key (
       io_bind (io_st (load data_key)) (\<lambda>dk.
       let ct_chunk = chunk_size + 16;
           dec = dec_from_aead A dk nonce_prefix
       in
         io_bind (io_st (outside (with_rng (sibling_temp_path R output)))) (\<lambda>tmp.
         io_outside (\<lambda>w. map_option (\<lambda>(r, w1).
             (r, drop_cleanup os \<lparr> cleanup_path = tmp, armed = (r \<noteq> Ok ()) \<rparr> w1))
           (decrypt_publish A os tmp output seg_aad fin dec ct_chunk w))))))))))"

subsection \<open>Parts of a state\<close>

text \<open>Reading and replacing a part of a state.\<close>

locale state_part =
  fixes get :: "'s \<Rightarrow> 'r" and put :: "'r \<Rightarrow> 's \<Rightarrow> 's"
  assumes get_put: "get (put g s) = g" and put_put: "put g (put h s) = put g s" and put_get: "put (get s) s = s"
begin

lemma via_bind: "via get put (st_bind m f) s = st_bind (via get put m) (\<lambda>x. via get put (f x)) s"
  by (simp add: via_def st_bind_def get_put put_put split: prod.split outcome.split)

lemma via_lift: "via get put (st_lift r) s = (r, s)"
  by (simp add: via_def put_get)

end

interpretation whole_state: state_part id "\<lambda>g _. g"
  by unfold_locales simp_all

interpretation world_rng: state_part rng_state "\<lambda>g w. w\<lparr> rng_state := g \<rparr>"
  by unfold_locales simp_all

lemma via_parts: "via id (\<lambda>g _. g) m = m" "via rng_state (\<lambda>g w. w\<lparr> rng_state := g \<rparr>) m = with_rng m"
  by (simp_all add: fun_eq_iff via_def with_rng_def split: prod.split)

subsection \<open>Drawing keys\<close>

lemma st_bind_outside:
  "st_bind (outside m) f s =
     (case m (outer s) of (r, t) \<Rightarrow>
        (case r of Ok x \<Rightarrow> f x (s\<lparr> outer := t \<rparr>) | Err e \<Rightarrow> (Err e, s\<lparr> outer := t \<rparr>) | Panic \<Rightarrow> (Panic, s\<lparr> outer := t \<rparr>)))"
  by (simp add: st_bind_def outside_def split: prod.split)

lemma st_bind_fill_cell:
  "st_bind (fill_cell get put R a) f s =
     (case via get put (fill_random R (cells s ! a)) (outer s) of (r, t) \<Rightarrow>
        (case r of Ok x \<Rightarrow> f () (s\<lparr> outer := t, cells := (cells s)[a := x] \<rparr>)
         | Err e \<Rightarrow> (Err e, s\<lparr> outer := t \<rparr>) | Panic \<Rightarrow> (Panic, s\<lparr> outer := t \<rparr>)))"
  by (simp add: fill_cell_def st_bind_def outside_def load_def store_def split: prod.split outcome.split)

text \<open>What the drawing of keys returns, and that it touches no buffer but that of the data key.\<close>

definition keys_drawn ::
  "bytes \<Rightarrow> nat \<Rightarrow> 's mem \<Rightarrow> (bytes \<times> bytes \<times> bytes \<times> bytes) Result \<times> 's \<Rightarrow> (bytes \<times> bytes) Result \<times> 's mem \<Rightarrow> bool" where
  "keys_drawn sa d s p q \<longleftrightarrow> (\<exists>k. length k = 32 \<and> snd q = s\<lparr> outer := snd p, cells := (cells s)[d := k] \<rparr> \<and>
     (case fst p of Ok (sa', dk, np, wp) \<Rightarrow> sa' = sa \<and> dk = k \<and> fst q = Ok (np, wp)
      | Err e \<Rightarrow> fst q = Err e | Panic \<Rightarrow> fst q = Panic))"

lemma keys_drawnE:
  assumes "keys_drawn sa d s (r, t) q"
  obtains (drawn) dk np wp where "r = Ok (sa, dk, np, wp)" "length dk = 32"
      "q = (Ok (np, wp), s\<lparr> outer := t, cells := (cells s)[d := dk] \<rparr>)"
    | (error) e k where "r = Err e" "length k = 32" "q = (Err e, s\<lparr> outer := t, cells := (cells s)[d := k] \<rparr>)"
    | (panic) k where "r = Panic" "length k = 32" "q = (Panic, s\<lparr> outer := t, cells := (cells s)[d := k] \<rparr>)"
  using assms unfolding keys_drawn_def by (cases q; cases r) auto

lemma keys_drawn_run:
  assumes "state_part get put" "d < length (cells s)" "a \<noteq> d" "length (cells s ! d) = 32" "blob_segment_aad i = Ok sa"
  shows "keys_drawn sa d s (via get put (new_blob_keys A R (cells s ! a) i) (outer s)) (mem_new_blob_keys get put A R d a i s)"
proof -
  note bind = state_part.via_bind [OF assms(1)] state_part.via_lift [OF assms(1)]
  have same: "s\<lparr> cells := (cells s)[d := cells s ! d] \<rparr> = s" by simp
  have eq: "via get put (fill_random R (cells s ! d)) (outer s) = via get put (fill_random R (replicate 32 0)) (outer s)"
    unfolding via_def fill_random_def assms(4) length_replicate by simp
  obtain r t where f: "via get put (fill_random R (replicate 32 0)) (outer s) = (r, t)" by (metis surj_pair)
  obtain r2 t2 where f2: "via get put (fill_random R (replicate 7 0)) t = (r2, t2)" by (metis surj_pair)
  show ?thesis
  proof (cases r)
    case (Ok k)
    have k: "length k = 32" using f Ok by (auto simp: via_def dest: fill_random_length split: prod.splits)
    show ?thesis
      unfolding keys_drawn_def
      using assms(2,3,5) f f2 Ok k eq
      by (intro exI [of _ k])
        (simp add: new_blob_keys_def mem_new_blob_keys_def st_bind_fill_cell st_bind_outside bind st_bind_def [of "via _ _ _"]
          split: outcome.split prod.split)
  qed (use assms f eq same in \<open>auto simp: keys_drawn_def new_blob_keys_def mem_new_blob_keys_def st_bind_fill_cell bind
        st_bind_def [of "via _ _ _"] intro!: exI [of _ "cells s ! d"]\<close>)
qed

subsection \<open>Scopes that leave nothing behind\<close>

text \<open>
  A run with memory beside the run without: the same result, the same effect outside, every buffer that
  was there as it was, and every new buffer wiped.
\<close>

definition scrubs :: "'s mem \<Rightarrow> ('e, 'a) outcome \<times> 's \<Rightarrow> ('e, 'a) outcome \<times> 's mem \<Rightarrow> bool" where
  "scrubs s p q \<longleftrightarrow> fst q = fst p \<and> (\<exists>bs. snd q = s\<lparr> outer := snd p, cells := cells s @ map zeros bs \<rparr>)"

lemma mem_updates: "s\<lparr> cells := c, outer := t \<rparr> = s\<lparr> outer := t, cells := c \<rparr>"
  by simp

lemma scrubs_id: "scrubs s (r, outer s) (r, s)"
  unfolding scrubs_def by (auto intro!: exI [of _ "[]"])

lemma scrubs_outer: "scrubs s (r, t) (r, s\<lparr> outer := t \<rparr>)"
  unfolding scrubs_def by (auto intro!: exI [of _ "[]"])

lemma scrubs_from_outer [simp]: "scrubs (s\<lparr> outer := t \<rparr>) = scrubs s"
  by (simp add: scrubs_def fun_eq_iff)

lemma scrubs_iff: "scrubs s (r, t) q \<longleftrightarrow> (\<exists>bs. q = (r, s\<lparr> outer := t, cells := cells s @ map zeros bs \<rparr>))"
  by (cases q) (auto simp: scrubs_def)

lemma scrubs_wiped:
  assumes "length k = 32"
  shows "scrubs s (r, t) (r, wipe (length (cells s)) (s\<lparr> outer := t, cells := cells s @ [k] \<rparr>))"
  unfolding scrubs_def by (auto simp: wipe_def nth_append list_update_append intro!: exI [of _ "[k]"])

lemma scrubs_unwrapped:
  "scrubs s (r, t) (r, wipe (Suc (length (cells s))) (s\<lparr> outer := t, cells := cells s @ [zeros k, k] \<rparr>))"
  unfolding scrubs_def by (auto simp: wipe_def nth_append list_update_append intro!: exI [of _ "[k, k]"])

lemma mem_unwrap_data_key_run:
  "case unwrap_data_key A wrapped (cells s ! a) aad of
      Ok dk \<Rightarrow> mem_unwrap_data_key A wrapped a aad s =
        (Ok (Suc (length (cells s))), s\<lparr> cells := cells s @ [zeros dk, dk] \<rparr>) \<and> length dk = 32
    | Err e \<Rightarrow> scrubs s (Err e :: nat Result, outer s) (mem_unwrap_data_key A wrapped a aad s)
    | Panic \<Rightarrow> False"
proof (cases "length wrapped = 60")
  case False
  then show ?thesis by (simp add: unwrap_data_key_def mem_unwrap_data_key_def scrubs_id)
next
  case True
  show ?thesis
  proof (cases "gcm_decrypt A (cells s ! a) (take 12 wrapped) (drop 12 wrapped) aad")
    case None
    then show ?thesis using True by (simp add: unwrap_data_key_eq mem_unwrap_data_key_def slice_simps scrubs_id)
  next
    case (Some k)
    then have run: "mem_unwrap_data_key A wrapped a aad s =
        (if length k = 32 then (Ok (Suc (length (cells s))), s\<lparr> cells := cells s @ [zeros k, k] \<rparr>)
         else (Err Aead, s\<lparr> cells := cells s @ [zeros k] \<rparr>))"
      using True by (simp add: mem_unwrap_data_key_def slice_simps zeroizing_def zeroizing_moved_def wipe_def nth_append
          list_update_append copy_cell_eq)
    then show ?thesis
      using True Some by (auto simp: unwrap_data_key_eq scrubs_def intro!: exI [of _ "[k]"])
  qed
qed

lemma mem_open_header_run:
  assumes "72 \<le> length header" "valid_context i"
  shows "case open_header A header (cells s ! a) i of
      Ok (np, dk, cs) \<Rightarrow> mem_open_header A header a i s =
        (Ok (np, Suc (length (cells s)), cs), s\<lparr> cells := cells s @ [zeros dk, dk] \<rparr>) \<and> length dk = 32
    | Err e \<Rightarrow> scrubs s (Err e :: (bytes \<times> nat \<times> nat) Result, outer s) (mem_open_header A header a i s)
    | Panic \<Rightarrow> False"
proof -
  let ?w = "take 60 (drop 1 header)" and ?np = "take 7 (drop 61 header)"
  note unwrap = mem_unwrap_data_key_run [where A = A and wrapped = ?w and s = s and a = a and aad = "wrap_aad_bytes i ?np"]
  have "blob_wrap_aad i VERSION ?np chunk_size_be = Ok (wrap_aad_bytes i ?np)"
    using assms by (simp add: blob_wrap_aad_eq wrap_aad_bytes_def)
  then have "open_header A header (cells s ! a) i = (if unat (from_be_bytes (take 4 (drop 68 header)) :: u32) \<noteq> CHUNK_SIZE then Err Aead
      else res_bind (unwrap_data_key A ?w (cells s ! a) (wrap_aad_bytes i ?np)) (\<lambda>dk. Ok (?np, dk, CHUNK_SIZE)))"
    and "mem_open_header A header a i s = (if unat (from_be_bytes (take 4 (drop 68 header)) :: u32) \<noteq> CHUNK_SIZE then (Err Aead, s)
      else st_bind (mem_unwrap_data_key A ?w a (wrap_aad_bytes i ?np)) (\<lambda>d. st_lift (Ok (?np, d, CHUNK_SIZE))) s)"
    using assms(1) by (simp_all add: open_header_def mem_open_header_def slice_simps u32_from_be_slice_def Let_def)
  then show ?thesis
  proof (cases "unat (from_be_bytes (take 4 (drop 68 header)) :: u32) = CHUNK_SIZE")
    case True
    with \<open>open_header A header _ i = _\<close> \<open>mem_open_header A header a i s = _\<close> unwrap show ?thesis
      by (cases "unwrap_data_key A ?w (cells s ! a) (wrap_aad_bytes i ?np)") (auto simp: scrubs_iff st_bind_def)
  qed (simp add: scrubs_id)
qed

subsection \<open>The codecs in memory\<close>

lemma mem_encrypt_chunked_scrubs:
  assumes "a < length (cells s)"
  shows "scrubs s (encrypt_chunked A R pt (cells s ! a) i (outer s)) (mem_encrypt_chunked A R pt a i s)"
proof (cases "blob_segment_aad i")
  case (Ok sa)
  let ?n = "length (cells s)" and ?s = "s\<lparr> cells := cells s @ [replicate 32 0] \<rparr>"
  obtain k g where keys: "new_blob_keys A R (cells s ! a) i (outer s) = (k, g)" by (metis surj_pair)
  have "keys_drawn sa ?n ?s (k, g) (mem_new_blob_keys id (\<lambda>g _. g) A R ?n a i ?s)"
    using keys_drawn_run [OF whole_state.state_part_axioms, of ?n ?s a i sa A R] assms Ok keys
    by (simp add: via_parts nth_append)
  then show ?thesis
    by (cases rule: keys_drawnE)
      (simp_all add: encrypt_chunked_def mem_encrypt_chunked_def Ok keys st_bind_def [of "new_blob_keys _ _ _ _"]
        st_bind_def [of "mem_new_blob_keys _ _ _ _ _ _ _"] zeroizing_def scrubs_wiped nth_append list_update_append)
next
qed (simp_all add: encrypt_chunked_def mem_encrypt_chunked_def new_blob_keys_def st_bind_def scrubs_id)

lemma mem_decrypt_chunked_scrubs:
  "scrubs s (decrypt_chunked A framed (cells s ! a) i, outer s) (mem_decrypt_chunked A framed a i s)"
proof (cases "valid_context i \<and> 72 \<le> length framed \<and> hd framed = VERSION")
  case True
  then have idx: "index framed 0 = (Ok VERSION :: u8 Result)" by (cases framed) (auto simp: index_def)
  have eq: "decrypt_chunked A framed (cells s ! a) i = res_bind (open_header A framed (cells s ! a) i) (\<lambda>(np, dk, cs).
      let it = chunks (cs + 16) (drop 72 framed) in
      if it = [] then Err Aead else decrypt_segments A (seg_aad_bytes i) (dec_from_aead A dk np) [] it)"
    using True idx unfolding seg_aad_bytes_def
    by (simp add: decrypt_chunked_def blob_segment_aad_eq slice_simps Let_def split_def)
  have run: "mem_decrypt_chunked A framed a i s =
      st_bind (mem_open_header A framed a i) (\<lambda>(np, d, cs). zeroizing d (st_bind (load d) (\<lambda>dk. st_lift (
        let it = chunks (cs + 16) (drop 72 framed) in
        if it = [] then Err Aead else decrypt_segments A (seg_aad_bytes i) (dec_from_aead A dk np) [] it)))) s"
    using True idx unfolding seg_aad_bytes_def
    by (simp add: mem_decrypt_chunked_def blob_segment_aad_eq slice_simps Let_def split_def)
  show ?thesis
    using mem_open_header_run [where header = framed and i = i and A = A and s = s and a = a] True
      scrubs_unwrapped [where s = s and t = "outer s"]
    unfolding eq run
    by (cases "open_header A framed (cells s ! a) i")
      (auto simp: st_bind_def [of "mem_open_header _ _ _ _"] zeroizing_def scrubs_iff nth_append)
next
  case False
  then show ?thesis 
    by (cases framed) (auto simp: decrypt_chunked_def mem_decrypt_chunked_def blob_segment_aad_eq scrubs_id index_def)
qed

subsection \<open>The codecs on files\<close>

lemma io_load [simp]: "io_bind (io_st (load a)) f s = f (cells s ! a) s"
  by (simp add: io_bind_def io_st_def)

lemma io_alloc [simp]: "io_bind (io_st (alloc b)) f s = f (length (cells s)) (s\<lparr> cells := cells s @ [b] \<rparr>)"
  by (simp add: io_bind_def io_st_def alloc_def)

lemma io_lift [simp]:
  "io_bind (io_st (st_lift r)) f s = (case r of Ok x \<Rightarrow> f x s | Err e \<Rightarrow> Some (Err e, s) | Panic \<Rightarrow> Some (Panic, s))"
  by (cases r) (simp_all add: io_bind_def io_st_def)

lemma io_outside_bind:
  "(\<And>x t. g x (s\<lparr> outer := t \<rparr>) = io_outside (f x) (s\<lparr> outer := t \<rparr>)) \<Longrightarrow>
     io_bind (io_st (outside m)) g s = io_outside (io_bind (io_st m) f) s"
  by (simp add: io_bind_def io_st_def outside_def io_outside_def split: prod.split outcome.split)

lemma scrubs_outside:
  fixes m :: "('s, 'e, 'a) io"
  assumes "\<And>(r :: ('e, 'a) outcome) t. scrubs s (r, t) (r, wipe a (s'\<lparr> outer := t \<rparr>))"
  shows "rel_option (scrubs s) (m (outer s')) (io_zeroizing a (io_outside m) s')"
  using assms by (cases "m (outer s')") (auto simp: io_zeroizing_def io_outside_def)

lemma mem_encrypt_file_scrubs:
  assumes "a < length (cells s)"
  shows "rel_option (scrubs s) (encrypt_file_chunked A R os input output (cells s ! a) i (outer s))
    (mem_encrypt_file_chunked A R os input output a i s)"
proof (cases "blob_segment_aad i")
  case (Ok sa)
  let ?n = "length (cells s)" and ?s = "s\<lparr> cells := cells s @ [replicate 32 0] \<rparr>"
  obtain k w where keys: "with_rng (new_blob_keys A R (cells s ! a) i) (outer s) = (k, w)" by (metis surj_pair)
  have "keys_drawn sa ?n ?s (k, w) (mem_new_blob_keys rng_state (\<lambda>g w. w\<lparr> rng_state := g \<rparr>) A R ?n a i ?s)"
    using keys_drawn_run [OF world_rng.state_part_axioms, of ?n ?s a i sa A R] assms Ok keys
    by (simp add: via_parts nth_append)
  then show ?thesis
  proof (cases rule: keys_drawnE)
    case (drawn dk np wp)
    let ?rest = "io_bind (io_st (st_map_err (\<lambda>_. Io) (file_open os input))) (\<lambda>fin.
      io_bind (io_st (st_map_err (\<lambda>_. Io) (file_create os output))) (\<lambda>fout w.
      map_option (\<lambda>(r, s). (r, drop_writer os s)) (encrypt_stream A os sa dk np wp fin (fout, w))))"
    let ?s1 = "s\<lparr> outer := w, cells := cells s @ [dk] \<rparr>"
    have "encrypt_file_chunked A R os input output (cells s ! a) i (outer s) = ?rest (outer ?s1)"
      using drawn(1) keys by (simp add: encrypt_file_chunked_def io_bind_def [of "io_st (with_rng _)"] io_st_def [of "with_rng _"])
    moreover have "io_bind (io_st (outside (st_map_err (\<lambda>_. Io) (file_open os input)))) (\<lambda>fin.
        io_bind (io_st (outside (st_map_err (\<lambda>_. Io) (file_create os output)))) (\<lambda>fout.
        io_bind (io_st (load ?n)) (\<lambda>dk.
        io_outside (\<lambda>w. map_option (\<lambda>(r, s). (r, drop_writer os s)) (encrypt_stream A os sa dk np wp fin (fout, w)))))) ?s1 =
      io_outside ?rest ?s1"
      by (rule io_outside_bind, rule io_outside_bind) (simp add: nth_append)
    then have "mem_encrypt_file_chunked A R os input output a i s = io_zeroizing ?n (io_outside ?rest) ?s1"
      using drawn(3)
      by (simp add: mem_encrypt_file_chunked_def Ok io_zeroizing_def io_bind_def [of "io_st (mem_new_blob_keys _ _ _ _ _ _ _)"]
          io_st_def [of "mem_new_blob_keys _ _ _ _ _ _ _"])
    moreover have "scrubs s (r :: unit Result, t) (r, wipe ?n (?s1\<lparr> outer := t \<rparr>))" for r t
      using scrubs_wiped [OF drawn(2), of s r t] by (simp add: mem_updates)
    ultimately show ?thesis using scrubs_outside [of s ?n ?s1 ?rest] by metis
  qed (use keys in \<open>simp_all add: encrypt_file_chunked_def mem_encrypt_file_chunked_def Ok io_bind_def [of "io_st (with_rng _)"]
        io_st_def [of "with_rng _"] io_bind_def [of "io_st (mem_new_blob_keys _ _ _ _ _ _ _)"]
        io_st_def [of "mem_new_blob_keys _ _ _ _ _ _ _"] io_zeroizing_def scrubs_wiped\<close>)
qed (simp_all add: encrypt_file_chunked_def mem_encrypt_file_chunked_def new_blob_keys_def with_rng_def io_bind_def io_st_def
    st_bind_def scrubs_id)

lemma mem_decrypt_opened_scrubs:
  assumes "length header = 72" "valid_context i"
  shows "rel_option (scrubs s)
    (io_bind (io_st (st_lift (open_header A header (cells s ! a) i))) (\<lambda>(np, dk, cs).
       rest (dec_from_aead A dk np) (cs + 16)) (outer s))
    (io_bind (io_st (mem_open_header A header a i)) (\<lambda>(np, d, cs). io_zeroizing d (
       io_bind (io_st (load d)) (\<lambda>dk. io_outside (rest (dec_from_aead A dk np) (cs + 16))))) s)"
proof (cases "open_header A header (cells s ! a) i")
  case (Ok x)
  obtain np dk cs where x: "x = (np, dk, cs)" by (cases x)
  let ?s = "s\<lparr> cells := cells s @ [zeros dk, dk] \<rparr>" and ?d = "Suc (length (cells s))"
  have run: "mem_open_header A header a i s = (Ok (np, ?d, cs), ?s)"
    using mem_open_header_run [where header = header and i = i and A = A and s = s and a = a] assms Ok x by simp
  have "rel_option (scrubs s) (rest (dec_from_aead A dk np) (cs + 16) (outer ?s))
      (io_zeroizing ?d (io_outside (rest (dec_from_aead A dk np) (cs + 16))) ?s)"
    by (rule scrubs_outside) (simp add: mem_updates scrubs_unwrapped)
  then show ?thesis
    using Ok x run by (simp add: io_bind_def [of "io_st (mem_open_header _ _ _ _)"] io_st_def [of "mem_open_header _ _ _ _"]
        io_zeroizing_def nth_append)
qed (use mem_open_header_run [where header = header and i = i and A = A and s = s and a = a] assms in
  \<open>auto simp: io_bind_def [of "io_st (mem_open_header _ _ _ _)"] io_st_def [of "mem_open_header _ _ _ _"] scrubs_iff\<close>)

lemma mem_decrypt_file_scrubs:
  "rel_option (scrubs s) (decrypt_file_chunked A R os input output (cells s ! a) i (outer s))
    (mem_decrypt_file_chunked A R os input output a i s)"
proof (cases "valid_context i")
  case True
  let ?rest = "\<lambda>fin dec ct. io_bind (io_st (with_rng (sibling_temp_path R output))) (\<lambda>tmp w.
    map_option (\<lambda>(r, w1). (r, drop_cleanup os \<lparr> cleanup_path = tmp, armed = (r \<noteq> Ok ()) \<rparr> w1))
      (decrypt_publish A os tmp output (seg_aad_bytes i) fin dec ct w))"
  have sa: "blob_segment_aad i = Ok (seg_aad_bytes i)" using True by (simp add: blob_segment_aad_eq seg_aad_bytes_def)
  have tail: "io_bind (io_st (outside (with_rng (sibling_temp_path R output)))) (\<lambda>tmp. io_outside (\<lambda>w.
      map_option (\<lambda>(r, w1). (r, drop_cleanup os \<lparr> cleanup_path = tmp, armed = (r \<noteq> Ok ()) \<rparr> w1))
        (decrypt_publish A os tmp output (seg_aad_bytes i) fin dec ct w))) = io_outside (?rest fin dec ct)" for fin dec ct
    by (rule ext) (rule io_outside_bind, simp)
  obtain r1 w1 where op: "st_map_err (\<lambda>_. Io) (file_open os input) (outer s) = (r1, w1)" by (metis surj_pair)
  note eqs = decrypt_file_chunked_def decrypt_open_def mem_decrypt_file_chunked_def sa Let_def tail
  show ?thesis
  proof (cases r1)
    case (Ok fin)
    obtain r2 w2 where re: "read_exact os fin (replicate 72 0) w1 = (r2, w2)" by (metis surj_pair)
    show ?thesis
    proof (cases r2)
      case 2: (Ok y)
      obtain fin2 header where y: "y = (fin2, header)" by (cases y)
      have h: "length header = 72" using read_exact_cases(4) [OF re, of fin2 header] 2 y by simp
      then have idx: "(index header 0 :: u8 Result) = Ok (hd header)" by (cases header) (simp_all add: index_def)
      have "decrypt_file_chunked A R os input output (cells s ! a) i (outer s) = (if hd header \<noteq> VERSION then Some (Err Aead, w2)
          else io_bind (io_st (st_lift (open_header A header (cells s ! a) i))) (\<lambda>(np, dk, cs). ?rest fin2 (dec_from_aead A dk np) (cs + 16)) w2)"
        using op re Ok 2 y idx by (cases "open_header A header (cells s ! a) i") (auto simp: eqs io_bind_st st_bind_def)
      moreover have "mem_decrypt_file_chunked A R os input output a i s = (if hd header \<noteq> VERSION then Some (Err Aead, s\<lparr> outer := w2 \<rparr>)
          else io_bind (io_st (mem_open_header A header a i)) (\<lambda>(np, d, cs). io_zeroizing d (
            io_bind (io_st (load d)) (\<lambda>dk. io_outside (?rest fin2 (dec_from_aead A dk np) (cs + 16))))) (s\<lparr> outer := w2 \<rparr>))"
        using op re Ok 2 y idx by (simp add: eqs io_bind_st outside_def io_st_def [of "st_lift _"])
      ultimately show ?thesis
        using mem_decrypt_opened_scrubs [where header = header and i = i and s = "s\<lparr> outer := w2 \<rparr>" and A = A and a = a and rest = "?rest fin2", OF h True]
        by (simp add: scrubs_outer)
    qed (use op re Ok in \<open>simp_all add: eqs io_bind_def io_st_def st_bind_def outside_def scrubs_outer\<close>)
  qed (use op in \<open>simp_all add: eqs io_bind_def io_st_def st_bind_def outside_def scrubs_outer\<close>)
qed (simp add: decrypt_file_chunked_def decrypt_open_def mem_decrypt_file_chunked_def blob_segment_aad_eq io_bind_def io_st_def
    st_bind_def scrubs_id)

subsection \<open>Properties\<close>

text \<open>
  C20: no data key survives a call. All four codecs, on every path (errors, failing system calls and failing
  random source included), return what they return without the account of memory and have the same effect; the
  wrapping key and all other buffers are as they were, and every buffer the call made for key material,
  the data key and the decrypted key it is copied from, is zeros when the call returns.
\<close>

theorem data_keys_wiped:
  assumes "a < length (cells s)" "b < length (cells t)"
  shows "scrubs s (encrypt_chunked A R plaintext (cells s ! a) blob_id (outer s)) (mem_encrypt_chunked A R plaintext a blob_id s) \<and>
    scrubs s (decrypt_chunked A framed (cells s ! a) blob_id, outer s) (mem_decrypt_chunked A framed a blob_id s) \<and>
    rel_option (scrubs t) (encrypt_file_chunked A R os input output (cells t ! b) blob_id (outer t))
      (mem_encrypt_file_chunked A R os input output b blob_id t) \<and>
    rel_option (scrubs t) (decrypt_file_chunked A R os input output (cells t ! b) blob_id (outer t))
      (mem_decrypt_file_chunked A R os input output b blob_id t)"
  by (intro conjI mem_encrypt_chunked_scrubs mem_decrypt_chunked_scrubs mem_encrypt_file_scrubs mem_decrypt_file_scrubs assms)

theorem data_keys_wiped_witness:
  "\<exists>g bs. mem_encrypt_chunked ref_aead ref_rng [1, 2, 3] 0 ''ab'' \<lparr> outer = 0, cells = [sample_key] \<rparr> =
     (Ok sample_blob, \<lparr> outer = g, cells = sample_key # map zeros bs \<rparr>)"
proof (rule sample_encrypted)
  let ?s = "\<lparr> outer = (0 :: nat), cells = [sample_key] \<rparr>" and ?t = "\<lparr> outer = undefined, cells = [sample_key] \<rparr>"
  fix g
  assume e: "encrypt_chunked ref_aead ref_rng [1, 2, 3] sample_key ''ab'' 0 = (Ok sample_blob, g)"
  have "0 < length (cells ?s)" "0 < length (cells ?t)" by simp_all
  from data_keys_wiped [OF this, of ref_aead ref_rng "[1, 2, 3]" "''ab''"] e show ?thesis
    by (simp add: scrubs_iff) blast
qed

end
