(* ===== verification/Filum_Lifetime.thy ===== *)
theory Filum_Lifetime
  imports Filum_Data_Keys Filum_File_Guarantees
begin

text \<open>
  The life of a vault in memory: opened over the FFI, used any number of times by the methods of
  \<open>vault.rs\<close> that work with its subkeys, dropped. The methods are those of \<open>Filum_Vault\<close> on the buffers of
  \<open>Filum_Secrets\<close>.
\<close>

subsection \<open>Methods\<close>

definition mem_Vault_encrypt_blob ::
  "('e, 'd) aead_lib \<Rightarrow> 'r rng \<Rightarrow> 'sk mem_Vault \<Rightarrow> bytes \<Rightarrow> string \<Rightarrow> ('r mem, FilumCryptoError, bytes) st" where
  "mem_Vault_encrypt_blob A R v plaintext blob_id = mem_encrypt_chunked A R plaintext (wrap_key_at v) blob_id"

definition mem_Vault_decrypt_blob ::
  "('e, 'd) aead_lib \<Rightarrow> 'sk mem_Vault \<Rightarrow> bytes \<Rightarrow> string \<Rightarrow> ('s mem, FilumCryptoError, bytes) st" where
  "mem_Vault_decrypt_blob A v framed blob_id = mem_decrypt_chunked A framed (wrap_key_at v) blob_id"

definition mem_Vault_encrypt_file_to_blob ::
  "('e, 'd) aead_lib \<Rightarrow> 'r rng \<Rightarrow> os \<Rightarrow> 'sk mem_Vault \<Rightarrow> string \<Rightarrow> string \<Rightarrow> string
     \<Rightarrow> ('r world mem, FilumCryptoError, unit) io" where
  "mem_Vault_encrypt_file_to_blob A R os v src dst blob_id =
     mem_encrypt_file_chunked A R os (components src) (components dst) (wrap_key_at v) blob_id"

definition mem_Vault_decrypt_blob_to_file ::
  "('e, 'd) aead_lib \<Rightarrow> 'r rng \<Rightarrow> os \<Rightarrow> 'sk mem_Vault \<Rightarrow> string \<Rightarrow> string \<Rightarrow> string
     \<Rightarrow> ('r world mem, FilumCryptoError, unit) io" where
  "mem_Vault_decrypt_blob_to_file A R os v src dst blob_id =
     mem_decrypt_file_chunked A R os (components src) (components dst) (wrap_key_at v) blob_id"

definition mem_Vault_encrypt_metadata_field ::
  "('e, 'd) aead_lib \<Rightarrow> 'r rng \<Rightarrow> 'sk mem_Vault \<Rightarrow> bytes \<Rightarrow> string \<Rightarrow> string
     \<Rightarrow> ('r mem, FilumCryptoError, EncryptedField) st" where
  "mem_Vault_encrypt_metadata_field A R v plaintext record_id field_name =
     st_bind (load (metadata_key_at v)) (\<lambda>key. outside (encrypt_field A R plaintext key record_id field_name))"

definition mem_Vault_decrypt_metadata_field ::
  "('e, 'd) aead_lib \<Rightarrow> 'sk mem_Vault \<Rightarrow> EncryptedField \<Rightarrow> string \<Rightarrow> string \<Rightarrow> ('s mem, FilumCryptoError, bytes) st" where
  "mem_Vault_decrypt_metadata_field A v field record_id field_name =
     st_bind (load (metadata_key_at v)) (\<lambda>key. st_lift (decrypt_field A field key record_id field_name))"

text \<open>An operation in memory within a world: it draws from the random source of the world.\<close>

definition in_world :: "('r mem, 'e, 'a) st \<Rightarrow> ('r world mem, 'e, 'a) st" where
  "in_world m s =
     (case m \<lparr> outer = rng_state (outer s), cells = cells s \<rparr> of
        (r, t) \<Rightarrow> (r, s\<lparr> outer := (outer s)\<lparr> rng_state := outer t \<rparr>, cells := cells t \<rparr>))"

subsection \<open>Each method is the method without memory\<close>

lemma vault_methods_scrub:
  assumes v: "vault_in s mv v"
  shows "scrubs s (Vault_encrypt_blob A R v plaintext blob_id (outer s)) (mem_Vault_encrypt_blob A R mv plaintext blob_id s)"
    and "scrubs s (Vault_encrypt_metadata_field A R v plaintext record_id name (outer s))
      (mem_Vault_encrypt_metadata_field A R mv plaintext record_id name s)"
proof -
  have "wrap_key_at mv < length (cells s)" "cells s ! wrap_key_at mv = wrap_key v" "cells s ! metadata_key_at mv = metadata_key v"
    using v by (simp_all add: vault_in_def)
  then show "scrubs s (Vault_encrypt_blob A R v plaintext blob_id (outer s)) (mem_Vault_encrypt_blob A R mv plaintext blob_id s)"
    "scrubs s (Vault_encrypt_metadata_field A R v plaintext record_id name (outer s))
      (mem_Vault_encrypt_metadata_field A R mv plaintext record_id name s)"
    using mem_encrypt_chunked_scrubs [of "wrap_key_at mv" s A R plaintext blob_id] scrubs_outer
    by (auto simp: Vault_encrypt_blob_def mem_Vault_encrypt_blob_def Vault_encrypt_metadata_field_def
        mem_Vault_encrypt_metadata_field_def outside_def split: prod.split)
qed

lemma vault_readers_scrub:
  assumes v: "vault_in s mv v"
  shows "scrubs s (Vault_decrypt_blob A v framed blob_id, outer s) (mem_Vault_decrypt_blob A mv framed blob_id s)"
    and "scrubs s (Vault_decrypt_metadata_field A v field record_id name, outer s)
      (mem_Vault_decrypt_metadata_field A mv field record_id name s)"
  using v mem_decrypt_chunked_scrubs [where s = s and a = "wrap_key_at mv" and A = A and framed = framed and i = blob_id]
  by (simp_all add: vault_in_def Vault_decrypt_blob_def mem_Vault_decrypt_blob_def Vault_decrypt_metadata_field_def
      mem_Vault_decrypt_metadata_field_def scrubs_id)

lemma vault_files_scrub:
  assumes v: "vault_in s mv v"
  shows "rel_option (scrubs s) (Vault_encrypt_file_to_blob A R os v src dst blob_id (outer s))
      (mem_Vault_encrypt_file_to_blob A R os mv src dst blob_id s)"
    and "rel_option (scrubs s) (Vault_decrypt_blob_to_file A R os v src dst blob_id (outer s))
      (mem_Vault_decrypt_blob_to_file A R os mv src dst blob_id s)"
  using v mem_encrypt_file_scrubs [of "wrap_key_at mv" s A R os "components src" "components dst" blob_id]
    mem_decrypt_file_scrubs [of s A R os "components src" "components dst" "wrap_key_at mv" blob_id]
  by (simp_all add: vault_in_def Vault_encrypt_file_to_blob_def mem_Vault_encrypt_file_to_blob_def
      Vault_decrypt_blob_to_file_def mem_Vault_decrypt_blob_to_file_def)

lemma in_world_scrubs:
  assumes "scrubs \<lparr> outer = rng_state (outer s), cells = cells s \<rparr> (m (rng_state (outer s)))
    (n \<lparr> outer = rng_state (outer s), cells = cells s \<rparr>)"
  shows "scrubs s (with_rng m (outer s)) (in_world n s)"
  using assms
  by (cases "m (rng_state (outer s))"; cases "n \<lparr> outer = rng_state (outer s), cells = cells s \<rparr>")
    (auto simp: scrubs_def with_rng_def in_world_def)

subsection \<open>Uses of a vault\<close>

text \<open>One call of a method, whatever its arguments, the environment and its result.\<close>

inductive vault_use ::
  "('e, 'd) aead_lib \<Rightarrow> 'r rng \<Rightarrow> 'sk mem_Vault \<Rightarrow> 'r world mem \<Rightarrow> 'r world mem \<Rightarrow> bool"
  for A R mv where
  encrypt_blob: "in_world (mem_Vault_encrypt_blob A R mv plaintext blob_id) s = (r, s') \<Longrightarrow> vault_use A R mv s s'"
| decrypt_blob: "mem_Vault_decrypt_blob A mv framed blob_id s = (r, s') \<Longrightarrow> vault_use A R mv s s'"
| encrypt_file: "mem_Vault_encrypt_file_to_blob A R os mv src dst blob_id s = Some (r, s') \<Longrightarrow> vault_use A R mv s s'"
| decrypt_file: "mem_Vault_decrypt_blob_to_file A R os mv src dst blob_id s = Some (r, s') \<Longrightarrow> vault_use A R mv s s'"
| encrypt_field: "in_world (mem_Vault_encrypt_metadata_field A R mv plaintext record_id name) s = (r, s') \<Longrightarrow> vault_use A R mv s s'"
| decrypt_field: "mem_Vault_decrypt_metadata_field A mv field record_id name s = (r, s') \<Longrightarrow> vault_use A R mv s s'"

lemma scrubs_grows: "scrubs s p (r, s') \<Longrightarrow> \<exists>bs. cells s' = cells s @ map zeros bs"
  by (cases p) (auto simp: scrubs_iff)

lemma scrubs_grows_io: "rel_option (scrubs s) x (Some (r, s')) \<Longrightarrow> \<exists>bs. cells s' = cells s @ map zeros bs"
  by (cases x) (auto intro: scrubs_grows)

lemma vault_use_grows:
  assumes "vault_use A R mv s s'" "vault_in s mv v"
  shows "\<exists>bs. cells s' = cells s @ map zeros bs"
proof -
  have inner: "vault_in \<lparr> outer = rng_state (outer s), cells = cells s \<rparr> mv v" using assms(2) by (simp add: vault_in_def)
  have sealed: "scrubs s (with_rng (Vault_encrypt_blob A R v plaintext blob_id) (outer s))
      (in_world (mem_Vault_encrypt_blob A R mv plaintext blob_id) s)"
    "scrubs s (with_rng (Vault_encrypt_metadata_field A R v plaintext blob_id name) (outer s))
      (in_world (mem_Vault_encrypt_metadata_field A R mv plaintext blob_id name) s)" for plaintext blob_id name
    by (rule in_world_scrubs, simp add: vault_methods_scrub [OF inner, simplified])+
  show ?thesis
    using assms(1)
  proof cases
    case (encrypt_blob plaintext blob_id r)
    then show ?thesis using sealed(1) [of plaintext blob_id] by (auto intro: scrubs_grows)
  next
    case (decrypt_blob framed blob_id r)
    then show ?thesis using vault_readers_scrub(1) [OF assms(2), of A framed blob_id] by (auto intro: scrubs_grows)
  next
    case (encrypt_file os src dst blob_id r)
    then show ?thesis using vault_files_scrub(1) [OF assms(2), of A R os src dst blob_id] by (auto intro: scrubs_grows_io)
  next
    case (decrypt_file os src dst blob_id r)
    then show ?thesis using vault_files_scrub(2) [OF assms(2), of A R os src dst blob_id] by (auto intro: scrubs_grows_io)
  next
    case (encrypt_field plaintext record_id name r)
    then show ?thesis using sealed(2) [of plaintext record_id name] by (auto intro: scrubs_grows)
  next
    case (decrypt_field field record_id name r)
    then show ?thesis using vault_readers_scrub(2) [OF assms(2), of A field record_id name] by (auto intro: scrubs_grows)
  qed
qed

lemma vault_in_grows: "vault_in s mv v \<Longrightarrow> cells s' = cells s @ bs \<Longrightarrow> vault_in s' mv v"
  by (simp add: vault_in_def nth_append)

lemma vault_uses_grow:
  assumes "(vault_use A R mv)\<^sup>*\<^sup>* s s'" "vault_in s mv v"
  shows "vault_in s' mv v \<and> (\<exists>bs. cells s' = cells s @ map zeros bs)"
  using assms(1)
proof (induction rule: rtranclp_induct)
  case base
  show ?case using assms(2) by (auto intro!: exI [of _ "[]"])
next
  case (step t u)
  then obtain bs where bs: "cells t = cells s @ map zeros bs" by blast
  obtain cs where "cells u = cells t @ map zeros cs" using vault_use_grows [OF step.hyps(2)] step.IH by blast
  then have "cells u = cells s @ map zeros (bs @ cs)" using bs by simp
  then show ?case using vault_in_grows [OF assms(2)] by blast
qed

subsection \<open>Properties\<close>

text \<open>
  C18: the whole life of a vault leaves no key behind. A vault is opened over the FFI and used any number of
  times, each use with any arguments, any result and any failures of the operating system and the
  random source. At every moment its two subkeys are in its own two buffers and in no other buffer
  touched since: all others are zeros, the master secret handed in included; and once the vault is dropped these
  two are zeros too.
\<close>

theorem vault_lifetime_clean:
  assumes "a < length (cells s)" "mem_Ffi_Vault_open H E a s = (Ok mv, s1)"
    and "(vault_use A R (mem_inner mv))\<^sup>*\<^sup>* s1 s2"
  shows "(\<exists>v. Ffi_Vault_open H E (cells s ! a) = Ok \<lparr> inner = v \<rparr> \<and> vault_in s2 (mem_inner mv) v) \<and>
    all_wiped (touched a s s2 - {wrap_key_at (mem_inner mv), metadata_key_at (mem_inner mv)}) s2 \<and>
    all_wiped (touched a s s2) (drop_Vault (mem_inner mv) s2)"
proof (cases rule: mem_Ffi_Vault_open_run [OF assms(1,2), case_names opened failed])
  case (opened v)
  let ?n = "length (cells s)"
  have mv: "mem_inner mv = \<lparr> wrap_key_at = Suc ?n, metadata_key_at = Suc (Suc ?n), mem_signing_key = signing_key v \<rparr>"
    using opened(2) by simp
  have "vault_in s1 (mem_inner mv) v" using opened(3) assms(1) by (simp add: mv vault_in_def nth_append)
  from vault_uses_grow [OF assms(3) this] obtain bs where v: "vault_in s2 (mem_inner mv) v"
    and s2: "cells s2 = (cells s)[a := zeros (cells s ! a)] @ [replicate 32 0, wrap_key v, metadata_key v, replicate 32 0] @ map zeros bs"
    using opened(3) by auto
  let ?t = "s2\<lparr> outer := outer s \<rparr>"
  have wiped: "all_wiped X ?t = all_wiped X s2" "touched a s ?t = touched a s s2" for X
    by (simp_all add: all_wiped_def touched_def)
  have "all_wiped (touched a s ?t - {Suc ?n, Suc (Suc ?n)}) ?t"
    by (subst image_facts(2) [OF assms(1), of ?t]) (auto simp: s2 nth_Cons numeral_2_eq_2 split: nat.splits)
  moreover have "cells (drop_Vault (mem_inner mv) ?t) = (cells s)[a := zeros (cells s ! a)] @
      map zeros ([replicate 32 0, wrap_key v, metadata_key v, replicate 32 0] @ bs)" "outer (drop_Vault (mem_inner mv) ?t) = outer s"
    using assms(1) by (simp_all add: drop_Vault_def mv s2 nth_append list_update_append)
  from kept_nothing [OF assms(1) this] have "all_wiped (touched a s s2) (drop_Vault (mem_inner mv) s2)"
    by (simp add: touched_def drop_Vault_def all_wiped_def)
  ultimately show ?thesis using opened(1) v unfolding wiped by (auto simp: mv)
qed simp

theorem vault_lifetime_clean_witness:
  "\<exists>mv s1 s2. mem_Ffi_Vault_open ref_hkdf ref_ed 0 \<lparr> outer = one_file [], cells = [replicate 32 4] \<rparr> = (Ok mv, s1) \<and>
     s2 = snd (in_world (mem_Vault_encrypt_blob ref_aead ref_rng (mem_inner mv) [1, 2, 3] ''ab'') s1) \<and>
     all_wiped (touched 0 \<lparr> outer = one_file [], cells = [replicate 32 4] \<rparr> s2) (drop_Vault (mem_inner mv) s2)"
proof (rule Vault_open_succeeds [OF ref_hkdf_limit, of ref_ed "replicate 32 4"])
  let ?s = "\<lparr> outer = one_file [], cells = [replicate 32 4] \<rparr>"
  fix v
  assume "Vault_open ref_hkdf ref_ed (replicate 32 4) = Ok v"
  then have v: "Ffi_Vault_open ref_hkdf ref_ed (cells ?s ! 0) = Ok \<lparr> inner = v \<rparr>" by (simp add: Ffi_Vault_open_Ok)
  have in0: "0 < length (cells ?s)" by simp
  obtain r s1 where run: "mem_Ffi_Vault_open ref_hkdf ref_ed 0 ?s = (r, s1)" by (metis surj_pair)
  obtain mv where r: "r = Ok mv" using mem_Ffi_Vault_open_run [OF in0 run] v by cases auto
  let ?m = "in_world (mem_Vault_encrypt_blob ref_aead ref_rng (mem_inner mv) [1, 2, 3] ''ab'') s1"
  have use: "(vault_use ref_aead ref_rng (mem_inner mv))\<^sup>*\<^sup>* s1 (snd ?m)"
    by (rule r_into_rtranclp) (rule vault_use.encrypt_blob, rule prod.collapse [symmetric])
  note clean = vault_lifetime_clean [OF in0 run [unfolded r] use]
  show ?thesis using run r clean by blast
qed

end
