(* ===== verification/Filum_Tests.thy ===== *)
theory Filum_Tests
  imports Filum_Vault
begin

text \<open>
  The unit tests of the crate, module by module, as functions of the model: an \<open>unwrap\<close> of an error or
  a failed assertion is a panic, and a test passes if it returns. Tests that draw randomness take
  the state of the random source. Running them on the model, for all random draws and all lawful
  primitives, checks the model against the expectations the authors wrote down.
\<close>

subsection \<open>Test harness\<close>

definition unwrap :: "('e, 'a) outcome \<Rightarrow> ('f, 'a) outcome" where
  "unwrap r = (case r of Ok x \<Rightarrow> Ok x | _ \<Rightarrow> Panic)"

definition st_unwrap :: "('s, 'e, 'a) st \<Rightarrow> ('s, 'f, 'a) st" where
  "st_unwrap m s = (case m s of (r, s') \<Rightarrow> (unwrap r, s'))"

text \<open>\<open>let result = f(..);\<close> keeps an error as a value; a panic of \<open>f\<close> is a panic of the test.\<close>

definition attempt :: "('s, 'e, 'a) st \<Rightarrow> ('s, 'f, ('e, 'a) outcome) st" where
  "attempt m s = (case m s of (r, s') \<Rightarrow> (if r = Panic then Panic else Ok r, s'))"

definition assert_that :: "bool \<Rightarrow> ('e, unit) outcome" where
  "assert_that b = (if b then Ok () else Panic)"

lemma unwrap_simps [simp]: "unwrap (Ok x) = Ok x" "unwrap (Err e) = Panic" "unwrap Panic = Panic"
  by (simp_all add: unwrap_def)

lemma assert_that_eq [simp]: "assert_that b = Ok () \<longleftrightarrow> b" "assert_that True = Ok ()"
  by (simp_all add: assert_that_def)

lemma st_unwrap_Ok [simp]: "m s = (Ok x, s') \<Longrightarrow> st_unwrap m s = (Ok x, s')"
  by (simp add: st_unwrap_def)

lemma attempt_eq: "m s = (r, s') \<Longrightarrow> r \<noteq> Panic \<Longrightarrow> attempt m s = (Ok r, s')"
  by (simp add: attempt_def)

subsection \<open>aad.rs\<close>

definition blob_segment_aad_golden_bytes :: "unit Result" where
  "blob_segment_aad_golden_bytes =
     res_bind (unwrap (blob_segment_aad ''abc'')) (\<lambda>aad.
     assert_that (aad = as_bytes ''filum-crypto/v2/blob'' @ [0, 0, 0, 3] @ as_bytes ''abc''))"

text \<open>The character of this test is the two bytes \<open>C3 A9\<close> in UTF-8.\<close>

definition blob_segment_aad_length_prefix_counts_bytes_not_chars :: "unit Result" where
  "blob_segment_aad_length_prefix_counts_bytes_not_chars =
     res_bind (unwrap (blob_segment_aad [CHR 0xC3, CHR 0xA9])) (\<lambda>aad.
     assert_that (aad = as_bytes ''filum-crypto/v2/blob'' @ [0, 0, 0, 2] @ as_bytes [CHR 0xC3, CHR 0xA9]))"

definition blob_wrap_aad_golden_bytes :: "unit Result" where
  "blob_wrap_aad_golden_bytes =
     res_bind (unwrap (blob_wrap_aad ''abc'' 2 [1, 2, 3, 4, 5, 6, 7] [0, 16, 0, 0])) (\<lambda>aad.
     assert_that (aad = as_bytes ''filum-crypto/v2/blob'' @ [0, 0, 0, 3] @ as_bytes ''abc'' @ [2] @
       [1, 2, 3, 4, 5, 6, 7] @ [0, 16, 0, 0]))"

definition empty_blob_id_is_invalid_context :: "unit Result" where
  "empty_blob_id_is_invalid_context =
     res_bind (assert_that (blob_segment_aad '''' = Err InvalidContext)) (\<lambda>_.
     assert_that (blob_wrap_aad '''' 2 (replicate 7 0) (replicate 4 0) = Err InvalidContext))"

definition field_aad_golden_bytes :: "unit Result" where
  "field_aad_golden_bytes =
     res_bind (unwrap (field_aad ''rec-1'' ''name'')) (\<lambda>aad.
     assert_that (aad = as_bytes ''filum-crypto/v2/field'' @ [0, 0, 0, 5] @ as_bytes ''rec-1'' @
       [0, 0, 0, 4] @ as_bytes ''name''))"

definition field_aad_length_prefixes_prevent_boundary_ambiguity :: "unit Result" where
  "field_aad_length_prefixes_prevent_boundary_ambiguity =
     res_bind (unwrap (field_aad ''ab'' ''c'')) (\<lambda>ab_c.
     res_bind (unwrap (field_aad ''a'' ''bc'')) (\<lambda>a_bc.
     assert_that (ab_c \<noteq> a_bc)))"

definition empty_field_identifiers_are_invalid_context :: "unit Result" where
  "empty_field_identifiers_are_invalid_context =
     res_bind (assert_that (field_aad '''' ''name'' = Err InvalidContext)) (\<lambda>_.
     res_bind (assert_that (field_aad ''rec-1'' '''' = Err InvalidContext)) (\<lambda>_.
     assert_that (field_aad '''' '''' = Err InvalidContext)))"

lemma be32_small:
  "u32_to_be_bytes 1 = [0, 0, 0, 1]" "u32_to_be_bytes 2 = [0, 0, 0, 2]" "u32_to_be_bytes 3 = [0, 0, 0, 3]"
  "u32_to_be_bytes 4 = [0, 0, 0, 4]" "u32_to_be_bytes 5 = [0, 0, 0, 5]"
  by (simp_all add: to_be_bytes_def upt_rec)

lemma aad_tests:
  "blob_segment_aad_golden_bytes = Ok ()" "blob_segment_aad_length_prefix_counts_bytes_not_chars = Ok ()"
  "blob_wrap_aad_golden_bytes = Ok ()" "empty_blob_id_is_invalid_context = Ok ()" "field_aad_golden_bytes = Ok ()"
  "field_aad_length_prefixes_prevent_boundary_ambiguity = Ok ()" "empty_field_identifiers_are_invalid_context = Ok ()"
  by (simp_all add: blob_segment_aad_golden_bytes_def blob_segment_aad_length_prefix_counts_bytes_not_chars_def
      blob_wrap_aad_golden_bytes_def empty_blob_id_is_invalid_context_def field_aad_golden_bytes_def
      field_aad_length_prefixes_prevent_boundary_ambiguity_def empty_field_identifiers_are_invalid_context_def
      blob_segment_aad_def blob_wrap_aad_def field_aad_def u32_try_from_def be32_small BLOB_DOMAIN_def FIELD_DOMAIN_def Let_def)

subsection \<open>auth.rs\<close>

definition sign_and_verify_round_trip :: "('sk, 'vk) ed_lib \<Rightarrow> unit Result" where
  "sign_and_verify_round_trip E =
     (let key = signing_key_from_seed E (replicate 32 9);
          nonce = as_bytes ''backend-issued-nonce'';
          sig = sign_challenge E key nonce;
          pk = public_key_bytes E key in
      unwrap (verify_signature E pk nonce (sig_bytes sig)))"

definition signature_is_over_the_domain_separated_message :: "('sk, 'vk) ed_lib \<Rightarrow> unit Result" where
  "signature_is_over_the_domain_separated_message E =
     (let key = signing_key_from_seed E (replicate 32 9);
          message = as_bytes ''backend-issued-nonce'';
          sig = sign_challenge E key message in
      res_bind (unwrap (ok_or () (vk_from_bytes E (public_key_bytes E key)))) (\<lambda>vk.
      res_bind (assert_that (\<not> vk_verify_strict E vk message (sig_bytes sig))) (\<lambda>_.
      let raw = ATTEST_DOMAIN @ message in
      res_bind (assert_that (\<not> vk_verify_strict E vk raw (sig_bytes sig))) (\<lambda>_.
      let expected = [word_of_nat (length ATTEST_DOMAIN)] @ ATTEST_DOMAIN @ message in
      assert_that (vk_verify_strict E vk expected (sig_bytes sig))))))"

definition signature_is_deterministic_for_same_seed_and_nonce :: "('sk, 'vk) ed_lib \<Rightarrow> unit Result" where
  "signature_is_deterministic_for_same_seed_and_nonce E =
     (let key = signing_key_from_seed E (replicate 32 9);
          nonce = as_bytes ''nonce'';
          sig1 = sign_challenge E key nonce;
          sig2 = sign_challenge E key nonce in
      assert_that (sig_bytes sig1 = sig_bytes sig2))"

definition different_seeds_produce_different_public_keys :: "('sk, 'vk) ed_lib \<Rightarrow> unit Result" where
  "different_seeds_produce_different_public_keys E =
     (let key1 = signing_key_from_seed E (replicate 32 1);
          key2 = signing_key_from_seed E (replicate 32 2) in
      assert_that (public_key_bytes E key1 \<noteq> public_key_bytes E key2))"

definition tampered_nonce_fails_verification :: "('sk, 'vk) ed_lib \<Rightarrow> unit Result" where
  "tampered_nonce_fails_verification E =
     (let key = signing_key_from_seed E (replicate 32 9);
          sig = sign_challenge E key (as_bytes ''nonce'');
          pk = public_key_bytes E key;
          result = verify_signature E pk (as_bytes ''different'') (sig_bytes sig) in
      assert_that (result = Err InvalidSignature))"

text \<open>\<open>xs[i] ^= m\<close>.\<close>

definition xor_at :: "bytes \<Rightarrow> nat \<Rightarrow> u8 \<Rightarrow> ('e, bytes) outcome" where
  "xor_at xs i m = res_bind (index xs i) (\<lambda>b. Ok (xs[i := b XOR m]))"

definition tampered_signature_fails_verification :: "('sk, 'vk) ed_lib \<Rightarrow> unit Result" where
  "tampered_signature_fails_verification E =
     (let key = signing_key_from_seed E (replicate 32 9);
          sig = sign_challenge E key (as_bytes ''nonce'');
          pk = public_key_bytes E key in
      res_bind (xor_at (sig_bytes sig) 0 1) (\<lambda>bad.
      let result = verify_signature E pk (as_bytes ''nonce'') bad in
      assert_that (result = Err InvalidSignature)))"

definition invalid_public_key_fails_verification :: "('sk, 'vk) ed_lib \<Rightarrow> unit Result" where
  "invalid_public_key_fails_verification E =
     (let result = verify_signature E (replicate 32 0) (as_bytes ''nonce'') (replicate 64 0) in
      assert_that (result = Err InvalidSignature))"

subsection \<open>kdf.rs\<close>

definition derive_subkey_is_deterministic :: "hkdf \<Rightarrow> unit Result" where
  "derive_subkey_is_deterministic H =
     (let secret = replicate 32 42 in
      res_bind (unwrap (derive_subkey H secret WRAP_CTX (replicate 32 0))) (\<lambda>out1.
      res_bind (unwrap (derive_subkey H secret WRAP_CTX (replicate 32 0))) (\<lambda>out2.
      assert_that (out1 = out2))))"

definition different_contexts_produce_different_subkeys :: "hkdf \<Rightarrow> unit Result" where
  "different_contexts_produce_different_subkeys H =
     (let secret = replicate 32 42 in
      res_bind (unwrap (derive_subkey H secret WRAP_CTX (replicate 32 0))) (\<lambda>wrap.
      res_bind (unwrap (derive_subkey H secret METADATA_CTX (replicate 32 0))) (\<lambda>meta.
      res_bind (unwrap (derive_subkey H secret SIGN_CTX (replicate 32 0))) (\<lambda>sign.
      res_bind (assert_that (wrap \<noteq> meta)) (\<lambda>_.
      res_bind (assert_that (wrap \<noteq> sign)) (\<lambda>_.
      assert_that (meta \<noteq> sign)))))))"

subsection \<open>recovery.rs\<close>

definition round_trip_secret_phrase :: "'m bip39_lib \<Rightarrow> unit Result" where
  "round_trip_secret_phrase B =
     (let secret = replicate 32 42 in
      res_bind (unwrap (secret_to_phrase B secret)) (\<lambda>phrase.
      res_bind (unwrap (phrase_to_secret B phrase)) (\<lambda>recovered.
      assert_that (secret = recovered))))"

definition invalid_phrase_rejected :: "'m bip39_lib \<Rightarrow> unit Result" where
  "invalid_phrase_rejected B =
     (let result = phrase_to_secret B ''not a real phrase'' in
      assert_that (result = Err InvalidPhrase))"

definition twelve_words :: string where
  "twelve_words = concat (replicate 11 ''abandon '') @ ''about''"

definition twelve_word_phrase_rejected :: "'m bip39_lib \<Rightarrow> unit Result" where
  "twelve_word_phrase_rejected B =
     (let result = phrase_to_secret B twelve_words in
      assert_that (result = Err InvalidPhrase))"

definition generate_master_secret_succeeds :: "'r rng \<Rightarrow> ('r, FilumCryptoError, unit) st" where
  "generate_master_secret_succeeds R = st_bind (st_unwrap (generate_master_secret R)) (\<lambda>_. st_lift (Ok ()))"

subsection \<open>metadata.rs\<close>

definition round_trip_field :: "('e, 'd) aead_lib \<Rightarrow> 'r rng \<Rightarrow> ('r, FilumCryptoError, unit) st" where
  "round_trip_field A R =
     (let key = replicate 32 7; plaintext = as_bytes ''passport_no:AB1234567'' in
      st_bind (st_unwrap (encrypt_field A R plaintext key ''rec-1'' ''name'')) (\<lambda>field.
      st_lift (
        res_bind (unwrap (decrypt_field A field key ''rec-1'' ''name'')) (\<lambda>recovered.
        assert_that (recovered = plaintext)))))"

definition round_trip_empty_field :: "('e, 'd) aead_lib \<Rightarrow> 'r rng \<Rightarrow> ('r, FilumCryptoError, unit) st" where
  "round_trip_empty_field A R =
     (let key = replicate 32 7 in
      st_bind (st_unwrap (encrypt_field A R [] key ''rec-1'' ''name'')) (\<lambda>field.
      st_lift (
        res_bind (unwrap (decrypt_field A field key ''rec-1'' ''name'')) (\<lambda>recovered.
        assert_that (recovered = [])))))"

definition wrong_key_fails :: "('e, 'd) aead_lib \<Rightarrow> 'r rng \<Rightarrow> ('r, FilumCryptoError, unit) st" where
  "wrong_key_fails A R =
     (let key1 = replicate 32 7; key2 = replicate 32 8 in
      st_bind (st_unwrap (encrypt_field A R (as_bytes ''secret'') key1 ''rec-1'' ''name'')) (\<lambda>field.
      let result = decrypt_field A field key2 ''rec-1'' ''name'' in
      st_lift (assert_that (result = Err Aead))))"

definition wrong_record_id_fails :: "('e, 'd) aead_lib \<Rightarrow> 'r rng \<Rightarrow> ('r, FilumCryptoError, unit) st" where
  "wrong_record_id_fails A R =
     (let key = replicate 32 7 in
      st_bind (st_unwrap (encrypt_field A R (as_bytes ''secret'') key ''rec-a'' ''name'')) (\<lambda>field.
      let result = decrypt_field A field key ''rec-b'' ''name'' in
      st_lift (assert_that (result = Err Aead))))"

definition wrong_field_name_fails :: "('e, 'd) aead_lib \<Rightarrow> 'r rng \<Rightarrow> ('r, FilumCryptoError, unit) st" where
  "wrong_field_name_fails A R =
     (let key = replicate 32 7 in
      st_bind (st_unwrap (encrypt_field A R (as_bytes ''secret'') key ''rec-a'' ''name'')) (\<lambda>field.
      let result = decrypt_field A field key ''rec-a'' ''other'' in
      st_lift (assert_that (result = Err Aead))))"

definition empty_identifiers_are_invalid_context_on_encrypt ::
  "('e, 'd) aead_lib \<Rightarrow> 'r rng \<Rightarrow> ('r, FilumCryptoError, unit) st" where
  "empty_identifiers_are_invalid_context_on_encrypt A R =
     (let key = replicate 32 7 in
      st_bind (attempt (encrypt_field A R (as_bytes ''x'') key '''' ''name'')) (\<lambda>r1.
      st_bind (st_lift (assert_that (r1 = Err InvalidContext))) (\<lambda>_.
      st_bind (attempt (encrypt_field A R (as_bytes ''x'') key ''rec-1'' '''')) (\<lambda>r2.
      st_lift (assert_that (r2 = Err InvalidContext))))))"

definition empty_identifiers_are_invalid_context_on_decrypt ::
  "('e, 'd) aead_lib \<Rightarrow> 'r rng \<Rightarrow> ('r, FilumCryptoError, unit) st" where
  "empty_identifiers_are_invalid_context_on_decrypt A R =
     (let key = replicate 32 7 in
      st_bind (st_unwrap (encrypt_field A R (as_bytes ''x'') key ''rec-1'' ''name'')) (\<lambda>field.
      st_lift (
        res_bind (assert_that (decrypt_field A field key '''' ''name'' = Err InvalidContext)) (\<lambda>_.
        assert_that (decrypt_field A field key ''rec-1'' '''' = Err InvalidContext)))))"

definition tampered_ciphertext_fails :: "('e, 'd) aead_lib \<Rightarrow> 'r rng \<Rightarrow> ('r, FilumCryptoError, unit) st" where
  "tampered_ciphertext_fails A R =
     (let key = replicate 32 7 in
      st_bind (st_unwrap (encrypt_field A R (as_bytes ''secret'') key ''rec-1'' ''name'')) (\<lambda>field.
      st_bind (st_lift (xor_at (ciphertext field) 0 1)) (\<lambda>ct.
      let result = decrypt_field A (field\<lparr> ciphertext := ct \<rparr>) key ''rec-1'' ''name'' in
      st_lift (assert_that (result = Err Aead)))))"

definition iv_is_fresh_per_encryption :: "('e, 'd) aead_lib \<Rightarrow> 'r rng \<Rightarrow> ('r, FilumCryptoError, unit) st" where
  "iv_is_fresh_per_encryption A R =
     (let key = replicate 32 7 in
      st_bind (st_unwrap (encrypt_field A R (as_bytes ''same'') key ''rec-1'' ''name'')) (\<lambda>a.
      st_bind (st_unwrap (encrypt_field A R (as_bytes ''same'') key ''rec-1'' ''name'')) (\<lambda>b.
      st_lift (
        res_bind (assert_that (ciphertext a \<noteq> ciphertext b)) (\<lambda>_.
        assert_that (field_iv a \<noteq> field_iv b))))))"

subsection \<open>vault.rs\<close>

definition vault_blob_round_trip ::
  "('e, 'd) aead_lib \<Rightarrow> 'r rng \<Rightarrow> hkdf \<Rightarrow> ('sk, 'vk) ed_lib \<Rightarrow> ('r, FilumCryptoError, unit) st" where
  "vault_blob_round_trip A R H E =
     st_bind (st_lift (unwrap (Vault_open H E (replicate 32 42)))) (\<lambda>vault.
     st_bind (st_unwrap (Vault_encrypt_blob A R vault (as_bytes ''hello'') ''doc-1'')) (\<lambda>framed.
     st_lift (
       res_bind (unwrap (Vault_decrypt_blob A vault framed ''doc-1'')) (\<lambda>recovered.
       assert_that (recovered = as_bytes ''hello'')))))"

definition vault_blob_transplanted_id_fails ::
  "('e, 'd) aead_lib \<Rightarrow> 'r rng \<Rightarrow> hkdf \<Rightarrow> ('sk, 'vk) ed_lib \<Rightarrow> ('r, FilumCryptoError, unit) st" where
  "vault_blob_transplanted_id_fails A R H E =
     st_bind (st_lift (unwrap (Vault_open H E (replicate 32 42)))) (\<lambda>vault.
     st_bind (st_unwrap (Vault_encrypt_blob A R vault (as_bytes ''hello'') ''doc-1'')) (\<lambda>framed.
     let result = Vault_decrypt_blob A vault framed ''doc-2'' in
     st_lift (assert_that (result = Err Aead))))"

definition vault_metadata_round_trip ::
  "('e, 'd) aead_lib \<Rightarrow> 'r rng \<Rightarrow> hkdf \<Rightarrow> ('sk, 'vk) ed_lib \<Rightarrow> ('r, FilumCryptoError, unit) st" where
  "vault_metadata_round_trip A R H E =
     st_bind (st_lift (unwrap (Vault_open H E (replicate 32 42)))) (\<lambda>vault.
     st_bind (st_unwrap (Vault_encrypt_metadata_field A R vault (as_bytes ''name=Alice'') ''rec-1'' ''document-record'')) (\<lambda>field.
     st_lift (
       res_bind (unwrap (Vault_decrypt_metadata_field A vault field ''rec-1'' ''document-record'')) (\<lambda>recovered.
       assert_that (recovered = as_bytes ''name=Alice'')))))"

definition vault_metadata_transplanted_record_fails ::
  "('e, 'd) aead_lib \<Rightarrow> 'r rng \<Rightarrow> hkdf \<Rightarrow> ('sk, 'vk) ed_lib \<Rightarrow> ('r, FilumCryptoError, unit) st" where
  "vault_metadata_transplanted_record_fails A R H E =
     st_bind (st_lift (unwrap (Vault_open H E (replicate 32 42)))) (\<lambda>vault.
     st_bind (st_unwrap (Vault_encrypt_metadata_field A R vault (as_bytes ''name=Alice'') ''rec-1'' ''document-record'')) (\<lambda>field.
     let result = Vault_decrypt_metadata_field A vault field ''rec-2'' ''document-record'' in
     st_lift (assert_that (result = Err Aead))))"

definition vault_sign_and_verify :: "hkdf \<Rightarrow> ('sk, 'vk) ed_lib \<Rightarrow> unit Result" where
  "vault_sign_and_verify H E =
     res_bind (unwrap (Vault_open H E (replicate 32 42))) (\<lambda>vault.
     let sig = Vault_sign_challenge E vault (as_bytes ''backend-nonce'');
         pk = Vault_device_public_key E vault in
     unwrap (verify_signature E pk (as_bytes ''backend-nonce'') (sig_bytes sig)))"

definition same_secret_produces_same_public_key :: "hkdf \<Rightarrow> ('sk, 'vk) ed_lib \<Rightarrow> unit Result" where
  "same_secret_produces_same_public_key H E =
     (let secret = replicate 32 1 in
      res_bind (unwrap (Vault_open H E secret)) (\<lambda>v1.
      res_bind (unwrap (Vault_open H E secret)) (\<lambda>v2.
      assert_that (Vault_device_public_key E v1 = Vault_device_public_key E v2))))"

definition different_secrets_produce_different_public_keys :: "hkdf \<Rightarrow> ('sk, 'vk) ed_lib \<Rightarrow> unit Result" where
  "different_secrets_produce_different_public_keys H E =
     res_bind (unwrap (Vault_open H E (replicate 32 1))) (\<lambda>v1.
     res_bind (unwrap (Vault_open H E (replicate 32 2))) (\<lambda>v2.
     assert_that (Vault_device_public_key E v1 \<noteq> Vault_device_public_key E v2)))"

definition blob_encrypted_by_one_vault_decrypts_with_same_secret ::
  "('e, 'd) aead_lib \<Rightarrow> 'r rng \<Rightarrow> hkdf \<Rightarrow> ('sk, 'vk) ed_lib \<Rightarrow> ('r, FilumCryptoError, unit) st" where
  "blob_encrypted_by_one_vault_decrypts_with_same_secret A R H E =
     (let secret = replicate 32 42 in
      st_bind (st_lift (unwrap (Vault_open H E secret))) (\<lambda>v.
      st_bind (st_unwrap (Vault_encrypt_blob A R v (as_bytes ''persistent'') ''doc-1'')) (\<lambda>framed.
      st_lift (
        res_bind (unwrap (Vault_open H E secret)) (\<lambda>v2.
        res_bind (unwrap (Vault_decrypt_blob A v2 framed ''doc-1'')) (\<lambda>recovered.
        assert_that (recovered = as_bytes ''persistent'')))))))"

definition vault_from_recovery_phrase_matches_open ::
  "'m bip39_lib \<Rightarrow> hkdf \<Rightarrow> ('sk, 'vk) ed_lib \<Rightarrow> unit Result" where
  "vault_from_recovery_phrase_matches_open B H E =
     (let secret = replicate 32 123 in
      res_bind (unwrap (secret_to_phrase B secret)) (\<lambda>phrase.
      res_bind (unwrap (Vault_open H E secret)) (\<lambda>v_open.
      res_bind (unwrap (Vault_from_recovery_phrase B H E phrase)) (\<lambda>v_phrase.
      assert_that (Vault_device_public_key E v_open = Vault_device_public_key E v_phrase)))))"

definition vault_from_invalid_phrase_fails :: "'m bip39_lib \<Rightarrow> hkdf \<Rightarrow> ('sk, 'vk) ed_lib \<Rightarrow> unit Result" where
  "vault_from_invalid_phrase_fails B H E =
     (case Vault_from_recovery_phrase B H E ''not a real phrase'' of Err InvalidPhrase \<Rightarrow> Ok () | _ \<Rightarrow> Panic)"

definition blob_from_one_vault_cannot_be_decrypted_by_different_vault ::
  "('e, 'd) aead_lib \<Rightarrow> 'r rng \<Rightarrow> hkdf \<Rightarrow> ('sk, 'vk) ed_lib \<Rightarrow> ('r, FilumCryptoError, unit) st" where
  "blob_from_one_vault_cannot_be_decrypted_by_different_vault A R H E =
     st_bind (st_lift (unwrap (Vault_open H E (replicate 32 42)))) (\<lambda>vault_a.
     st_bind (st_lift (unwrap (Vault_open H E (replicate 32 99)))) (\<lambda>vault_b.
     st_bind (st_unwrap (Vault_encrypt_blob A R vault_a (as_bytes ''secret data'') ''doc-1'')) (\<lambda>framed.
     let result = Vault_decrypt_blob A vault_b framed ''doc-1'' in
     st_lift (assert_that (result = Err Aead)))))"

definition metadata_from_one_vault_cannot_be_decrypted_by_different_vault ::
  "('e, 'd) aead_lib \<Rightarrow> 'r rng \<Rightarrow> hkdf \<Rightarrow> ('sk, 'vk) ed_lib \<Rightarrow> ('r, FilumCryptoError, unit) st" where
  "metadata_from_one_vault_cannot_be_decrypted_by_different_vault A R H E =
     st_bind (st_lift (unwrap (Vault_open H E (replicate 32 42)))) (\<lambda>vault_a.
     st_bind (st_lift (unwrap (Vault_open H E (replicate 32 99)))) (\<lambda>vault_b.
     st_bind (st_unwrap (Vault_encrypt_metadata_field A R vault_a (as_bytes ''name'') ''rec-1'' ''document-record'')) (\<lambda>field.
     let result = Vault_decrypt_metadata_field A vault_b field ''rec-1'' ''document-record'' in
     st_lift (assert_that (result = Err Aead)))))"

subsection \<open>The tests pass\<close>

text \<open>What the crates promise, together.\<close>

definition crates_lawful ::
  "('e, 'd) aead_lib \<Rightarrow> 'r rng \<Rightarrow> hkdf \<Rightarrow> ('sk, 'vk) ed_lib \<Rightarrow> 'm bip39_lib \<Rightarrow> bool" where
  "crates_lawful A R H E B \<longleftrightarrow>
     rng_available R \<and> aead_lawful A \<and> gcm_total A \<and> gcm_tag16 A \<and> stream_total A \<and>
     hkdf_limit H \<and> ed_correct E \<and> ed_sizes E \<and> bip39_correct B"

lemma crates_lawfulD:
  assumes "crates_lawful A R H E B"
  shows "rng_available R" "aead_lawful A" "gcm_correct A" "gcm_total A" "gcm_tag16 A" "stream_total A"
    "hkdf_limit H" "ed_correct E" "ed_sizes E" "bip39_correct B"
  using assms by (simp_all add: crates_lawful_def aead_lawful_def)

lemma ref_crates_lawful: "crates_lawful ref_aead ref_rng ref_hkdf ref_ed ref_bip39"
  by (simp add: crates_lawful_def aead_lawful_def ref_aead_laws ref_rng_available ref_hkdf_limit ref_ed_laws ref_bip39_correct)

lemma encrypt_field_succeeds:
  assumes "rng_available R" "gcm_total A" "length key = 32" "valid_context i" "valid_context f"
    "length pt \<le> 2 ^ 36" "length i + length f \<le> 2 ^ 35"
  obtains field s' where "encrypt_field A R pt key i f s = (Ok field, s')"
proof -
  obtain iv t where iv: "fill_random R (replicate 12 0) s = (Ok iv, t)" "length iv = 12"
    using fill_random_available [OF assms(1), of "replicate 12 0" s] by auto
  have "length (field_aad_bytes (i, f)) \<le> 2 ^ 36"
    using assms(7) by (simp add: field_aad_bytes_def FIELD_DOMAIN_def length_prefixed_def)
  then obtain ct where "gcm_encrypt A key iv pt (field_aad_bytes (i, f)) = Some ct"
    using gcm_totalE [OF assms(2,3) iv(2) assms(6)] by blast
  then show thesis
    using that encrypt_field_eq [of A R pt key "(i, f)" s] iv assms(4,5) by (simp add: valid_field_context_def)
qed

text \<open>Fields and blobs of the sizes the tests use are always sealed, and open again.\<close>

lemma field_sealed:
  assumes "crates_lawful A R H E B" "length key = 32" "valid_context i" "valid_context f" "length pt \<le> 100"
    "length i + length f \<le> 100"
  obtains field s' where "encrypt_field A R pt key i f s = (Ok field, s')" "decrypt_field A field key i f = Ok pt"
    "length (field_iv field) = 12" "length (ciphertext field) = length pt + 16"
proof (rule encrypt_field_succeeds [OF crates_lawfulD(1,4) [OF assms(1)] assms(2-4), of pt s])
  show "length pt \<le> 2 ^ 36" "length i + length f \<le> 2 ^ 35" using assms(5,6) by auto
  fix field s'
  assume e: "encrypt_field A R pt key i f s = (Ok field, s')"
  note eo = encrypt_field_Ok [of A R pt key "(i, f)" s field s', simplified, OF e]
  have "decrypt_field A field key i f = Ok pt"
    using field_box.roundtrip [OF crates_lawfulD(3) [OF assms(1)] assms(2), of R pt "(i, f)" s field s'] e by simp
  moreover have "length (ciphertext field) = length pt + 16"
    using eo(3) crates_lawfulD(5) [OF assms(1)] unfolding gcm_tag16_def by blast
  ultimately show thesis using that e eo(2) by blast
qed

lemma blob_sealed:
  assumes "crates_lawful A R H E B" "length key = 32" "valid_context i" "length pt < 2 ^ 32 * CHUNK_SIZE"
  obtains framed s' where "encrypt_chunked A R pt key i s = (Ok framed, s')" "decrypt_chunked A framed key i = Ok pt"
proof (rule encrypt_chunked_succeeds [OF crates_lawfulD(1,4,5,6) [OF assms(1)] assms(2-4), of s])
  fix framed s'
  assume e: "encrypt_chunked A R pt key i s = (Ok framed, s')"
  with that blob_box.roundtrip [OF crates_lawfulD(2) [OF assms(1)] assms(2) e] show thesis by blast
qed

lemma test_contexts [simp]:
  "valid_context ''rec-1''" "valid_context ''name''" "valid_context ''rec-a''" "valid_context ''rec-b''"
  "valid_context ''other''" "valid_context ''doc-1''" "valid_context ''doc-2''" "valid_context ''rec-2''"
  "valid_context ''document-record''" "valid_context ''blob-a''" "valid_context ''blob-b''" "\<not> valid_context ''''"
  by (simp_all add: valid_context_def)

text \<open>The tests that sign and derive.\<close>

lemma key_tests:
  assumes "crates_lawful A R H E B"
  shows "sign_and_verify_round_trip E = Ok ()" "signature_is_deterministic_for_same_seed_and_nonce E = Ok ()"
    "derive_subkey_is_deterministic H = Ok ()" "round_trip_secret_phrase B = Ok ()"
    "fst (generate_master_secret_succeeds R s) = Ok ()"
proof -
  note cl = crates_lawfulD [OF assms]
  show "sign_and_verify_round_trip E = Ok ()"
    by (simp add: sign_and_verify_round_trip_def sign_then_verify [OF cl(8)])
  show "signature_is_deterministic_for_same_seed_and_nonce E = Ok ()"
    by (simp add: signature_is_deterministic_for_same_seed_and_nonce_def)
  obtain key where "derive_subkey H (replicate 32 42) WRAP_CTX (replicate 32 0) = Ok key"
    by (rule Vault_open_succeeds [OF cl(7), of E "replicate 32 42"]) (auto elim!: Vault_open_Ok)
  then show "derive_subkey_is_deterministic H = Ok ()" by (simp add: derive_subkey_is_deterministic_def)
  show "round_trip_secret_phrase B = Ok ()"
    by (rule phrase_roundtrip [OF cl(10), of "replicate 32 42"]) (simp_all add: round_trip_secret_phrase_def)
  show "fst (generate_master_secret_succeeds R s) = Ok ()"
    using fill_random_available [OF cl(1), of "replicate 32 0" s]
    by (auto simp: generate_master_secret_succeeds_def generate_master_secret_def st_bind_def Let_def st_unwrap_def)
qed

lemma field_tests:
  assumes cl: "crates_lawful A R H E B"
  shows "fst (round_trip_field A R s) = Ok ()" "fst (round_trip_empty_field A R s) = Ok ()"
    "fst (empty_identifiers_are_invalid_context_on_encrypt A R s) = Ok ()"
    "fst (empty_identifiers_are_invalid_context_on_decrypt A R s) = Ok ()"
proof -
  have inv: "encrypt_field A R pt key i f s = (Err InvalidContext, s)" "decrypt_field A fd key i f = Err InvalidContext"
    if "i = [] \<or> f = []" for pt key i f s fd
    using field_box.seal_invalid [of "(i, f)"] field_box.unseal_invalid [of "(i, f)"] that
    by (auto simp: valid_field_context_def valid_context_def)
  show "fst (round_trip_field A R s) = Ok ()"
    by (rule field_sealed [OF cl, of "replicate 32 7" "''rec-1''" "''name''" "as_bytes ''passport_no:AB1234567''" s])
      (simp_all add: round_trip_field_def st_bind_def Let_def)
  show "fst (round_trip_empty_field A R s) = Ok ()"
    by (rule field_sealed [OF cl, of "replicate 32 7" "''rec-1''" "''name''" "[]" s])
      (simp_all add: round_trip_empty_field_def st_bind_def Let_def)
  show "fst (empty_identifiers_are_invalid_context_on_encrypt A R s) = Ok ()"
    by (simp add: empty_identifiers_are_invalid_context_on_encrypt_def st_bind_def Let_def attempt_def inv)
  show "fst (empty_identifiers_are_invalid_context_on_decrypt A R s) = Ok ()"
    by (rule field_sealed [OF cl, of "replicate 32 7" "''rec-1''" "''name''" "as_bytes ''x''" s])
      (simp_all add: empty_identifiers_are_invalid_context_on_decrypt_def st_bind_def Let_def inv)
qed

lemma vault_tests:
  assumes cl: "crates_lawful A R H E B"
  shows "fst (vault_blob_round_trip A R H E s) = Ok ()" "fst (vault_metadata_round_trip A R H E s) = Ok ()"
    "vault_sign_and_verify H E = Ok ()" "same_secret_produces_same_public_key H E = Ok ()"
    "fst (blob_encrypted_by_one_vault_decrypts_with_same_secret A R H E s) = Ok ()"
    "vault_from_recovery_phrase_matches_open B H E = Ok ()"
proof -
  note ops = Vault_encrypt_blob_def Vault_decrypt_blob_def Vault_encrypt_metadata_field_def
    Vault_decrypt_metadata_field_def Vault_sign_challenge_def Vault_device_public_key_def
  have big: "length (as_bytes xs) < 2 ^ 32 * CHUNK_SIZE" if "length xs < 100" for xs
    using that by (simp add: CHUNK_SIZE_def)
  obtain v where v: "Vault_open H E (replicate 32 42) = Ok v" using Vault_open_succeeds [OF crates_lawfulD(7) [OF cl]] .
  obtain v1 where v1: "Vault_open H E (replicate 32 1) = Ok v1" using Vault_open_succeeds [OF crates_lawfulD(7) [OF cl]] .
  obtain v2 where v2: "Vault_open H E (replicate 32 123) = Ok v2" using Vault_open_succeeds [OF crates_lawfulD(7) [OF cl]] .
  have wf: "length (wrap_key v) = 32" "length (metadata_key v) = 32"
    "\<exists>seed. length seed = 32 \<and> signing_key v = signing_key_from_seed E seed"
    using Vault_open_wf [OF v] by (simp_all add: wf_vault_def)
  show "fst (vault_blob_round_trip A R H E s) = Ok ()"
    by (rule blob_sealed [OF cl wf(1), of "''doc-1''" "as_bytes ''hello''" s])
      (simp_all add: vault_blob_round_trip_def v ops st_bind_def Let_def CHUNK_SIZE_def)
  show "fst (blob_encrypted_by_one_vault_decrypts_with_same_secret A R H E s) = Ok ()"
    by (rule blob_sealed [OF cl wf(1), of "''doc-1''" "as_bytes ''persistent''" s])
      (simp_all add: blob_encrypted_by_one_vault_decrypts_with_same_secret_def v ops st_bind_def Let_def CHUNK_SIZE_def)
  show "fst (vault_metadata_round_trip A R H E s) = Ok ()"
    by (rule field_sealed [OF cl wf(2), of "''rec-1''" "''document-record''" "as_bytes ''name=Alice''" s])
      (simp_all add: vault_metadata_round_trip_def v ops st_bind_def Let_def)
  show "vault_sign_and_verify H E = Ok ()"
    using wf(3) sign_then_verify [OF crates_lawfulD(8) [OF cl]] by (auto simp: vault_sign_and_verify_def v ops)
  show "same_secret_produces_same_public_key H E = Ok ()"
    by (simp add: same_secret_produces_same_public_key_def v1)
  show "vault_from_recovery_phrase_matches_open B H E = Ok ()"
    by (rule Vault_from_phrase [OF crates_lawfulD(10) [OF cl], of "replicate 32 123" H E])
      (simp_all add: vault_from_recovery_phrase_matches_open_def v2)
qed

text \<open>
  The unit tests pass on the model. For all lawful primitives and all random draws, every unit test
  of \<open>aad.rs\<close>, \<open>auth.rs\<close>, \<open>kdf.rs\<close>, \<open>recovery.rs\<close>, \<open>metadata.rs\<close> and \<open>vault.rs\<close> that does not ask a primitive to
  refuse something passes: the golden AAD bytes, the round trips, the refused identifiers, and vaults
  reopened from the same secret or phrase.
\<close>

theorem module_tests_pass:
  assumes "crates_lawful A R H E B"
  shows "list_all (\<lambda>t. t = Ok ())
     [blob_segment_aad_golden_bytes, blob_segment_aad_length_prefix_counts_bytes_not_chars, blob_wrap_aad_golden_bytes,
      empty_blob_id_is_invalid_context, field_aad_golden_bytes, field_aad_length_prefixes_prevent_boundary_ambiguity,
      empty_field_identifiers_are_invalid_context, sign_and_verify_round_trip E,
      signature_is_deterministic_for_same_seed_and_nonce E, derive_subkey_is_deterministic H, round_trip_secret_phrase B,
      vault_sign_and_verify H E, same_secret_produces_same_public_key H E, vault_from_recovery_phrase_matches_open B H E] \<and>
    list_all (\<lambda>t. fst (t s) = Ok ())
     [generate_master_secret_succeeds R, round_trip_field A R, round_trip_empty_field A R,
      empty_identifiers_are_invalid_context_on_encrypt A R, empty_identifiers_are_invalid_context_on_decrypt A R,
      vault_blob_round_trip A R H E, vault_metadata_round_trip A R H E,
      blob_encrypted_by_one_vault_decrypts_with_same_secret A R H E]"
  by (simp add: aad_tests key_tests [OF assms] field_tests [OF assms] vault_tests [OF assms])

theorem module_tests_pass_witness:
  "fst (round_trip_field ref_aead ref_rng 0) = Ok () \<and> vault_sign_and_verify ref_hkdf ref_ed = Ok ()"
  using module_tests_pass [OF ref_crates_lawful, of 0] by simp

subsection \<open>The tests that ask for a refusal\<close>

lemma decrypt_field_refuses:
  "valid_context i \<Longrightarrow> valid_context f \<Longrightarrow> decrypt_field A field key i f = Err Aead \<longleftrightarrow>
     gcm_decrypt A key (field_iv field) (ciphertext field) (field_aad_bytes (i, f)) = None"
  using decrypt_field_eq [of A field key "(i, f)"] by (auto simp: valid_field_context_def)

lemma decrypt_blob_refuses:
  assumes "valid_context i" "gcm_decrypt A key (header_iv framed) (header_ct framed) (header_aad i framed) = None"
  shows "decrypt_chunked A framed key i = Err Aead"
  using blob_box.authenticated [of A framed key i] blob_box.unseal_cases [of A framed key i] assms by auto

text \<open>
  The negative tests of \<open>auth.rs\<close>, \<open>kdf.rs\<close> and \<open>recovery.rs\<close> pass exactly if the primitive refuses: Ed25519
  the unframed message, the other message, the changed signature and the zero key; BIP-39 must refuse
  the phrase or give other than 32 bytes; HKDF and Ed25519 must give different keys.
\<close>

lemma key_refusal_tests:
  assumes "crates_lawful A R H E B"
  defines "sk \<equiv> signing_key_from_seed E (replicate 32 9)"
  shows "(signature_is_over_the_domain_separated_message E = Ok () \<longleftrightarrow>
      (\<exists>vk. vk_from_bytes E (sk_public E sk) = Some vk \<and>
         (\<forall>m \<in> {[], ATTEST_DOMAIN}. \<not> vk_verify_strict E vk (m @ as_bytes ''backend-issued-nonce'')
            (sk_sign E sk (domain_separated (as_bytes ''backend-issued-nonce'')))))) \<and>
    (tampered_nonce_fails_verification E = Ok () \<longleftrightarrow>
      (\<forall>vk. vk_from_bytes E (sk_public E sk) = Some vk \<longrightarrow>
         \<not> vk_verify_strict E vk (domain_separated (as_bytes ''different'')) (sk_sign E sk (domain_separated (as_bytes ''nonce''))))) \<and>
    (tampered_signature_fails_verification E = Ok () \<longleftrightarrow>
      (\<forall>vk. vk_from_bytes E (sk_public E sk) = Some vk \<longrightarrow>
         (let sig = sk_sign E sk (domain_separated (as_bytes ''nonce'')) in
          \<not> vk_verify_strict E vk (domain_separated (as_bytes ''nonce'')) (sig[0 := sig ! 0 XOR 1])))) \<and>
    (invalid_public_key_fails_verification E = Ok () \<longleftrightarrow>
      (\<forall>vk. vk_from_bytes E (replicate 32 0) = Some vk \<longrightarrow>
         \<not> vk_verify_strict E vk (domain_separated (as_bytes ''nonce'')) (replicate 64 0))) \<and>
    (different_contexts_produce_different_subkeys H = Ok () \<longleftrightarrow>
      distinct (map (\<lambda>ctx. derive_subkey H (replicate 32 42) ctx (replicate 32 0)) [WRAP_CTX, METADATA_CTX, SIGN_CTX])) \<and>
    (invalid_phrase_rejected B = Ok () \<longleftrightarrow>
      (\<forall>m. parse B ''not a real phrase'' = Some m \<longrightarrow> length (to_entropy B m) \<noteq> 32)) \<and>
    (twelve_word_phrase_rejected B = Ok () \<longleftrightarrow>
      (\<forall>m. parse B twelve_words = Some m \<longrightarrow> length (to_entropy B m) \<noteq> 32)) \<and>
    (vault_from_invalid_phrase_fails B H E = Ok () \<longleftrightarrow> invalid_phrase_rejected B = Ok ())"
proof (intro conjI)
  note cl = crates_lawfulD [OF assms(1)]
  have sig: "0 < length (sk_sign E sk m)" for m using cl(9) by (simp add: ed_sizes_def)
  have vk: "\<exists>vk. vk_from_bytes E (sk_public E sk) = Some vk \<and> vk_verify_strict E vk m (sk_sign E sk m)" for m
    using cl(8) unfolding ed_correct_def sk_def signing_key_from_seed_def by simp
  show "signature_is_over_the_domain_separated_message E = Ok () \<longleftrightarrow>
      (\<exists>vk. vk_from_bytes E (sk_public E sk) = Some vk \<and>
         (\<forall>m \<in> {[], ATTEST_DOMAIN}. \<not> vk_verify_strict E vk (m @ as_bytes ''backend-issued-nonce'')
            (sk_sign E sk (domain_separated (as_bytes ''backend-issued-nonce'')))))"
    using vk [of "domain_separated (as_bytes ''backend-issued-nonce'')"]
    by (auto simp: signature_is_over_the_domain_separated_message_def sk_def [symmetric] sign_challenge_def
        public_key_bytes_def domain_separated_def Let_def res_bind_eq_Ok)
  show "tampered_nonce_fails_verification E = Ok () \<longleftrightarrow> (\<forall>vk. vk_from_bytes E (sk_public E sk) = Some vk \<longrightarrow>
         \<not> vk_verify_strict E vk (domain_separated (as_bytes ''different'')) (sk_sign E sk (domain_separated (as_bytes ''nonce''))))"
    by (auto simp: tampered_nonce_fails_verification_def sk_def [symmetric] sign_challenge_def public_key_bytes_def
        verify_signature_eq split: option.split)
  show "tampered_signature_fails_verification E = Ok () \<longleftrightarrow> (\<forall>vk. vk_from_bytes E (sk_public E sk) = Some vk \<longrightarrow>
         (let sig = sk_sign E sk (domain_separated (as_bytes ''nonce'')) in
          \<not> vk_verify_strict E vk (domain_separated (as_bytes ''nonce'')) (sig[0 := sig ! 0 XOR 1])))"
    using sig by (auto simp: tampered_signature_fails_verification_def sk_def [symmetric] sign_challenge_def
        public_key_bytes_def verify_signature_eq xor_at_def index_in_range Let_def split: option.split)
  show "invalid_public_key_fails_verification E = Ok () \<longleftrightarrow> (\<forall>vk. vk_from_bytes E (replicate 32 0) = Some vk \<longrightarrow>
         \<not> vk_verify_strict E vk (domain_separated (as_bytes ''nonce'')) (replicate 64 0))"
    by (auto simp: invalid_public_key_fails_verification_def verify_signature_eq split: option.split)
  obtain v where "Vault_open H E (replicate 32 42) = Ok v" using Vault_open_succeeds [OF cl(7)] .
  then obtain wk mk sd where "derive_subkey H (replicate 32 42) WRAP_CTX (replicate 32 0) = Ok wk"
    "derive_subkey H (replicate 32 42) METADATA_CTX (replicate 32 0) = Ok mk"
    "derive_subkey H (replicate 32 42) SIGN_CTX (replicate 32 0) = Ok sd" by (rule Vault_open_Ok)
  then show "different_contexts_produce_different_subkeys H = Ok () \<longleftrightarrow>
      distinct (map (\<lambda>ctx. derive_subkey H (replicate 32 42) ctx (replicate 32 0)) [WRAP_CTX, METADATA_CTX, SIGN_CTX])"
    by (auto simp: different_contexts_produce_different_subkeys_def res_bind_eq_Ok)
  show "invalid_phrase_rejected B = Ok () \<longleftrightarrow>
      (\<forall>m. parse B ''not a real phrase'' = Some m \<longrightarrow> length (to_entropy B m) \<noteq> 32)"
    "twelve_word_phrase_rejected B = Ok () \<longleftrightarrow> (\<forall>m. parse B twelve_words = Some m \<longrightarrow> length (to_entropy B m) \<noteq> 32)"
    by (auto simp: invalid_phrase_rejected_def twelve_word_phrase_rejected_def phrase_to_secret_eq split: option.split)
  show "vault_from_invalid_phrase_fails B H E = Ok () \<longleftrightarrow> invalid_phrase_rejected B = Ok ()"
    using Vault_open_errors [of H E]
    by (auto simp: vault_from_invalid_phrase_fails_def invalid_phrase_rejected_def Vault_from_recovery_phrase_def
        phrase_to_secret_eq split: option.split outcome.split FilumCryptoError.split)
qed

text \<open>The other negative tests: transplants within one vault, and fresh initialisation vectors.\<close>

lemma vault_transplant_tests:
  assumes cl: "crates_lawful A R H E B"
  shows "\<exists>v framed f s' t'. Vault_open H E (replicate 32 42) = Ok v \<and>
      Vault_encrypt_blob A R v (as_bytes ''hello'') ''doc-1'' s = (Ok framed, s') \<and>
      (gcm_decrypt A (wrap_key v) (header_iv framed) (header_ct framed) (header_aad ''doc-2'' framed) = None \<longrightarrow>
         fst (vault_blob_transplanted_id_fails A R H E s) = Ok ()) \<and>
      Vault_encrypt_metadata_field A R v (as_bytes ''name=Alice'') ''rec-1'' ''document-record'' s = (Ok f, t') \<and>
      (fst (vault_metadata_transplanted_record_fails A R H E s) = Ok () \<longleftrightarrow>
         gcm_decrypt A (metadata_key v) (field_iv f) (ciphertext f) (field_aad_bytes (''rec-2'', ''document-record'')) = None)"
proof -
  obtain v where v: "Vault_open H E (replicate 32 42) = Ok v" using Vault_open_succeeds [OF crates_lawfulD(7) [OF cl]] .
  have wf: "length (wrap_key v) = 32" "length (metadata_key v) = 32"
    using Vault_open_wf [OF v] by (simp_all add: wf_vault_def)
  obtain f t' where f: "Vault_encrypt_metadata_field A R v (as_bytes ''name=Alice'') ''rec-1'' ''document-record'' s = (Ok f, t')"
    by (rule field_sealed [OF cl wf(2), of "''rec-1''" "''document-record''" "as_bytes ''name=Alice''" s])
      (simp_all add: Vault_encrypt_metadata_field_def)
  obtain framed s' where b: "Vault_encrypt_blob A R v (as_bytes ''hello'') ''doc-1'' s = (Ok framed, s')"
    by (rule blob_sealed [OF cl wf(1), of "''doc-1''" "as_bytes ''hello''" s])
      (simp_all add: Vault_encrypt_blob_def CHUNK_SIZE_def)
  show ?thesis
    using v f b
    by (intro exI [of _ v] exI [of _ framed] exI [of _ f] exI [of _ s'] exI [of _ t'])
      (simp add: vault_blob_transplanted_id_fails_def vault_metadata_transplanted_record_fails_def st_bind_def
        Vault_decrypt_blob_def Vault_decrypt_metadata_field_def decrypt_blob_refuses decrypt_field_refuses)
qed

lemma fresh_iv_test:
  assumes cl: "crates_lawful A R H E B"
  shows "\<exists>a b s' t. encrypt_field A R (as_bytes ''same'') (replicate 32 7) ''rec-1'' ''name'' s = (Ok a, s') \<and>
    encrypt_field A R (as_bytes ''same'') (replicate 32 7) ''rec-1'' ''name'' s' = (Ok b, t) \<and>
    (fst (iv_is_fresh_per_encryption A R s) = Ok () \<longleftrightarrow> ciphertext a \<noteq> ciphertext b \<and> field_iv a \<noteq> field_iv b)"
proof -
  obtain a s' where a: "encrypt_field A R (as_bytes ''same'') (replicate 32 7) ''rec-1'' ''name'' s = (Ok a, s')"
    by (rule field_sealed [OF cl, of "replicate 32 7" "''rec-1''" "''name''" "as_bytes ''same''" s]) simp_all
  obtain b t where b: "encrypt_field A R (as_bytes ''same'') (replicate 32 7) ''rec-1'' ''name'' s' = (Ok b, t)"
    by (rule field_sealed [OF cl, of "replicate 32 7" "''rec-1''" "''name''" "as_bytes ''same''" s']) simp_all
  from a b show ?thesis
    by (intro exI [of _ a] exI [of _ b] exI [of _ s'] exI [of _ t])
      (auto simp: iv_is_fresh_per_encryption_def st_bind_def Let_def res_bind_eq_Ok)
qed

text \<open>
  What the transplant and tampering tests of \<open>metadata.rs\<close> and \<open>vault.rs\<close> test. Whatever is drawn, the field
  or blob is sealed; a field test passes exactly if AES-GCM refuses the very ciphertext under the other
  key, for the other record, for the other name, or with the changed byte; a vault test passes if
  AES-GCM refuses the wrapped key, or the field, under the other identifier or the other vault's key.
\<close>

theorem transplant_tests_depend_on_gcm:
  assumes cl: "crates_lawful A R H E B"
  shows "(\<exists>f s'. encrypt_field A R (as_bytes ''secret'') (replicate 32 7) ''rec-1'' ''name'' s = (Ok f, s') \<and>
      (fst (wrong_key_fails A R s) = Ok () \<longleftrightarrow>
         gcm_decrypt A (replicate 32 8) (field_iv f) (ciphertext f) (field_aad_bytes (''rec-1'', ''name'')) = None) \<and>
      (fst (tampered_ciphertext_fails A R s) = Ok () \<longleftrightarrow>
         gcm_decrypt A (replicate 32 7) (field_iv f) ((ciphertext f)[0 := ciphertext f ! 0 XOR 1])
           (field_aad_bytes (''rec-1'', ''name'')) = None)) \<and>
    (\<exists>f s'. encrypt_field A R (as_bytes ''secret'') (replicate 32 7) ''rec-a'' ''name'' s = (Ok f, s') \<and>
      (fst (wrong_record_id_fails A R s) = Ok () \<longleftrightarrow>
         gcm_decrypt A (replicate 32 7) (field_iv f) (ciphertext f) (field_aad_bytes (''rec-b'', ''name'')) = None) \<and>
      (fst (wrong_field_name_fails A R s) = Ok () \<longleftrightarrow>
         gcm_decrypt A (replicate 32 7) (field_iv f) (ciphertext f) (field_aad_bytes (''rec-a'', ''other'')) = None)) \<and>
    (\<exists>v v' framed f s' t'. Vault_open H E (replicate 32 42) = Ok v \<and> Vault_open H E (replicate 32 99) = Ok v' \<and>
      Vault_encrypt_blob A R v (as_bytes ''secret data'') ''doc-1'' s = (Ok framed, s') \<and>
      (gcm_decrypt A (wrap_key v') (header_iv framed) (header_ct framed) (header_aad ''doc-1'' framed) = None \<longrightarrow>
         fst (blob_from_one_vault_cannot_be_decrypted_by_different_vault A R H E s) = Ok ()) \<and>
      Vault_encrypt_metadata_field A R v (as_bytes ''name'') ''rec-1'' ''document-record'' s = (Ok f, t') \<and>
      (fst (metadata_from_one_vault_cannot_be_decrypted_by_different_vault A R H E s) = Ok () \<longleftrightarrow>
         gcm_decrypt A (metadata_key v') (field_iv f) (ciphertext f) (field_aad_bytes (''rec-1'', ''document-record'')) = None))"
    (is "?key \<and> ?place \<and> ?vault")
proof (intro conjI)
  show ?key
    by (rule field_sealed [OF cl, of "replicate 32 7" "''rec-1''" "''name''" "as_bytes ''secret''" s])
      (simp_all add: wrong_key_fails_def tampered_ciphertext_fails_def st_bind_def Let_def decrypt_field_refuses
        xor_at_def index_in_range)
  show ?place
    by (rule field_sealed [OF cl, of "replicate 32 7" "''rec-a''" "''name''" "as_bytes ''secret''" s])
      (simp_all add: wrong_record_id_fails_def wrong_field_name_fails_def st_bind_def Let_def decrypt_field_refuses)
  obtain v where v: "Vault_open H E (replicate 32 42) = Ok v" using Vault_open_succeeds [OF crates_lawfulD(7) [OF cl]] .
  obtain v' where v': "Vault_open H E (replicate 32 99) = Ok v'" using Vault_open_succeeds [OF crates_lawfulD(7) [OF cl]] .
  have wf: "length (wrap_key v) = 32" "length (metadata_key v) = 32"
    using Vault_open_wf [OF v] by (simp_all add: wf_vault_def)
  obtain f t' where f: "Vault_encrypt_metadata_field A R v (as_bytes ''name'') ''rec-1'' ''document-record'' s = (Ok f, t')"
    by (rule field_sealed [OF cl wf(2), of "''rec-1''" "''document-record''" "as_bytes ''name''" s])
      (simp_all add: Vault_encrypt_metadata_field_def)
  obtain framed s' where b: "Vault_encrypt_blob A R v (as_bytes ''secret data'') ''doc-1'' s = (Ok framed, s')"
    by (rule blob_sealed [OF cl wf(1), of "''doc-1''" "as_bytes ''secret data''" s])
      (simp_all add: Vault_encrypt_blob_def CHUNK_SIZE_def)
  show ?vault
    using v v' f b
    by (intro exI [of _ v] exI [of _ v'] exI [of _ framed] exI [of _ f] exI [of _ s'] exI [of _ t'])
      (simp add: blob_from_one_vault_cannot_be_decrypted_by_different_vault_def
        metadata_from_one_vault_cannot_be_decrypted_by_different_vault_def st_bind_def Vault_decrypt_blob_def
        Vault_decrypt_metadata_field_def decrypt_blob_refuses decrypt_field_refuses)
qed

theorem transplant_tests_depend_on_gcm_witness:
  "\<exists>f s'. encrypt_field ref_aead ref_rng (as_bytes ''secret'') (replicate 32 7) ''rec-a'' ''name'' 0 = (Ok f, s') \<and>
      (fst (wrong_record_id_fails ref_aead ref_rng 0) = Ok () \<longleftrightarrow>
         gcm_decrypt ref_aead (replicate 32 7) (field_iv f) (ciphertext f) (field_aad_bytes (''rec-b'', ''name'')) = None)"
  using transplant_tests_depend_on_gcm [OF ref_crates_lawful, of 0, THEN conjunct2, THEN conjunct1]
  by (elim exE conjE) (intro exI conjI; assumption)

end
