(* ===== verification/Filum_Blob_Tests.thy ===== *)
theory Filum_Blob_Tests
  imports Filum_Tests Filum_File_Guarantees
begin

text \<open>
  The unit tests of \<open>blob.rs\<close> as functions of the model, those of the in-memory codec first, then those
  on files. The names and the temporary directory come from the \<open>tempfile\<close> crate and are parameters.
\<close>

subsection \<open>Fixtures\<close>

definition SIZES :: "nat list" where
  "SIZES = [0, 1, CHUNK_SIZE - 1, CHUNK_SIZE, CHUNK_SIZE + 1, 3 * CHUNK_SIZE + 7]"

definition BLOB_ID :: string where
  "BLOB_ID = ''blob-a''"

definition OTHER_BLOB_ID :: string where
  "OTHER_BLOB_ID = ''blob-b''"

definition make_plaintext :: "nat \<Rightarrow> bytes" where
  "make_plaintext len = map (\<lambda>i. word_of_nat (i mod 251)) [0..<len]"

abbreviation test_key :: bytes where
  "test_key \<equiv> replicate 32 42"

text \<open>\<open>for x in xs { .. }\<close>.\<close>

fun for_each :: "('a \<Rightarrow> ('s, 'e, unit) st) \<Rightarrow> 'a list \<Rightarrow> ('s, 'e, unit) st" where
  "for_each f [] = st_lift (Ok ())"
| "for_each f (x # xs) = st_bind (f x) (\<lambda>_. for_each f xs)"

subsection \<open>The in-memory codec\<close>

definition chunked_in_memory_round_trip_all_sizes ::
  "('e, 'd) aead_lib \<Rightarrow> 'r rng \<Rightarrow> ('r, FilumCryptoError, unit) st" where
  "chunked_in_memory_round_trip_all_sizes A R =
     for_each (\<lambda>len.
       let pt = make_plaintext len in
       st_bind (st_unwrap (encrypt_chunked A R pt test_key BLOB_ID)) (\<lambda>framed.
       st_lift (
         res_bind (unwrap (decrypt_chunked A framed test_key BLOB_ID)) (\<lambda>recovered.
         assert_that (recovered = pt))))) SIZES"

definition encrypted_blob_has_version_2 :: "('e, 'd) aead_lib \<Rightarrow> 'r rng \<Rightarrow> ('r, FilumCryptoError, unit) st" where
  "encrypted_blob_has_version_2 A R =
     st_bind (st_unwrap (encrypt_chunked A R (as_bytes ''some data'') test_key BLOB_ID)) (\<lambda>framed.
     st_lift (res_bind (index framed 0) (\<lambda>b. assert_that (b = 2))))"

definition transplanted_blob_id_fails_in_memory ::
  "('e, 'd) aead_lib \<Rightarrow> 'r rng \<Rightarrow> ('r, FilumCryptoError, unit) st" where
  "transplanted_blob_id_fails_in_memory A R =
     st_bind (st_unwrap (encrypt_chunked A R (as_bytes ''some data'') test_key BLOB_ID)) (\<lambda>framed.
     st_lift (assert_that (decrypt_chunked A framed test_key OTHER_BLOB_ID = Err Aead)))"

definition crafted_version_1_blob_rejected :: "('e, 'd) aead_lib \<Rightarrow> 'r rng \<Rightarrow> ('r, FilumCryptoError, unit) st" where
  "crafted_version_1_blob_rejected A R =
     st_bind (st_unwrap (encrypt_chunked A R (as_bytes ''some data'') test_key BLOB_ID)) (\<lambda>framed.
     st_lift (
       res_bind (index framed 0) (\<lambda>_.
       assert_that (decrypt_chunked A (framed[0 := 1]) test_key BLOB_ID = Err Aead))))"

definition tampered_version_byte_fails :: "('e, 'd) aead_lib \<Rightarrow> 'r rng \<Rightarrow> ('r, FilumCryptoError, unit) st" where
  "tampered_version_byte_fails A R =
     st_bind (st_unwrap (encrypt_chunked A R (as_bytes ''some data'') test_key BLOB_ID)) (\<lambda>framed.
     st_lift (
       res_bind (xor_at framed 0 0xFF) (\<lambda>framed.
       assert_that (decrypt_chunked A framed test_key BLOB_ID = Err Aead))))"

definition tampered_wrapped_key_byte_fails :: "('e, 'd) aead_lib \<Rightarrow> 'r rng \<Rightarrow> ('r, FilumCryptoError, unit) st" where
  "tampered_wrapped_key_byte_fails A R =
     st_bind (st_unwrap (encrypt_chunked A R (as_bytes ''some data'') test_key BLOB_ID)) (\<lambda>framed.
     st_lift (
       res_bind (xor_at framed 20 1) (\<lambda>framed.
       assert_that (decrypt_chunked A framed test_key BLOB_ID = Err Aead))))"

definition tampered_nonce_prefix_byte_fails :: "('e, 'd) aead_lib \<Rightarrow> 'r rng \<Rightarrow> ('r, FilumCryptoError, unit) st" where
  "tampered_nonce_prefix_byte_fails A R =
     st_bind (st_unwrap (encrypt_chunked A R (as_bytes ''some data'') test_key BLOB_ID)) (\<lambda>framed.
     st_lift (
       res_bind (xor_at framed (1 + WRAPPED_KEY_LEN) 1) (\<lambda>framed.
       assert_that (decrypt_chunked A framed test_key BLOB_ID = Err Aead))))"

definition empty_blob_id_rejected_in_memory :: "('e, 'd) aead_lib \<Rightarrow> 'r rng \<Rightarrow> ('r, FilumCryptoError, unit) st" where
  "empty_blob_id_rejected_in_memory A R =
     st_bind (attempt (encrypt_chunked A R (as_bytes ''some data'') test_key '''')) (\<lambda>r.
     st_bind (st_lift (assert_that (r = Err InvalidContext))) (\<lambda>_.
     st_bind (st_unwrap (encrypt_chunked A R (as_bytes ''some data'') test_key BLOB_ID)) (\<lambda>framed.
     st_lift (assert_that (decrypt_chunked A framed test_key '''' = Err InvalidContext)))))"

definition chunked_flipped_body_byte_fails :: "('e, 'd) aead_lib \<Rightarrow> 'r rng \<Rightarrow> ('r, FilumCryptoError, unit) st" where
  "chunked_flipped_body_byte_fails A R =
     (let pt = make_plaintext (CHUNK_SIZE + 100) in
      st_bind (st_unwrap (encrypt_chunked A R pt test_key BLOB_ID)) (\<lambda>framed.
      st_lift (
        res_bind (xor_at framed (HEADER_LEN + 10) 1) (\<lambda>framed.
        assert_that (decrypt_chunked A framed test_key BLOB_ID = Err Aead)))))"

definition chunked_truncation_fails :: "('e, 'd) aead_lib \<Rightarrow> 'r rng \<Rightarrow> ('r, FilumCryptoError, unit) st" where
  "chunked_truncation_fails A R =
     (let pt = make_plaintext (CHUNK_SIZE + 100) in
      st_bind (st_unwrap (encrypt_chunked A R pt test_key BLOB_ID)) (\<lambda>framed.
      st_lift (
        assert_that (decrypt_chunked A (take (length framed - 20) framed) test_key BLOB_ID = Err Aead))))"

text \<open>
  \<open>split_at_mut(second)\<close>, then \<open>a[first..first + ct_chunk].swap_with_slice(&mut b[..ct_chunk])\<close>, with
  the panics of the two slices.
\<close>

definition swap_chunks :: "bytes \<Rightarrow> nat \<Rightarrow> nat \<Rightarrow> nat \<Rightarrow> bytes Result" where
  "swap_chunks xs first_pos second_pos n =
     res_bind (split_at xs second_pos) (\<lambda>(a, b).
     res_bind (slice a first_pos (first_pos + n)) (\<lambda>x.
     res_bind (slice b 0 n) (\<lambda>y.
     Ok (take first_pos a @ y @ drop (first_pos + n) a @ x @ drop n b))))"

definition chunked_swapped_chunks_fail :: "('e, 'd) aead_lib \<Rightarrow> 'r rng \<Rightarrow> ('r, FilumCryptoError, unit) st" where
  "chunked_swapped_chunks_fail A R =
     (let pt = make_plaintext (3 * CHUNK_SIZE + 7) in
      st_bind (st_unwrap (encrypt_chunked A R pt test_key BLOB_ID)) (\<lambda>framed.
      let ct_chunk = CHUNK_SIZE + 16; body_start = HEADER_LEN in
      st_lift (
        res_bind (swap_chunks framed body_start (body_start + ct_chunk) ct_chunk) (\<lambda>tampered.
        assert_that (decrypt_chunked A tampered test_key BLOB_ID = Err Aead)))))"

definition chunked_wrong_wrapping_key_fails :: "('e, 'd) aead_lib \<Rightarrow> 'r rng \<Rightarrow> ('r, FilumCryptoError, unit) st" where
  "chunked_wrong_wrapping_key_fails A R =
     (let key1 = replicate 32 42; key2 = replicate 32 43 in
      st_bind (st_unwrap (encrypt_chunked A R (as_bytes ''some data'') key1 BLOB_ID)) (\<lambda>framed.
      let result = decrypt_chunked A framed key2 BLOB_ID in
      st_lift (assert_that (result = Err Aead))))"

definition chunked_tampered_chunk_size_header_rejected ::
  "('e, 'd) aead_lib \<Rightarrow> 'r rng \<Rightarrow> ('r, FilumCryptoError, unit) st" where
  "chunked_tampered_chunk_size_header_rejected A R =
     st_bind (st_unwrap (encrypt_chunked A R (as_bytes ''some data'') test_key BLOB_ID)) (\<lambda>framed.
     let cs_off = 1 + WRAPPED_KEY_LEN + NONCE_PREFIX_LEN in
     st_lift (
       res_bind (copy_into framed cs_off (cs_off + 4) (u32_to_be_bytes 0xFFFFFFFF)) (\<lambda>tampered.
       assert_that (decrypt_chunked A tampered test_key BLOB_ID = Err Aead))))"

subsection \<open>The in-memory tests pass\<close>

lemma test_ids [simp]: "valid_context BLOB_ID" "valid_context OTHER_BLOB_ID"
  by (simp_all add: BLOB_ID_def OTHER_BLOB_ID_def)

lemma length_make_plaintext [simp]: "length (make_plaintext n) = n"
  by (simp add: make_plaintext_def)

text \<open>Every plaintext of the tests is within the limits.\<close>

lemma test_sizes: "n \<in> set SIZES \<Longrightarrow> n < 2 ^ 32 * CHUNK_SIZE" "CHUNK_SIZE + 100 < 2 ^ 32 * CHUNK_SIZE"
  "3 * CHUNK_SIZE + 7 < 2 ^ 32 * CHUNK_SIZE" "2 * CHUNK_SIZE + 100 < 2 ^ 32 * CHUNK_SIZE"
  by (auto simp: SIZES_def CHUNK_SIZE_def)

lemma for_each_passes:
  assumes "\<And>x s. x \<in> set xs \<Longrightarrow> fst (f x s) = Ok ()"
  shows "fst (for_each f xs s) = Ok ()"
  using assms
proof (induction xs arbitrary: s)
  case (Cons x xs)
  then show ?case by (cases "f x s") (metis fst_conv for_each.simps(2) list.set_intros st_bind_Ok)
qed simp

lemma sealed_header:
  assumes "encrypt_chunked A R pt key i s = (Ok framed, s')"
  shows "72 \<le> length framed" "framed ! 0 = 2" "hd framed = 2" "framed \<noteq> []"
proof -
  obtain dk np iv ct cts where "length np = 7" "length iv = 12" "length ct = 48"
    "framed = write_header [] (iv @ ct) np @ concat cts" using encrypt_chunked_Ok [OF assms] by metis
  then show "72 \<le> length framed" "framed ! 0 = 2" "hd framed = 2" "framed \<noteq> []"
    by (simp_all add: write_header_def VERSION_def)
qed

lemma header_rejected:
  assumes "valid_context i" "framed \<noteq> []" "hd framed \<noteq> 2 \<or> 72 \<le> length framed \<and> take 4 (drop 68 framed) \<noteq> chunk_size_be"
  shows "decrypt_chunked A framed key i = Err Aead"
  using assms by (auto simp: decrypt_chunked_eq open_header_eq VERSION_def)

lemma some_data_sealed:
  assumes "crates_lawful A R H E B"
  obtains framed s' where "encrypt_chunked A R (as_bytes ''some data'') test_key BLOB_ID s = (Ok framed, s')"
    "decrypt_chunked A framed test_key BLOB_ID = Ok (as_bytes ''some data'')"
  by (rule blob_sealed [OF assms, of test_key BLOB_ID "as_bytes ''some data''" s]) (simp_all add: CHUNK_SIZE_def)

lemma memory_tests:
  assumes cl: "crates_lawful A R H E B"
  shows "fst (chunked_in_memory_round_trip_all_sizes A R s) = Ok ()" "fst (encrypted_blob_has_version_2 A R s) = Ok ()"
    "fst (crafted_version_1_blob_rejected A R s) = Ok ()" "fst (tampered_version_byte_fails A R s) = Ok ()"
    "fst (empty_blob_id_rejected_in_memory A R s) = Ok ()" "fst (chunked_tampered_chunk_size_header_rejected A R s) = Ok ()"
proof -
  show "fst (chunked_in_memory_round_trip_all_sizes A R s) = Ok ()"
    unfolding chunked_in_memory_round_trip_all_sizes_def
  proof (rule for_each_passes)
    fix n s
    assume "n \<in> set SIZES"
    then have small: "length (make_plaintext n) < 2 ^ 32 * CHUNK_SIZE" using test_sizes(1) by simp
    show "fst ((let pt = make_plaintext n in
       st_bind (st_unwrap (encrypt_chunked A R pt test_key BLOB_ID)) (\<lambda>framed.
       st_lift (
         res_bind (unwrap (decrypt_chunked A framed test_key BLOB_ID)) (\<lambda>recovered.
         assert_that (recovered = pt))))) s) = Ok ()"
      by (rule blob_sealed [OF cl _ _ small, of test_key BLOB_ID s]) (simp_all add: st_bind_def Let_def)
  qed
  obtain framed s' where e: "encrypt_chunked A R (as_bytes ''some data'') test_key BLOB_ID s = (Ok framed, s')"
    by (rule some_data_sealed [OF cl])
  note h = sealed_header [OF e]
  have "hd (framed[0 := b]) = b" "framed[0 := b] \<noteq> []" for b using h(4) by (cases framed; simp)+
  then have v: "b \<noteq> 2 \<Longrightarrow> decrypt_chunked A (framed[0 := b]) test_key BLOB_ID = Err Aead" for b
    by (intro header_rejected) simp_all
  show "fst (encrypted_blob_has_version_2 A R s) = Ok ()" "fst (crafted_version_1_blob_rejected A R s) = Ok ()"
    "fst (tampered_version_byte_fails A R s) = Ok ()"
    using h by (simp_all add: encrypted_blob_has_version_2_def crafted_version_1_blob_rejected_def
        tampered_version_byte_fails_def st_bind_def e index_in_range xor_at_def v)
  show "fst (empty_blob_id_rejected_in_memory A R s) = Ok ()"
    by (simp add: empty_blob_id_rejected_in_memory_def st_bind_def e attempt_def blob_box.seal_invalid blob_box.unseal_invalid)
  let ?t = "take 68 framed @ u32_to_be_bytes 0xFFFFFFFF @ drop 72 framed"
  have "take 4 (drop 68 ?t) \<noteq> chunk_size_be"
    using h(1) by (simp add: chunk_size_be_value) (simp add: to_be_bytes_def upt_rec)
  then have "decrypt_chunked A ?t test_key BLOB_ID = Err Aead" using h(1) by (intro header_rejected) auto
  then show "fst (chunked_tampered_chunk_size_header_rejected A R s) = Ok ()"
    using h(1) by (simp add: chunked_tampered_chunk_size_header_rejected_def st_bind_def e Let_def WRAPPED_KEY_LEN_def
        NONCE_PREFIX_LEN_def copy_into_in_range)
qed

text \<open>
  The unit tests of the in-memory codec pass. For all lawful primitives and all random draws: round
  trips at every size of the suite (empty, one byte, around a chunk boundary, several chunks), version
  byte 2, and refusal of another version, of an empty identifier, and of a tampered chunk size.
\<close>

theorem blob_tests_pass:
  assumes "crates_lawful A R H E B"
  shows "list_all (\<lambda>t. fst (t s) = Ok ())
     [chunked_in_memory_round_trip_all_sizes A R, encrypted_blob_has_version_2 A R, crafted_version_1_blob_rejected A R,
      tampered_version_byte_fails A R, empty_blob_id_rejected_in_memory A R, chunked_tampered_chunk_size_header_rejected A R]"
  by (simp add: memory_tests [OF assms])

theorem blob_tests_pass_witness:
  "fst (chunked_in_memory_round_trip_all_sizes ref_aead ref_rng 0) = Ok ()"
  using blob_tests_pass [OF ref_crates_lawful, of 0] by simp

text \<open>
  The tests that tamper with the header, transplant the blob or use another key pass if AES-GCM refuses
  the wrapped key that the tampered blob presents.
\<close>

lemma header_refusal_tests:
  assumes cl: "crates_lawful A R H E B"
  shows "\<exists>framed s'. encrypt_chunked A R (as_bytes ''some data'') test_key BLOB_ID s = (Ok framed, s') \<and>
    (let refused = (\<lambda>f key i. gcm_decrypt A key (header_iv f) (header_ct f) (header_aad i f) = None) in
      (refused framed test_key OTHER_BLOB_ID \<longrightarrow> fst (transplanted_blob_id_fails_in_memory A R s) = Ok ()) \<and>
      (refused framed (replicate 32 43) BLOB_ID \<longrightarrow> fst (chunked_wrong_wrapping_key_fails A R s) = Ok ()) \<and>
      (refused (framed[20 := framed ! 20 XOR 1]) test_key BLOB_ID \<longrightarrow> fst (tampered_wrapped_key_byte_fails A R s) = Ok ()) \<and>
      (refused (framed[61 := framed ! 61 XOR 1]) test_key BLOB_ID \<longrightarrow> fst (tampered_nonce_prefix_byte_fails A R s) = Ok ()))"
proof -
  obtain framed s' where e: "encrypt_chunked A R (as_bytes ''some data'') test_key BLOB_ID s = (Ok framed, s')"
    by (rule some_data_sealed [OF cl])
  note h = sealed_header [OF e]
  show ?thesis
    using h by (intro exI [of _ framed] exI [of _ s'])
      (simp add: transplanted_blob_id_fails_in_memory_def chunked_wrong_wrapping_key_fails_def tampered_wrapped_key_byte_fails_def
        tampered_nonce_prefix_byte_fails_def st_bind_def Let_def e index_in_range xor_at_def decrypt_blob_refuses WRAPPED_KEY_LEN_def)
qed

text \<open>A blob with the header of a sealed one is opened by the segments alone.\<close>

lemma same_header_decrypt:
  assumes "crates_lawful A R H E B" "length key = 32" "encrypt_chunked A R pt key i s = (Ok framed, s')"
  shows "\<exists>dec. \<forall>f. 72 \<le> length f \<longrightarrow> take 72 f = take 72 framed \<longrightarrow>
    decrypt_chunked A f key i = ok_or Aead (open_segments A (seg_aad_bytes i) dec (chunks (CHUNK_SIZE + 16) (drop 72 f)))"
proof -
  obtain dk np iv ct cts where e: "valid_context i" "length dk = 32" "length np = 7" "length iv = 12" "length ct = 48"
    "framed = write_header [] (iv @ ct) np @ concat cts" "gcm_encrypt A key iv dk (wrap_aad_bytes i np) = Some ct"
    using encrypt_chunked_Ok [OF assms(3)] by metis
  have "decrypt_chunked A f key i = ok_or Aead (open_segments A (seg_aad_bytes i) (dec_from_aead A dk np)
      (chunks (CHUNK_SIZE + 16) (drop 72 f)))" if f: "72 \<le> length f" "take 72 f = take 72 framed" for f
  proof -
    have "f = write_header [] (iv @ ct) np @ drop 72 f"
      using f e(3-6) append_take_drop_id [of 72 f] by (simp add: write_header_def)
    moreover have "open_header A (write_header [] (iv @ ct) np @ drop 72 f) key i = Ok (np, dk, CHUNK_SIZE)"
      using e gcm_correctD [OF crates_lawfulD(3) [OF assms(1)] assms(2) e(4,7)]
      by (simp add: open_header_written unwrap_data_key_eq)
    moreover have "hd (write_header [] (iv @ ct) np @ drop 72 f) = VERSION" by (simp add: write_header_def)
    ultimately show ?thesis using f(1) decrypt_chunked_eq [OF e(1), of A f key] by simp
  qed
  then show ?thesis by blast
qed

text \<open>The tests that tamper with the body pass exactly if STREAM refuses the tampered segments.\<close>

lemma body_refusal_tests:
  assumes cl: "crates_lawful A R H E B"
  shows "\<exists>framed s' dec. encrypt_chunked A R (make_plaintext (CHUNK_SIZE + 100)) test_key BLOB_ID s = (Ok framed, s') \<and>
    (let refused = (\<lambda>f. open_segments A (seg_aad_bytes BLOB_ID) dec (chunks (CHUNK_SIZE + 16) (drop 72 f)) = None) in
      \<not> refused framed \<and>
      (fst (chunked_flipped_body_byte_fails A R s) = Ok () \<longleftrightarrow> refused (framed[82 := framed ! 82 XOR 1])) \<and>
      (fst (chunked_truncation_fails A R s) = Ok () \<longleftrightarrow> refused (take (length framed - 20) framed)))"
proof -
  obtain framed s' where e: "encrypt_chunked A R (make_plaintext (CHUNK_SIZE + 100)) test_key BLOB_ID s = (Ok framed, s')"
    and d: "decrypt_chunked A framed test_key BLOB_ID = Ok (make_plaintext (CHUNK_SIZE + 100))"
    by (rule blob_sealed [OF cl, of test_key BLOB_ID "make_plaintext (CHUNK_SIZE + 100)" s]) (simp_all add: CHUNK_SIZE_def)
  have "stream_tag16 A" using crates_lawfulD(2) [OF cl] by (simp add: aead_lawful_def)
  from encrypt_chunked_size [OF this e] have len: "72 + CHUNK_SIZE + 100 \<le> length framed" by (simp add: CHUNK_SIZE_def)
  obtain dec where dec: "\<And>f. 72 \<le> length f \<Longrightarrow> take 72 f = take 72 framed \<Longrightarrow> decrypt_chunked A f test_key BLOB_ID =
      ok_or Aead (open_segments A (seg_aad_bytes BLOB_ID) dec (chunks (CHUNK_SIZE + 16) (drop 72 f)))"
    using same_header_decrypt [OF cl length_replicate e] by blast
  have t: "take 72 (take (length framed - 20) framed) = take 72 framed" "72 \<le> length (take (length framed - 20) framed)"
    "take 72 (framed[82 := b]) = take 72 framed" "72 \<le> length (framed[82 := b])" for b
    using len by auto
  show ?thesis
    using len d dec [of framed] dec [OF t(2,1)] dec [OF t(4,3)]
    by (intro exI [of _ framed] exI [of _ s'] exI [of _ dec])
      (auto simp: chunked_flipped_body_byte_fails_def chunked_truncation_fails_def st_bind_def Let_def e xor_at_def
        index_in_range HEADER_LEN_def WRAPPED_KEY_LEN_def NONCE_PREFIX_LEN_def)
qed

lemma swap_test:
  assumes cl: "crates_lawful A R H E B"
  shows "\<exists>framed s' dec. encrypt_chunked A R (make_plaintext (3 * CHUNK_SIZE + 7)) test_key BLOB_ID s = (Ok framed, s') \<and>
    (let c = CHUNK_SIZE + 16; body = drop 72 framed in
      open_segments A (seg_aad_bytes BLOB_ID) dec (chunks c body) \<noteq> None \<and>
      (fst (chunked_swapped_chunks_fail A R s) = Ok () \<longleftrightarrow>
         open_segments A (seg_aad_bytes BLOB_ID) dec (chunks c (take c (drop c body) @ take c body @ drop (2 * c) body)) = None))"
proof -
  let ?c = "CHUNK_SIZE + 16"
  obtain framed s' where e: "encrypt_chunked A R (make_plaintext (3 * CHUNK_SIZE + 7)) test_key BLOB_ID s = (Ok framed, s')"
    and d: "decrypt_chunked A framed test_key BLOB_ID = Ok (make_plaintext (3 * CHUNK_SIZE + 7))"
    by (rule blob_sealed [OF cl, of test_key BLOB_ID "make_plaintext (3 * CHUNK_SIZE + 7)" s]) (simp_all add: CHUNK_SIZE_def)
  have "stream_tag16 A" using crates_lawfulD(2) [OF cl] by (simp add: aead_lawful_def)
  from encrypt_chunked_size [OF this e] have len: "72 + ?c + ?c \<le> length framed" by (simp add: CHUNK_SIZE_def)
  obtain dec where dec: "\<And>f. 72 \<le> length f \<Longrightarrow> take 72 f = take 72 framed \<Longrightarrow> decrypt_chunked A f test_key BLOB_ID =
      ok_or Aead (open_segments A (seg_aad_bytes BLOB_ID) dec (chunks ?c (drop 72 f)))"
    using same_header_decrypt [OF cl length_replicate e] by blast
  define t where "t = take 72 framed @ take ?c (drop (72 + ?c) framed) @ take ?c (drop 72 framed) @ drop (72 + ?c + ?c) framed"
  have "swap_chunks framed 72 (72 + ?c) ?c = Ok t"
    using len by (simp add: swap_chunks_def split_at_in_range slice_in_range t_def drop_take min_def add.assoc)
      (simp add: add.commute)
  moreover have "decrypt_chunked A t test_key BLOB_ID = ok_or Aead (open_segments A (seg_aad_bytes BLOB_ID) dec
      (chunks ?c (take ?c (drop ?c (drop 72 framed)) @ take ?c (drop 72 framed) @ drop (2 * ?c) (drop 72 framed))))"
    using len dec [of t] by (simp add: t_def add.commute add.left_commute)
  ultimately show ?thesis
    using len d dec [of framed]
    by (intro exI [of _ framed] exI [of _ s'] exI [of _ dec])
      (auto simp: chunked_swapped_chunks_fail_def st_bind_def Let_def e HEADER_LEN_def WRAPPED_KEY_LEN_def NONCE_PREFIX_LEN_def)
qed

end
