(* ===== verification/Filum_File_Tests.thy ===== *)
theory Filum_File_Tests
  imports Filum_Blob_Tests
begin

text \<open>
  The unit tests of \<open>blob.rs\<close> on files. \<open>std::fs::write\<close> and \<open>std::fs::read\<close> are modelled; the files and
  the directory of the \<open>tempfile\<close> crate are parameters, with what its documentation promises as a
  hypothesis. The destructors that delete the temporary files at the end of a test are left out: no
  statement looks at the files afterwards.
\<close>

subsection \<open>Files in the tests\<close>

text \<open>\<open>std::fs::write\<close>: \<open>File::create\<close>, then \<open>write_all\<close>, which makes no call for empty data.\<close>

definition fs_write :: "os \<Rightarrow> path \<Rightarrow> bytes \<Rightarrow> ('r world, unit, unit) st" where
  "fs_write os p data =
     st_bind (file_create os p) (\<lambda>wr w.
       if data = [] then (Ok (), w) else (case write_direct os data (wr, w) of (r, s') \<Rightarrow> (r, snd s')))"

text \<open>\<open>File::read_to_end\<close> (the size of its reads is an internal matter; every read is at most this one).\<close>

function (sequential) read_to_end :: "os \<Rightarrow> reader \<Rightarrow> bytes \<Rightarrow> ('r world, unit, bytes) st" where
  "read_to_end os rd out w =
     (case file_read os rd DEFAULT_BUF_SIZE w of
        (Ok (bs, rd1), w1) \<Rightarrow> if bs = [] then (Ok out, w1) else read_to_end os rd1 (out @ bs) w1
      | (Err _, w1) \<Rightarrow> (Err (), w1)
      | (Panic, w1) \<Rightarrow> (Panic, w1))"
  by pat_completeness auto

lemma take_then_rest: "take m xs @ drop (length (take m xs)) xs = xs"
  by (cases "m \<le> length xs") simp_all

lemma file_read_Ok:
  assumes "file_read os rd n w = (Ok (bs, rd'), w')"
  shows "disk w' = disk w" "hist w' = hist w" "rng_state w' = rng_state w" "r_ino rd' = r_ino rd"
    "r_pos rd' = r_pos rd + length bs"
    "bs @ drop (r_pos rd') (contents (node (disk w) (r_ino rd))) = drop (r_pos rd) (contents (node (disk w) (r_ino rd)))"
    "0 < n \<Longrightarrow> bs = [] \<Longrightarrow> drop (r_pos rd) (contents (node (disk w) (r_ino rd))) = []"
proof -
  obtain k where k: "os (clock w) = Go k" "w' = w\<lparr> clock := Suc (clock w) \<rparr>"
    "bs = take (min n (Suc k)) (drop (r_pos rd) (contents (node (disk w) (r_ino rd))))"
    "rd' = rd\<lparr> r_pos := r_pos rd + length bs \<rparr>"
    using assms by (auto simp: file_read_def tick_def Let_def split: io_event.splits)
  let ?xs = "drop (r_pos rd) (contents (node (disk w) (r_ino rd)))"
  show "disk w' = disk w" "hist w' = hist w" "rng_state w' = rng_state w" "r_ino rd' = r_ino rd"
    "r_pos rd' = r_pos rd + length bs" using k(2,4) by simp_all
  have "bs @ drop (length bs) ?xs = ?xs"
    unfolding k(3) by (rule take_then_rest)
  then show "bs @ drop (r_pos rd') (contents (node (disk w) (r_ino rd))) = ?xs"
    by (simp add: k(4) add.commute)
  show "?xs = []" if "0 < n" "bs = []" using that k(3) by (simp add: min_def split: if_splits)
qed

termination read_to_end
proof (relation "measure (\<lambda>(os, rd, out, w). length (contents (node (disk w) (r_ino rd))) - r_pos rd)", goal_cases)
  case (2 os rd out w x w1 y bs rd1)
  then have "file_read os rd DEFAULT_BUF_SIZE w = (Ok (bs, rd1), w1)" by simp
  note fr = file_read_Ok [OF this]
  have "length bs + length (drop (r_pos rd1) (contents (node (disk w) (r_ino rd)))) =
    length (drop (r_pos rd) (contents (node (disk w) (r_ino rd))))" using fr(6) by (metis length_append)
  then show ?case using 2(4) fr(1,4,5) by (cases bs) auto
qed simp

declare read_to_end.simps [simp del]

definition fs_read :: "os \<Rightarrow> path \<Rightarrow> ('r world, unit, bytes) st" where
  "fs_read os p = st_bind (file_open os p) (\<lambda>rd. read_to_end os rd [])"

lemma read_to_end_calm:
  assumes "os_ok os"
  shows "\<exists>w'. read_to_end os rd out w = (Ok (out @ drop (r_pos rd) (contents (node (disk w) (r_ino rd)))), w') \<and>
    quiet w w' \<and> rng_state w' = rng_state w"
  using assms
proof (induction os rd out w rule: read_to_end.induct)
  case (1 os rd out w)
  obtain k where "os (clock w) = Go k" using 1(2) by (auto simp: os_ok_def)
  then obtain bs rd1 w1 where fr: "file_read os rd DEFAULT_BUF_SIZE w = (Ok (bs, rd1), w1)"
    by (simp add: file_read_def tick_def Let_def)
  note ok = file_read_Ok [OF fr]
  show ?case
  proof (cases "bs = []")
    case True
    then show ?thesis
      using fr ok by (simp add: read_to_end.simps [of os rd out w] quiet_def DEFAULT_BUF_SIZE_def)
  next
    case False
    then obtain w' where "read_to_end os rd1 (out @ bs) w1 =
        (Ok ((out @ bs) @ drop (r_pos rd1) (contents (node (disk w1) (r_ino rd1)))), w')" "quiet w1 w'" "rng_state w' = rng_state w1"
      using 1(1) [OF fr [symmetric] refl refl False 1(2)] by blast
    then show ?thesis
      using fr ok False by (simp add: read_to_end.simps [of os rd out w] quiet_def)
  qed
qed

subsection \<open>Worlds the tests run in\<close>

text \<open>No file looks like a temporary sibling; a file with one name only.\<close>

definition part_name :: "path \<Rightarrow> bool" where
  "part_name q \<longleftrightarrow> (\<exists>out. wf_path out \<and> temp_name out q)"

definition no_parts :: "disk \<Rightarrow> bool" where
  "no_parts d \<longleftrightarrow> (\<forall>q. part_name q \<longrightarrow> read_path d q = None)"

definition good :: "'r world \<Rightarrow> bool" where
  "good w \<longleftrightarrow> wf_disk (disk w) \<and> no_parts (disk w) \<and> finite {q. read_path (disk w) q \<noteq> None}"

definition unlinked :: "disk \<Rightarrow> path \<Rightarrow> bool" where
  "unlinked d p \<longleftrightarrow> (\<forall>q. q \<noteq> p \<longrightarrow> \<not> same_file d q p)"

text \<open>
  \<open>NamedTempFile::new\<close> makes an empty file under a name that is not in use (and does not end in
  \<open>.part\<close>); \<open>tempdir\<close> makes an empty directory.
\<close>

type_synonym 'r tempfile = "'r world \<Rightarrow> path \<times> 'r world"

definition tempfile_lawful :: "'r tempfile \<Rightarrow> bool" where
  "tempfile_lawful T \<longleftrightarrow>
     (\<forall>w. good w \<longrightarrow> (case T w of (p, w') \<Rightarrow>
        entries (disk w) p = None \<and> disk w' = disk_with_new p (disk w) \<and> rng_state w' = rng_state w \<and>
        wf_path p \<and> file_name p \<noteq> None \<and> \<not> part_name p))"

definition tempdir_lawful :: "'r tempfile \<Rightarrow> bool" where
  "tempdir_lawful D \<longleftrightarrow>
     (\<forall>w. good w \<longrightarrow> (case D w of (dir, w') \<Rightarrow>
        disk w' = disk w \<and> rng_state w' = rng_state w \<and> wf_path dir \<and> dir \<noteq> [] \<and>
        (\<forall>n. entries (disk w) (dir @ [Normal n]) = None)))"

definition new_temp :: "'r tempfile \<Rightarrow> ('r world, FilumCryptoError, path) st" where
  "new_temp T w = (case T w of (p, w') \<Rightarrow> (Ok p, w'))"

lemma good_step:
  assumes "good w" "wf_disk (disk w')" "\<not> part_name p" "\<And>q. q \<noteq> p \<Longrightarrow> read_path (disk w') q = read_path (disk w) q"
  shows "good w'"
proof -
  have "{q. read_path (disk w') q \<noteq> None} \<subseteq> insert p {q. read_path (disk w) q \<noteq> None}" using assms(4) by auto
  then have "finite {q. read_path (disk w') q \<noteq> None}"
    using assms(1) by (metis (mono_tags, lifting) finite_insert finite_subset good_def)
  then show ?thesis using assms unfolding good_def no_parts_def by metis
qed

lemma temp_free_good: "good w \<Longrightarrow> wf_path out \<Longrightarrow> temp_free R out w"
  unfolding good_def no_parts_def temp_free_def part_name_def
  by (metis map_option_is_None prod.collapse read_path_def sibling_temp_path_cases(2))

definition new_file :: "path \<Rightarrow> 'r world \<Rightarrow> 'r world \<Rightarrow> bool" where
  "new_file p w w' \<longleftrightarrow>
     good w' \<and> read_path (disk w) p = None \<and> read_path (disk w') p = Some [] \<and>
     (\<forall>q. q \<noteq> p \<longrightarrow> read_path (disk w') q = read_path (disk w) q) \<and> unlinked (disk w') p \<and>
     (\<forall>q. read_path (disk w) q \<noteq> None \<longrightarrow> unlinked (disk w) q \<longrightarrow> unlinked (disk w') q) \<and>
     rng_state w' = rng_state w \<and> wf_path p \<and> file_name p \<noteq> None \<and> \<not> part_name p"

lemma new_fileD:
  assumes "new_file p w w'"
  shows "good w'" "read_path (disk w) p = None" "read_path (disk w') p = Some []"
    "q \<noteq> p \<Longrightarrow> read_path (disk w') q = read_path (disk w) q" "unlinked (disk w') p"
    "read_path (disk w) q \<noteq> None \<Longrightarrow> unlinked (disk w) q \<Longrightarrow> unlinked (disk w') q"
    "rng_state w' = rng_state w" "wf_path p" "file_name p \<noteq> None" "\<not> part_name p"
  using assms by (simp_all add: new_file_def)

definition wrote :: "path \<Rightarrow> bytes \<Rightarrow> 'r world \<Rightarrow> 'r world \<Rightarrow> bool" where
  "wrote p data w w' \<longleftrightarrow>
     good w' \<and> read_path (disk w') p = Some data \<and> (\<forall>q. q \<noteq> p \<longrightarrow> read_path (disk w') q = read_path (disk w) q)"

lemma wroteD:
  assumes "wrote p data w w'"
  shows "good w'" "read_path (disk w') p = Some data" "q \<noteq> p \<Longrightarrow> read_path (disk w') q = read_path (disk w) q"
  using assms by (simp_all add: wrote_def)

lemma new_temp_spec:
  assumes "tempfile_lawful T" "good w"
  obtains p w' where "new_temp T w = (Ok p, w')" "new_file p w w'"
proof -
  obtain p w' where T: "T w = (p, w')" by (metis surj_pair)
  have t: "entries (disk w) p = None" "disk w' = disk_with_new p (disk w)" "rng_state w' = rng_state w" "wf_path p"
    "file_name p \<noteq> None" "\<not> part_name p"
    using assms T by (auto simp: tempfile_lawful_def)
  have wf: "wf_disk (disk w)" using assms(2) by (simp add: good_def)
  have fresh: "entries (disk w) q \<noteq> Some (next_ino (disk w))" for q using wf by (auto simp: wf_disk_def)
  have old: "read_path (disk w') q = read_path (disk w) q" if "q \<noteq> p" for q
    using that wf by (cases "entries (disk w) q") (auto simp: t(2) disk_with_new_def read_path_def wf_disk_def)
  have "good w'"
    by (rule good_step [OF assms(2) _ t(6) old]) (simp_all add: t(2) wf_disk_with_new [OF wf])
  moreover have "unlinked (disk w') p" "\<And>q. unlinked (disk w) q \<Longrightarrow> read_path (disk w) q \<noteq> None \<Longrightarrow> unlinked (disk w') q"
    using t(1) fresh by (auto simp: unlinked_def same_file_def t(2) disk_with_new_def read_path_def)
  ultimately show thesis
    using that [of p w'] t T old by (simp add: new_temp_def new_file_def read_path_def disk_with_new_def)
qed

lemma fs_write_spec:
  assumes os: "os_ok os" and w: "good w" and p: "\<not> part_name p" "unlinked (disk w) p"
  obtains w' where "fs_write os p data w = (Ok (), w')" "wrote p data w w'" "rng_state w' = rng_state w"
proof -
  obtain r w1 where cr: "file_create os p w = (r, w1)" by (metis surj_pair)
  obtain wr where r: "r = Ok wr" using file_create_cases(3) [OF cr os] by blast
  note fc = file_create_Ok [OF cr [unfolded r]] file_create_cases(2) [OF cr]
  have wf: "wf_disk (disk w)" using w by (simp add: good_def)
  obtain r2 wr2 w2 where wd: "write_direct os data (wr, w1) = (r2, wr2, w2)" by (metis surj_pair)
  note dc = write_direct_cases [OF wd]
  define w' where "w' = (if data = [] then w1 else w2)"
  have run: "fs_write os p data w = (Ok (), w')"
    using cr r wd dc(3) [OF os] by (simp add: fs_write_def st_bind_def w'_def)
  have on: "only_node (w_ino wr) (disk w1) (disk w')" "rng_state w' = rng_state w1"
    using dc(1) by (auto simp: w'_def writes_def touches_def only_node_refl)
  have new: "contents (node (disk w') (w_ino wr)) = data"
    using dc(4) dc(3) [OF os] dc(5) fc(1,3) by (auto simp: w'_def written_def)
  have old: "read_path (disk w') q = read_path (disk w) q" if q: "q \<noteq> p" for q
  proof (cases "entries (disk w) q")
    case (Some j)
    then have "j \<noteq> w_ino wr"
      using file_create_other_node [OF cr [unfolded r] wf] p(2) q by (auto simp: unlinked_def)
    then show ?thesis using Some on(1) fc(2) fc(4) [of j] q by (simp add: read_path_def only_node_def)
  qed (use q on(1) fc(2) in \<open>simp add: read_path_def only_node_def\<close>)
  have "good w'" by (rule good_step [OF w _ p(1) old]) (use wf_only_node [OF on(1)] fc(6) wf in simp)
  moreover have "read_path (disk w') p = Some data" using on(1) fc(2) new by (simp add: read_path_def only_node_def)
  ultimately show thesis using that run old on(2) fc(7) by (simp add: wrote_def)
qed

lemma fs_read_spec:
  assumes "os_ok os" "read_path (disk w) p = Some data"
  obtains w' where "fs_read os p w = (Ok data, w')" "disk w' = disk w" "rng_state w' = rng_state w"
proof -
  obtain r w1 where op: "file_open os p w = (r, w1)" by (metis surj_pair)
  obtain k where "os (clock w) = Go k" using assms(1) by (auto simp: os_ok_def)
  then obtain rd where rd: "r = Ok rd" "r_pos rd = 0" "contents (node (disk w) (r_ino rd)) = data" "disk w1 = disk w"
      "rng_state w1 = rng_state w"
    using assms(2) op by (auto simp: file_open_def tick_def read_path_def)
  from read_to_end_calm [OF assms(1), of rd "[]" w1] rd show thesis
    using that op by (auto simp: fs_read_def st_bind_def quiet_def)
qed

text \<open>The file codecs in such a world.\<close>

lemma encrypt_in_test:
  assumes cl: "crates_lawful A R H E B" and os: "os_ok os" and w: "good w"
    and src: "read_path (disk w) src = Some pt" "src \<noteq> enc" "length pt < 2 ^ 32 * CHUNK_SIZE"
    and enc: "unlinked (disk w) enc" "\<not> part_name enc"
  obtains framed s' w' where "encrypt_file_chunked A R os src enc test_key BLOB_ID w = Some (Ok (), w')"
    "encrypt_chunked A R pt test_key BLOB_ID (rng_state w) = (Ok framed, s')" "wrote enc framed w w'"
proof -
  have ns: "\<not> same_file (disk w) q enc" if "q \<noteq> enc" for q using enc(1) that by (simp add: unlinked_def)
  obtain framed s' where e: "encrypt_chunked A R pt test_key BLOB_ID (rng_state w) = (Ok framed, s')"
    by (rule blob_sealed [OF cl length_replicate _ src(3), of BLOB_ID]) simp
  have wf: "wf_disk (disk w)" using w by (simp add: good_def)
  show thesis
  proof (rule encrypt_file_spec [OF wf src(1) ns [OF src(2)], of A R os test_key BLOB_ID], goal_cases)
    case (1 r w')
    then have r: "r = Ok ()" using os e by (cases r) auto
    have old: "read_path (disk w') q = read_path (disk w) q" if "q \<noteq> enc" for q using 1(6) ns that by blast
    then have "good w'" by (rule good_step [OF w 1(7) enc(2)])
    then show ?case using that [of w' framed s'] 1(1,4) r e old by (auto simp: wrote_def)
  qed
qed

lemma decrypt_in_test:
  assumes cl: "crates_lawful A R H E B" "stream_min16 A" and os: "os_ok os" and w: "good w"
    and enc: "read_path (disk w) enc = Some framed" and dec: "wf_path dec" "file_name dec \<noteq> None" "\<not> part_name dec"
  shows "decrypt_chunked A framed key i = Ok pt \<Longrightarrow> \<not> (CHUNK_SIZE + 16) dvd (length framed - 72) \<Longrightarrow>
      \<exists>w'. decrypt_file_chunked A R os enc dec key i w = Some (Ok (), w') \<and> wrote dec pt w w'"
    "\<forall>pt. decrypt_chunked A framed key i = Ok pt \<longrightarrow> (CHUNK_SIZE + 16) dvd (length framed - 72) \<Longrightarrow>
      valid_context i \<Longrightarrow> 72 \<le> length framed \<Longrightarrow>
      \<exists>w'. decrypt_file_chunked A R os enc dec key i w = Some (Err Aead, w') \<and> good w' \<and> read_path (disk w') = read_path (disk w)"
proof -
  have wf: "wf_disk (disk w)" using w by (simp add: good_def)
  note free = temp_free_good [OF w dec(1), of R] and rng = crates_lawfulD(1) [OF cl(1)]
  obtain r w' where run: "decrypt_file_chunked A R os enc dec key i w = Some (r, w')"
    using decrypt_file_returns [OF wf free cl(2)] .
  note dr = decrypt_file_run [OF wf free cl(2) run]
  show "\<exists>w'. decrypt_file_chunked A R os enc dec key i w = Some (Ok (), w') \<and> wrote dec pt w w'"
    if d: "decrypt_chunked A framed key i = Ok pt" "\<not> (CHUNK_SIZE + 16) dvd (length framed - 72)"
  proof (rule decrypt_file_succeeds [OF wf free cl(2) os rng dec(2) enc d], goal_cases)
    case (1 w2)
    note pe = published_effects [OF 1(2) wf dec(1)]
    have "good w2" by (rule good_step [OF w decrypt_file_run(2) [OF wf free cl(2) 1(1)] dec(3) pe(3)])
    then show ?case using 1(1) pe(1,3) by (auto simp: wrote_def)
  qed
  show "\<exists>w'. decrypt_file_chunked A R os enc dec key i w = Some (Err Aead, w') \<and> good w' \<and> read_path (disk w') = read_path (disk w)"
    if d: "\<forall>pt. decrypt_chunked A framed key i = Ok pt \<longrightarrow> (CHUNK_SIZE + 16) dvd (length framed - 72)"
      "valid_context i" "72 \<le> length framed"
  proof -
    have "r \<noteq> Ok ()" using dr(4) enc d(1) by fastforce
    then obtain e' where r: "r = Err e'" using dr(1) by (cases r) auto
    have "e' = Aead" using dr(5) [OF r os enc] rng dec(2) d(2,3) decrypt_chunked_errors(2) [OF d(2), of A framed key e'] by auto
    have rp: "read_path (disk w') = read_path (disk w)" using left_aside_effects(2) [OF dr(3) [OF r] wf os] by blast
    then have "good w'" using w dr(2) by (simp add: good_def no_parts_def)
    then show ?thesis using run r rp \<open>e' = Aead\<close> by blast
  qed
qed

subsection \<open>The tests\<close>

definition io_unwrap :: "('s, 'e, 'a) io \<Rightarrow> ('s, 'f, 'a) io" where
  "io_unwrap m s = map_option (\<lambda>(r, s'). (unwrap r, s')) (m s)"

definition io_attempt :: "('s, 'e, 'a) io \<Rightarrow> ('s, 'f, ('e, 'a) outcome) io" where
  "io_attempt m s = map_option (\<lambda>(r, s'). (if r = Panic then Panic else Ok r, s')) (m s)"

definition io_assert :: "bool \<Rightarrow> ('s, 'e, unit) io" where
  "io_assert b = io_st (st_lift (assert_that b))"

fun io_for_each :: "('a \<Rightarrow> ('s, 'e, unit) io) \<Rightarrow> 'a list \<Rightarrow> ('s, 'e, unit) io" where
  "io_for_each f [] = io_st (st_lift (Ok ()))"
| "io_for_each f (x # xs) = io_bind (f x) (\<lambda>_. io_for_each f xs)"

definition file_round_trip ::
  "('e, 'd) aead_lib \<Rightarrow> 'r rng \<Rightarrow> os \<Rightarrow> 'r tempfile \<Rightarrow> bytes \<Rightarrow> ('r world, FilumCryptoError, unit) io" where
  "file_round_trip A R os T pt =
     io_bind (io_st (new_temp T)) (\<lambda>src.
     io_bind (io_st (st_unwrap (fs_write os src pt))) (\<lambda>_.
     io_bind (io_st (new_temp T)) (\<lambda>enc.
     io_bind (io_st (new_temp T)) (\<lambda>dec.
     io_bind (io_unwrap (encrypt_file_chunked A R os src enc test_key BLOB_ID)) (\<lambda>_.
     io_bind (io_unwrap (decrypt_file_chunked A R os enc dec test_key BLOB_ID)) (\<lambda>_.
     io_bind (io_st (st_unwrap (fs_read os dec))) (\<lambda>recovered.
     io_assert (recovered = pt))))))))"

definition chunked_file_round_trip_all_sizes ::
  "('e, 'd) aead_lib \<Rightarrow> 'r rng \<Rightarrow> os \<Rightarrow> 'r tempfile \<Rightarrow> ('r world, FilumCryptoError, unit) io" where
  "chunked_file_round_trip_all_sizes A R os T = io_for_each (\<lambda>len. file_round_trip A R os T (make_plaintext len)) SIZES"

definition mem_encrypt_file_decrypt ::
  "('e, 'd) aead_lib \<Rightarrow> 'r rng \<Rightarrow> os \<Rightarrow> 'r tempfile \<Rightarrow> bytes \<Rightarrow> ('r world, FilumCryptoError, unit) io" where
  "mem_encrypt_file_decrypt A R os T pt =
     io_bind (io_st (with_rng (st_unwrap (encrypt_chunked A R pt test_key BLOB_ID)))) (\<lambda>framed.
     io_bind (io_st (new_temp T)) (\<lambda>enc.
     io_bind (io_st (st_unwrap (fs_write os enc framed))) (\<lambda>_.
     io_bind (io_st (new_temp T)) (\<lambda>dec.
     io_bind (io_unwrap (decrypt_file_chunked A R os enc dec test_key BLOB_ID)) (\<lambda>_.
     io_bind (io_st (st_unwrap (fs_read os dec))) (\<lambda>recovered.
     io_assert (recovered = pt)))))))"

definition file_encrypt_mem_decrypt ::
  "('e, 'd) aead_lib \<Rightarrow> 'r rng \<Rightarrow> os \<Rightarrow> 'r tempfile \<Rightarrow> bytes \<Rightarrow> ('r world, FilumCryptoError, unit) io" where
  "file_encrypt_mem_decrypt A R os T pt =
     io_bind (io_st (new_temp T)) (\<lambda>src.
     io_bind (io_st (st_unwrap (fs_write os src pt))) (\<lambda>_.
     io_bind (io_st (new_temp T)) (\<lambda>enc.
     io_bind (io_unwrap (encrypt_file_chunked A R os src enc test_key BLOB_ID)) (\<lambda>_.
     io_bind (io_st (st_unwrap (fs_read os enc))) (\<lambda>framed.
     io_bind (io_st (st_lift (unwrap (decrypt_chunked A framed test_key BLOB_ID)))) (\<lambda>recovered.
     io_assert (recovered = pt)))))))"

definition in_memory_and_file_formats_are_interchangeable ::
  "('e, 'd) aead_lib \<Rightarrow> 'r rng \<Rightarrow> os \<Rightarrow> 'r tempfile \<Rightarrow> ('r world, FilumCryptoError, unit) io" where
  "in_memory_and_file_formats_are_interchangeable A R os T =
     io_for_each (\<lambda>len.
       let pt = make_plaintext len in
       io_bind (mem_encrypt_file_decrypt A R os T pt) (\<lambda>_.
       file_encrypt_mem_decrypt A R os T pt)) SIZES"

definition empty_blob_id_rejected_file_codec ::
  "('e, 'd) aead_lib \<Rightarrow> 'r rng \<Rightarrow> os \<Rightarrow> 'r tempfile \<Rightarrow> ('r world, FilumCryptoError, unit) io" where
  "empty_blob_id_rejected_file_codec A R os T =
     io_bind (io_st (new_temp T)) (\<lambda>src.
     io_bind (io_st (st_unwrap (fs_write os src (as_bytes ''some data'')))) (\<lambda>_.
     io_bind (io_st (new_temp T)) (\<lambda>enc.
     io_bind (io_attempt (encrypt_file_chunked A R os src enc test_key '''')) (\<lambda>r1.
     io_bind (io_assert (r1 = Err InvalidContext)) (\<lambda>_.
     io_bind (io_unwrap (encrypt_file_chunked A R os src enc test_key BLOB_ID)) (\<lambda>_.
     io_bind (io_st (new_temp T)) (\<lambda>dec.
     io_bind (io_attempt (decrypt_file_chunked A R os enc dec test_key '''')) (\<lambda>r2.
     io_assert (r2 = Err InvalidContext)))))))))"

text \<open>The names in a directory.\<close>

definition dir_contains_exactly :: "disk \<Rightarrow> path \<Rightarrow> string list \<Rightarrow> bool" where
  "dir_contains_exactly d dir expected \<longleftrightarrow> {n. read_path d (dir @ [Normal n]) \<noteq> None} = set expected"

definition assert_dir_contains_exactly :: "path \<Rightarrow> string list \<Rightarrow> ('r world, FilumCryptoError, unit) io" where
  "assert_dir_contains_exactly dir expected w = io_assert (dir_contains_exactly (disk w) dir expected) w"

definition decrypt_file_success_leaves_only_output ::
  "('e, 'd) aead_lib \<Rightarrow> 'r rng \<Rightarrow> os \<Rightarrow> 'r tempfile \<Rightarrow> ('r world, FilumCryptoError, unit) io" where
  "decrypt_file_success_leaves_only_output A R os D =
     (let pt = make_plaintext (3 * CHUNK_SIZE + 7) in
      io_bind (io_st (with_rng (st_unwrap (encrypt_chunked A R pt test_key BLOB_ID)))) (\<lambda>framed.
      io_bind (io_st (new_temp D)) (\<lambda>dir.
      let enc_path = path_push dir ''blob.enc''; out_path = path_push dir ''out.bin'' in
      io_bind (io_st (st_unwrap (fs_write os enc_path framed))) (\<lambda>_.
      io_bind (io_unwrap (decrypt_file_chunked A R os enc_path out_path test_key BLOB_ID)) (\<lambda>_.
      io_bind (io_st (st_unwrap (fs_read os out_path))) (\<lambda>recovered.
      io_bind (io_assert (recovered = pt)) (\<lambda>_.
      assert_dir_contains_exactly dir [''blob.enc'', ''out.bin''])))))))"

text \<open>The part the three failing tests share, from the tempdir on.\<close>

definition decrypt_leaves_only_blob ::
  "('e, 'd) aead_lib \<Rightarrow> 'r rng \<Rightarrow> os \<Rightarrow> 'r tempfile \<Rightarrow> bytes \<Rightarrow> bytes \<Rightarrow> ('r world, FilumCryptoError, unit) io" where
  "decrypt_leaves_only_blob A R os D key framed =
     io_bind (io_st (new_temp D)) (\<lambda>dir.
     let enc_path = path_push dir ''blob.enc''; out_path = path_push dir ''out.bin'' in
     io_bind (io_st (st_unwrap (fs_write os enc_path framed))) (\<lambda>_.
     io_bind (io_attempt (decrypt_file_chunked A R os enc_path out_path key BLOB_ID)) (\<lambda>result.
     io_bind (io_assert (result = Err Aead)) (\<lambda>_.
     io_bind (\<lambda>w. io_assert (read_path (disk w) out_path = None) w) (\<lambda>_.
     assert_dir_contains_exactly dir [''blob.enc''])))))"

definition decrypt_file_truncated_at_segment_boundary_leaves_no_output ::
  "('e, 'd) aead_lib \<Rightarrow> 'r rng \<Rightarrow> os \<Rightarrow> 'r tempfile \<Rightarrow> ('r world, FilumCryptoError, unit) io" where
  "decrypt_file_truncated_at_segment_boundary_leaves_no_output A R os D =
     (let pt = make_plaintext (3 * CHUNK_SIZE + 7) in
      io_bind (io_st (with_rng (st_unwrap (encrypt_chunked A R pt test_key BLOB_ID)))) (\<lambda>framed.
      io_bind (io_st (st_lift (slice framed 0 (HEADER_LEN + 2 * (CHUNK_SIZE + 16))))) (\<lambda>cut.
      decrypt_leaves_only_blob A R os D test_key cut)))"

definition decrypt_file_tampered_midstream_leaves_no_output ::
  "('e, 'd) aead_lib \<Rightarrow> 'r rng \<Rightarrow> os \<Rightarrow> 'r tempfile \<Rightarrow> ('r world, FilumCryptoError, unit) io" where
  "decrypt_file_tampered_midstream_leaves_no_output A R os D =
     (let pt = make_plaintext (2 * CHUNK_SIZE + 100) in
      io_bind (io_st (with_rng (st_unwrap (encrypt_chunked A R pt test_key BLOB_ID)))) (\<lambda>framed.
      io_bind (io_st (st_lift (xor_at framed (HEADER_LEN + (CHUNK_SIZE + 16) + 10) 1))) (\<lambda>framed.
      decrypt_leaves_only_blob A R os D test_key framed)))"

definition decrypt_file_wrong_key_creates_no_files ::
  "('e, 'd) aead_lib \<Rightarrow> 'r rng \<Rightarrow> os \<Rightarrow> 'r tempfile \<Rightarrow> ('r world, FilumCryptoError, unit) io" where
  "decrypt_file_wrong_key_creates_no_files A R os D =
     (let key1 = replicate 32 42; key2 = replicate 32 43 in
      io_bind (io_st (with_rng (st_unwrap (encrypt_chunked A R (as_bytes ''some data'') key1 BLOB_ID)))) (\<lambda>framed.
      io_bind (io_st (new_temp D)) (\<lambda>dir.
      let enc_path = path_push dir ''blob.enc''; out_path = path_push dir ''out.bin'' in
      io_bind (io_st (st_unwrap (fs_write os enc_path framed))) (\<lambda>_.
      io_bind (io_attempt (decrypt_file_chunked A R os enc_path out_path key2 BLOB_ID)) (\<lambda>result.
      io_bind (io_assert (result = Err Aead)) (\<lambda>_.
      assert_dir_contains_exactly dir [''blob.enc'']))))))"

definition transplanted_blob_id_fails_file_codec ::
  "('e, 'd) aead_lib \<Rightarrow> 'r rng \<Rightarrow> os \<Rightarrow> 'r tempfile \<Rightarrow> ('r world, FilumCryptoError, unit) io" where
  "transplanted_blob_id_fails_file_codec A R os T =
     io_bind (io_st (new_temp T)) (\<lambda>src.
     io_bind (io_st (st_unwrap (fs_write os src (as_bytes ''some data'')))) (\<lambda>_.
     io_bind (io_st (new_temp T)) (\<lambda>enc.
     io_bind (io_unwrap (encrypt_file_chunked A R os src enc test_key BLOB_ID)) (\<lambda>_.
     io_bind (io_st (new_temp T)) (\<lambda>dec.
     io_bind (io_attempt (decrypt_file_chunked A R os enc dec test_key OTHER_BLOB_ID)) (\<lambda>r.
     io_assert (r = Err Aead)))))))"

definition transplanted_blob_id_fails_mem_encrypt_file_decrypt ::
  "('e, 'd) aead_lib \<Rightarrow> 'r rng \<Rightarrow> os \<Rightarrow> 'r tempfile \<Rightarrow> ('r world, FilumCryptoError, unit) io" where
  "transplanted_blob_id_fails_mem_encrypt_file_decrypt A R os T =
     io_bind (io_st (with_rng (st_unwrap (encrypt_chunked A R (as_bytes ''some data'') test_key BLOB_ID)))) (\<lambda>framed.
     io_bind (io_st (new_temp T)) (\<lambda>enc.
     io_bind (io_st (st_unwrap (fs_write os enc framed))) (\<lambda>_.
     io_bind (io_st (new_temp T)) (\<lambda>dec.
     io_bind (io_attempt (decrypt_file_chunked A R os enc dec test_key OTHER_BLOB_ID)) (\<lambda>r.
     io_assert (r = Err Aead))))))"

definition transplanted_blob_id_fails_file_encrypt_mem_decrypt ::
  "('e, 'd) aead_lib \<Rightarrow> 'r rng \<Rightarrow> os \<Rightarrow> 'r tempfile \<Rightarrow> ('r world, FilumCryptoError, unit) io" where
  "transplanted_blob_id_fails_file_encrypt_mem_decrypt A R os T =
     io_bind (io_st (new_temp T)) (\<lambda>src.
     io_bind (io_st (st_unwrap (fs_write os src (as_bytes ''some data'')))) (\<lambda>_.
     io_bind (io_st (new_temp T)) (\<lambda>enc.
     io_bind (io_unwrap (encrypt_file_chunked A R os src enc test_key BLOB_ID)) (\<lambda>_.
     io_bind (io_st (st_unwrap (fs_read os enc))) (\<lambda>framed.
     io_assert (decrypt_chunked A framed test_key OTHER_BLOB_ID = Err Aead))))))"

subsection \<open>Running the tests\<close>

lemmas io_run = io_bind_def io_st_def io_unwrap_def io_attempt_def io_assert_def st_unwrap_def with_rng_def

lemma good_rng [simp]: "good (w\<lparr> rng_state := g \<rparr>) = good w"
  by (simp add: good_def)

text \<open>A loop passes if each turn passes from a good world and ends in one.\<close>

definition passes :: "('r world, FilumCryptoError, unit) io \<Rightarrow> 'r world \<Rightarrow> bool" where
  "passes t w \<longleftrightarrow> (\<exists>w'. t w = Some (Ok (), w') \<and> good w')"

lemma passes_bind: "passes t w \<Longrightarrow> (\<And>w'. good w' \<Longrightarrow> passes u w') \<Longrightarrow> passes (io_bind t (\<lambda>_. u)) w"
  by (auto simp: passes_def io_bind_def)

lemma passes_for_each:
  assumes "\<And>x w. x \<in> set xs \<Longrightarrow> good w \<Longrightarrow> passes (f x) w"
  shows "good w \<Longrightarrow> passes (io_for_each f xs) w"
  using assms
proof (induction xs arbitrary: w)
  case (Cons x xs)
  then have "passes (f x) w" "\<And>w. good w \<Longrightarrow> passes (io_for_each f xs) w" by simp_all
  then show ?case by (simp add: passes_bind)
qed (simp add: passes_def io_st_def)

lemma round_trip_turn:
  assumes cl: "crates_lawful A R H E B" "stream_min16 A" and os: "os_ok os" and T: "tempfile_lawful T" and w: "good w"
    and pt: "length pt < 2 ^ 32 * CHUNK_SIZE"
  shows "passes (file_round_trip A R os T pt) w"
proof -
  obtain src w1 where s: "new_temp T w = (Ok src, w1)" "new_file src w w1" by (rule new_temp_spec [OF T w])
  obtain w2 where s2: "fs_write os src pt w1 = (Ok (), w2)" "wrote src pt w1 w2"
    by (rule fs_write_spec [OF os new_fileD(1,10,5) [OF s(2)]])
  obtain enc w3 where e: "new_temp T w2 = (Ok enc, w3)" "new_file enc w2 w3" by (rule new_temp_spec [OF T wroteD(1) [OF s2(2)]])
  obtain dec w4 where d: "new_temp T w3 = (Ok dec, w4)" "new_file dec w3 w4" by (rule new_temp_spec [OF T new_fileD(1) [OF e(2)]])
  have se: "src \<noteq> enc" using wroteD(2) [OF s2(2)] new_fileD(2) [OF e(2)] by auto
  then have src3: "read_path (disk w3) src = Some pt" using wroteD(2) [OF s2(2)] new_fileD(4) [OF e(2)] by simp
  then have "src \<noteq> dec" using new_fileD(2) [OF d(2)] by auto
  then have src4: "read_path (disk w4) src = Some pt" using src3 new_fileD(4) [OF d(2)] by simp
  have enc4: "unlinked (disk w4) enc" using new_fileD(6) [OF d(2)] new_fileD(3,5) [OF e(2)] by simp
  obtain framed g w5 where en: "encrypt_file_chunked A R os src enc test_key BLOB_ID w4 = Some (Ok (), w5)"
    "encrypt_chunked A R pt test_key BLOB_ID (rng_state w4) = (Ok framed, g)" "wrote enc framed w4 w5"
    by (rule encrypt_in_test [OF cl(1) os new_fileD(1) [OF d(2)] src4 se pt enc4 new_fileD(10) [OF e(2)]])
  have "stream_tag16 A" "decrypt_chunked A framed test_key BLOB_ID = Ok pt"
    using crates_lawfulD(2) [OF cl(1)] blob_box.roundtrip [OF _ length_replicate en(2)] by (simp_all add: aead_lawful_def)
  then obtain w6 where de: "decrypt_file_chunked A R os enc dec test_key BLOB_ID w5 = Some (Ok (), w6)" "wrote dec pt w5 w6"
    using decrypt_in_test(1) [OF cl os wroteD(1,2) [OF en(3)] new_fileD(8,9,10) [OF d(2)]] encrypt_chunked_unaligned [OF _ en(2)]
    by blast
  obtain w7 where "fs_read os dec w6 = (Ok pt, w7)" "disk w7 = disk w6" by (rule fs_read_spec [OF os wroteD(2) [OF de(2)]])
  then show ?thesis
    using s(1) s2(1) e(1) d(1) en(1) de(1) wroteD(1) [OF de(2)] by (simp add: file_round_trip_def passes_def io_run good_def)
qed

text \<open>The beginning three tests share: a source file, and its encryption.\<close>

lemma source_encrypted:
  assumes cl: "crates_lawful A R H E B" and os: "os_ok os" and T: "tempfile_lawful T" and w: "good w"
    and pt: "length pt < 2 ^ 32 * CHUNK_SIZE"
  obtains src w1 w2 enc w3 framed g w4 where "new_temp T w = (Ok src, w1)" "fs_write os src pt w1 = (Ok (), w2)"
    "new_temp T w2 = (Ok enc, w3)" "good w3" "encrypt_file_chunked A R os src enc test_key BLOB_ID w3 = Some (Ok (), w4)"
    "encrypt_chunked A R pt test_key BLOB_ID (rng_state w3) = (Ok framed, g)" "wrote enc framed w3 w4" "rng_state w3 = rng_state w"
proof -
  obtain src w1 where s: "new_temp T w = (Ok src, w1)" "new_file src w w1" by (rule new_temp_spec [OF T w])
  obtain w2 where s2: "fs_write os src pt w1 = (Ok (), w2)" "wrote src pt w1 w2" "rng_state w2 = rng_state w1"
    by (rule fs_write_spec [OF os new_fileD(1,10,5) [OF s(2)]])
  obtain enc w3 where e: "new_temp T w2 = (Ok enc, w3)" "new_file enc w2 w3" by (rule new_temp_spec [OF T wroteD(1) [OF s2(2)]])
  have se: "src \<noteq> enc" using wroteD(2) [OF s2(2)] new_fileD(2) [OF e(2)] by auto
  then have src3: "read_path (disk w3) src = Some pt" using wroteD(2) [OF s2(2)] new_fileD(4) [OF e(2)] by simp
  obtain framed g w4 where "encrypt_file_chunked A R os src enc test_key BLOB_ID w3 = Some (Ok (), w4)"
    "encrypt_chunked A R pt test_key BLOB_ID (rng_state w3) = (Ok framed, g)" "wrote enc framed w3 w4"
    by (rule encrypt_in_test [OF cl os new_fileD(1) [OF e(2)] src3 se pt new_fileD(5) [OF e(2)] new_fileD(10) [OF e(2)]])
  then show thesis
    using that s(1) s2(1) e(1) new_fileD(1) [OF e(2)] new_fileD(7) [OF e(2)] new_fileD(7) [OF s(2)] s2(3) by metis
qed

text \<open>A blob on disk and a fresh destination.\<close>

lemma blob_written:
  assumes os: "os_ok os" and T: "tempfile_lawful T" and w: "good w"
  obtains enc w1 w2 dec w3 where "new_temp T w = (Ok enc, w1)" "fs_write os enc framed w1 = (Ok (), w2)"
    "new_temp T w2 = (Ok dec, w3)" "new_file dec w2 w3" "read_path (disk w3) enc = Some framed"
proof -
  obtain enc w1 where s: "new_temp T w = (Ok enc, w1)" "new_file enc w w1" by (rule new_temp_spec [OF T w])
  obtain w2 where s2: "fs_write os enc framed w1 = (Ok (), w2)" "wrote enc framed w1 w2"
    by (rule fs_write_spec [OF os new_fileD(1,10,5) [OF s(2)]])
  obtain dec w3 where e: "new_temp T w2 = (Ok dec, w3)" "new_file dec w2 w3" by (rule new_temp_spec [OF T wroteD(1) [OF s2(2)]])
  have "enc \<noteq> dec" using wroteD(2) [OF s2(2)] new_fileD(2) [OF e(2)] by auto
  then show thesis using that s(1) s2(1) e wroteD(2) [OF s2(2)] new_fileD(4) [OF e(2)] by simp
qed

lemma mem_to_file:
  assumes cl: "crates_lawful A R H E B" "stream_min16 A" and os: "os_ok os" and T: "tempfile_lawful T" and w: "good w"
    and pt: "length pt < 2 ^ 32 * CHUNK_SIZE"
  shows "passes (mem_encrypt_file_decrypt A R os T pt) w"
proof -
  obtain framed g where e: "encrypt_chunked A R pt test_key BLOB_ID (rng_state w) = (Ok framed, g)"
    "decrypt_chunked A framed test_key BLOB_ID = Ok pt" by (rule blob_sealed [OF cl(1) length_replicate test_ids(1) pt])
  have "good (w\<lparr> rng_state := g \<rparr>)" using w by simp
  then obtain enc w1 w2 dec w3 where b: "new_temp T (w\<lparr> rng_state := g \<rparr>) = (Ok enc, w1)" "fs_write os enc framed w1 = (Ok (), w2)"
    "new_temp T w2 = (Ok dec, w3)" "new_file dec w2 w3" "read_path (disk w3) enc = Some framed" by (rule blob_written [OF os T])
  have "stream_tag16 A" using crates_lawfulD(2) [OF cl(1)] by (simp add: aead_lawful_def)
  from decrypt_in_test(1) [OF cl os new_fileD(1) [OF b(4)] b(5) new_fileD(8,9,10) [OF b(4)] e(2) encrypt_chunked_unaligned [OF this e(1)]]
  obtain w4 where de: "decrypt_file_chunked A R os enc dec test_key BLOB_ID w3 = Some (Ok (), w4)" "wrote dec pt w3 w4" by blast
  obtain w5 where "fs_read os dec w4 = (Ok pt, w5)" "disk w5 = disk w4" by (rule fs_read_spec [OF os wroteD(2) [OF de(2)]])
  then show ?thesis
    using e(1) b(1-3) de(1) wroteD(1) [OF de(2)] by (simp add: mem_encrypt_file_decrypt_def passes_def io_run good_def)
qed

lemma file_to_mem:
  assumes cl: "crates_lawful A R H E B" and os: "os_ok os" and T: "tempfile_lawful T" and w: "good w"
    and pt: "length pt < 2 ^ 32 * CHUNK_SIZE"
  shows "passes (file_encrypt_mem_decrypt A R os T pt) w"
proof -
  obtain src w1 w2 enc w3 framed g w4 where s: "new_temp T w = (Ok src, w1)" "fs_write os src pt w1 = (Ok (), w2)"
    "new_temp T w2 = (Ok enc, w3)" "encrypt_file_chunked A R os src enc test_key BLOB_ID w3 = Some (Ok (), w4)"
    "encrypt_chunked A R pt test_key BLOB_ID (rng_state w3) = (Ok framed, g)" "wrote enc framed w3 w4"
    by (rule source_encrypted [OF cl os T w pt])
  have "decrypt_chunked A framed test_key BLOB_ID = Ok pt"
    using blob_box.roundtrip [OF crates_lawfulD(2) [OF cl] length_replicate s(5)] .
  moreover obtain w5 where "fs_read os enc w4 = (Ok framed, w5)" "disk w5 = disk w4" by (rule fs_read_spec [OF os wroteD(2) [OF s(6)]])
  ultimately show ?thesis
    using s(1-4) wroteD(1) [OF s(6)] by (simp add: file_encrypt_mem_decrypt_def passes_def io_run good_def)
qed

lemma invalid_id_file_codecs:
  assumes "\<not> valid_context i"
  shows "encrypt_file_chunked A R os input output key i w = Some (Err InvalidContext, w)"
    "decrypt_file_chunked A R os input output key i w = Some (Err InvalidContext, w)"
  using assms
  by (simp_all add: encrypt_file_chunked_def decrypt_file_chunked_def decrypt_open_def blob_segment_aad_eq io_bind_def io_st_def
      with_rng_def new_blob_keys_errors(1))

lemma empty_id_test:
  assumes cl: "crates_lawful A R H E B" and os: "os_ok os" and T: "tempfile_lawful T" and w: "good w"
  shows "passes (empty_blob_id_rejected_file_codec A R os T) w"
proof -
  have small: "length (as_bytes ''some data'') < 2 ^ 32 * CHUNK_SIZE" by (simp add: CHUNK_SIZE_def)
  obtain src w1 w2 enc w3 framed g w4 where s: "new_temp T w = (Ok src, w1)"
    "fs_write os src (as_bytes ''some data'') w1 = (Ok (), w2)" "new_temp T w2 = (Ok enc, w3)"
    "encrypt_file_chunked A R os src enc test_key BLOB_ID w3 = Some (Ok (), w4)" "wrote enc framed w3 w4"
    by (rule source_encrypted [OF cl os T w small])
  obtain dec w5 where d: "new_temp T w4 = (Ok dec, w5)" "new_file dec w4 w5" by (rule new_temp_spec [OF T wroteD(1) [OF s(5)]])
  show ?thesis
    using s(1-4) d(1) new_fileD(1) [OF d(2)]
    by (simp add: empty_blob_id_rejected_file_codec_def passes_def io_run invalid_id_file_codecs)
qed

subsection \<open>The tests in a directory\<close>

lemma test_names: "proper_name ''blob.enc''" "proper_name ''out.bin''"
  "dir \<noteq> [] \<Longrightarrow> path_push dir ''blob.enc'' = dir @ [Normal ''blob.enc'']"
  "dir \<noteq> [] \<Longrightarrow> path_push dir ''out.bin'' = dir @ [Normal ''out.bin'']"
  by (auto simp: proper_name_def path_push_def components_def component_of_def)

lemma not_part_name:
  assumes "last n \<noteq> CHR ''t''"
  shows "\<not> part_name (dir @ [Normal n])"
proof
  assume "part_name (dir @ [Normal n])"
  then obtain out name k where "wf_path out" "file_name out = Some name"
    "dir @ [Normal n] = with_file_name out (name @ ''.'' @ hex16 k @ ''.part'')" by (auto simp: part_name_def temp_name_def)
  then have "dir @ [Normal n] = butlast out @ [Normal (name @ ''.'' @ hex16 k @ ''.part'')]" using temp_path_eq by simp
  then have "n = name @ ''.'' @ hex16 k @ ''.part''" by simp
  with assms show False by simp
qed

text \<open>The directory with the blob in it.\<close>

lemma blob_in_dir:
  assumes os: "os_ok os" and D: "tempdir_lawful D" and w: "good w"
  obtains dir w1 w2 where "new_temp D w = (Ok dir, w1)" "dir \<noteq> []" "wf_path (dir @ [Normal ''out.bin''])"
    "fs_write os (dir @ [Normal ''blob.enc'']) framed w1 = (Ok (), w2)" "good w2"
    "\<forall>n. read_path (disk w2) (dir @ [Normal n]) = (if n = ''blob.enc'' then Some framed else None)"
proof -
  obtain dir w1 where Dw: "D w = (dir, w1)" by (metis surj_pair)
  have d: "disk w1 = disk w" "wf_path dir" "dir \<noteq> []" "\<And>n. entries (disk w) (dir @ [Normal n]) = None"
    using D w Dw by (auto simp: tempdir_lawful_def)
  have g: "good w1" using w d(1) by (simp add: good_def)
  have np: "\<not> part_name (dir @ [Normal ''blob.enc''])" by (rule not_part_name) simp
  have "unlinked (disk w1) (dir @ [Normal ''blob.enc''])" using d(1,4) by (auto simp: unlinked_def same_file_def)
  then obtain w2 where w2: "fs_write os (dir @ [Normal ''blob.enc'']) framed w1 = (Ok (), w2)"
    "wrote (dir @ [Normal ''blob.enc'']) framed w1 w2"
    by (rule fs_write_spec [OF os g np])
  have "read_path (disk w2) (dir @ [Normal n]) = (if n = ''blob.enc'' then Some framed else None)" for n
    using wroteD(2,3) [OF w2(2)] d(1,4) by (simp add: read_path_def)
  moreover have "wf_path (dir @ [Normal ''out.bin''])" using d(2) test_names(2) by (auto simp: wf_path_def)
  ultimately show thesis using that Dw d(3) w2(1) wroteD(1) [OF w2(2)] by (simp add: new_temp_def)
qed

lemma success_in_dir:
  assumes cl: "crates_lawful A R H E B" "stream_min16 A" and os: "os_ok os" and D: "tempdir_lawful D" and w: "good w"
  shows "passes (decrypt_file_success_leaves_only_output A R os D) w"
proof -
  let ?pt = "make_plaintext (3 * CHUNK_SIZE + 7)"
  have small: "length ?pt < 2 ^ 32 * CHUNK_SIZE" by (simp add: CHUNK_SIZE_def)
  obtain framed g where e: "encrypt_chunked A R ?pt test_key BLOB_ID (rng_state w) = (Ok framed, g)"
    "decrypt_chunked A framed test_key BLOB_ID = Ok ?pt" by (rule blob_sealed [OF cl(1) length_replicate test_ids(1) small])
  have g: "good (w\<lparr> rng_state := g \<rparr>)" using w by simp
  obtain dir w1 w2 where b: "new_temp D (w\<lparr> rng_state := g \<rparr>) = (Ok dir, w1)" "dir \<noteq> []" "wf_path (dir @ [Normal ''out.bin''])"
    "fs_write os (dir @ [Normal ''blob.enc'']) framed w1 = (Ok (), w2)" "good w2"
    "\<forall>n. read_path (disk w2) (dir @ [Normal n]) = (if n = ''blob.enc'' then Some framed else None)"
    by (rule blob_in_dir [OF os D g])
  have "stream_tag16 A" using crates_lawfulD(2) [OF cl(1)] by (simp add: aead_lawful_def)
  then have un: "\<not> (CHUNK_SIZE + 16) dvd (length framed - 72)" by (rule encrypt_chunked_unaligned [OF _ e(1)])
  have enc: "read_path (disk w2) (dir @ [Normal ''blob.enc'']) = Some framed" using b(6) by simp
  have nm: "file_name (dir @ [Normal ''out.bin'']) \<noteq> None" "\<not> part_name (dir @ [Normal ''out.bin''])"
    by (simp_all add: file_name_def not_part_name)
  obtain w3 where de: "decrypt_file_chunked A R os (dir @ [Normal ''blob.enc'']) (dir @ [Normal ''out.bin'']) test_key BLOB_ID w2 =
      Some (Ok (), w3)" "wrote (dir @ [Normal ''out.bin'']) ?pt w2 w3"
    using decrypt_in_test(1) [OF cl os b(5) enc b(3) nm e(2) un] by blast
  obtain w4 where rd: "fs_read os (dir @ [Normal ''out.bin'']) w3 = (Ok ?pt, w4)" "disk w4 = disk w3"
    by (rule fs_read_spec [OF os wroteD(2) [OF de(2)]])
  have "read_path (disk w4) (dir @ [Normal n]) \<noteq> None \<longleftrightarrow> n \<in> {''blob.enc'', ''out.bin''}" for n
    using wroteD(2,3) [OF de(2)] b(6) rd(2) by (auto split: if_splits)
  then have "dir_contains_exactly (disk w4) dir [''blob.enc'', ''out.bin'']"
    unfolding dir_contains_exactly_def by auto
  then show ?thesis
    using e(1) b(1,2,4) de(1) rd wroteD(1) [OF de(2)]
    by (simp add: decrypt_file_success_leaves_only_output_def passes_def io_run Let_def good_def test_names assert_dir_contains_exactly_def)
qed

text \<open>The failing tests: the blob is refused, and nothing but the blob is left.\<close>

lemma refusal_in_dir:
  assumes cl: "crates_lawful A R H E B" "stream_min16 A" and os: "os_ok os" and D: "tempdir_lawful D" and w: "good w"
    and bad: "\<forall>pt. decrypt_chunked A framed key BLOB_ID = Ok pt \<longrightarrow> (CHUNK_SIZE + 16) dvd (length framed - 72)"
      "72 \<le> length framed"
  shows "passes (decrypt_leaves_only_blob A R os D key framed) w"
proof -
  obtain dir w1 w2 where b: "new_temp D w = (Ok dir, w1)" "dir \<noteq> []" "wf_path (dir @ [Normal ''out.bin''])"
    "fs_write os (dir @ [Normal ''blob.enc'']) framed w1 = (Ok (), w2)" "good w2"
    "\<forall>n. read_path (disk w2) (dir @ [Normal n]) = (if n = ''blob.enc'' then Some framed else None)"
    by (rule blob_in_dir [OF os D w])
  have enc: "read_path (disk w2) (dir @ [Normal ''blob.enc'']) = Some framed" using b(6) by simp
  have nm: "file_name (dir @ [Normal ''out.bin'']) \<noteq> None" "\<not> part_name (dir @ [Normal ''out.bin''])"
    by (simp_all add: file_name_def not_part_name)
  obtain w3 where de: "decrypt_file_chunked A R os (dir @ [Normal ''blob.enc'']) (dir @ [Normal ''out.bin'']) key BLOB_ID w2 =
      Some (Err Aead, w3)" "good w3" "read_path (disk w3) = read_path (disk w2)"
    using decrypt_in_test(2) [OF cl os b(5) enc b(3) nm bad(1) test_ids(1) bad(2)] by blast
  have "dir_contains_exactly (disk w3) dir [''blob.enc'']" using b(6) de(3) by (simp add: dir_contains_exactly_def)
  moreover have "read_path (disk w3) (dir @ [Normal ''out.bin'']) = None" using b(6) de(3) by simp
  ultimately show ?thesis
    using b(1,2,4) de(1,2)
    by (simp add: decrypt_leaves_only_blob_def passes_def io_run Let_def test_names assert_dir_contains_exactly_def)
qed

lemma truncated_in_dir:
  assumes cl: "crates_lawful A R H E B" "stream_min16 A" and os: "os_ok os" and D: "tempdir_lawful D" and w: "good w"
  shows "passes (decrypt_file_truncated_at_segment_boundary_leaves_no_output A R os D) w"
proof -
  let ?pt = "make_plaintext (3 * CHUNK_SIZE + 7)" and ?cut = "72 + 2 * (CHUNK_SIZE + 16)"
  have small: "length ?pt < 2 ^ 32 * CHUNK_SIZE" by (simp add: CHUNK_SIZE_def)
  obtain framed g where e: "encrypt_chunked A R ?pt test_key BLOB_ID (rng_state w) = (Ok framed, g)"
    by (rule blob_sealed [OF cl(1) length_replicate test_ids(1) small])
  have "stream_tag16 A" using crates_lawfulD(2) [OF cl(1)] by (simp add: aead_lawful_def)
  from encrypt_chunked_size [OF this e] have len: "?cut \<le> length framed" by (simp add: CHUNK_SIZE_def)
  then have cut: "(slice framed 0 ?cut :: bytes Result) = Ok (take ?cut framed)" by (simp add: slice_def)
  have "passes (decrypt_leaves_only_blob A R os D test_key (take ?cut framed)) (w\<lparr> rng_state := g \<rparr>)"
  proof (rule refusal_in_dir [OF cl os D])
    have "length (take ?cut framed) - 72 = 2 * (CHUNK_SIZE + 16)" using len by simp
    then show "\<forall>pt. decrypt_chunked A (take ?cut framed) test_key BLOB_ID = Ok pt \<longrightarrow>
        (CHUNK_SIZE + 16) dvd (length (take ?cut framed) - 72)" by (metis dvd_triv_right)
  qed (use w len in simp_all)
  then show ?thesis
    using e cut
    by (simp add: decrypt_file_truncated_at_segment_boundary_leaves_no_output_def passes_def io_run Let_def HEADER_LEN_def
        WRAPPED_KEY_LEN_def NONCE_PREFIX_LEN_def)
qed

text \<open>
  C39: the unit tests on files pass. For all lawful primitives, if no call fails, in every world without
  stray \<open>.part\<close> files and whatever names the \<open>tempfile\<close> crate picks: round trips through files at every
  size, files and in-memory blobs are interchangeable, an empty identifier is refused, a successful
  decryption leaves the plaintext and nothing else beside the blob, and a blob cut at a segment
  boundary, whose segments all authenticate, leaves the directory as it was.
\<close>

theorem file_tests_pass:
  assumes "crates_lawful A R H E B" "stream_min16 A" "os_ok os" "tempfile_lawful T" "tempdir_lawful D" "good w"
  shows "list_all (\<lambda>t. passes t w)
     [chunked_file_round_trip_all_sizes A R os T, in_memory_and_file_formats_are_interchangeable A R os T,
      empty_blob_id_rejected_file_codec A R os T, decrypt_file_success_leaves_only_output A R os D,
      decrypt_file_truncated_at_segment_boundary_leaves_no_output A R os D]"
proof -
  have "passes (chunked_file_round_trip_all_sizes A R os T) w"
    unfolding chunked_file_round_trip_all_sizes_def
    by (rule passes_for_each [OF round_trip_turn [OF assms(1-4)] assms(6)]) (use test_sizes(1) in auto)
  moreover have "passes (in_memory_and_file_formats_are_interchangeable A R os T) w"
    unfolding in_memory_and_file_formats_are_interchangeable_def Let_def
    by (rule passes_for_each [OF passes_bind [OF mem_to_file [OF assms(1-4)] file_to_mem [OF assms(1,3,4)]] assms(6)])
      (use test_sizes(1) in auto)
  ultimately show ?thesis
    using empty_id_test [OF assms(1,3,4,6)] success_in_dir [OF assms(1-3,5,6)] truncated_in_dir [OF assms(1-3,5,6)] by simp
qed

text \<open>A concrete \<open>tempfile\<close>: the first of infinitely many names that is free.\<close>

definition pick_name :: "'r world \<Rightarrow> path" where
  "pick_name w = (let n = LEAST n. \<forall>q. read_path (disk w) q \<noteq> None \<longrightarrow> length q < n in replicate (Suc n) (Normal ''a''))"

definition pick_file :: "'r tempfile" where
  "pick_file w = (pick_name w, w\<lparr> disk := disk_with_new (pick_name w) (disk w) \<rparr>)"

definition pick_dir :: "'r tempfile" where
  "pick_dir w = (pick_name w, w)"

lemma pick_name_fresh:
  assumes "good w"
  shows "read_path (disk w) (pick_name w @ xs) = None" "wf_path (pick_name w)" "pick_name w \<noteq> []"
    "file_name (pick_name w) \<noteq> None" "\<not> part_name (pick_name w)"
proof -
  let ?P = "\<lambda>n. \<forall>q. read_path (disk w) q \<noteq> None \<longrightarrow> length q < n"
  have "finite (length ` {q. read_path (disk w) q \<noteq> None})" using assms by (simp add: good_def)
  then have "\<exists>n. \<forall>k \<in> length ` {q. read_path (disk w) q \<noteq> None}. k < n" by (simp only: finite_nat_set_iff_bounded)
  then obtain n where "?P n" by auto
  then have L: "?P (LEAST n. ?P n)" by (rule LeastI)
  define N where "N = (LEAST n. ?P n)"
  have name: "pick_name w = replicate (Suc N) (Normal ''a'')" unfolding pick_name_def Let_def N_def ..
  have "\<not> length (pick_name w @ xs) < N" by (simp add: name)
  then show "read_path (disk w) (pick_name w @ xs) = None" using L [folded N_def] by blast
  show "wf_path (pick_name w)" "pick_name w \<noteq> []" "file_name (pick_name w) \<noteq> None"
    by (auto simp: name wf_path_def proper_name_def file_name_def)
  have "\<exists>dir. pick_name w = dir @ [Normal ''a'']" unfolding name by (metis replicate_Suc replicate_append_same)
  then show "\<not> part_name (pick_name w)" using not_part_name [of "''a''"] by auto
qed

lemma pick_lawful: "tempfile_lawful (pick_file :: 'r tempfile)" "tempdir_lawful (pick_dir :: 'r tempfile)"
proof -
  have "entries (disk w) (pick_name w @ xs) = None \<and> entries (disk w) (pick_name w) = None \<and> wf_path (pick_name w) \<and>
      pick_name w \<noteq> [] \<and> file_name (pick_name w) \<noteq> None \<and> \<not> part_name (pick_name w)" if "good w" for w :: "'r world" and xs
    using pick_name_fresh(1) [OF that, of xs] pick_name_fresh(1) [OF that, of "[]"] pick_name_fresh(2-5) [OF that]
    by (simp add: read_path_def)
  then show "tempfile_lawful (pick_file :: 'r tempfile)" "tempdir_lawful (pick_dir :: 'r tempfile)"
    unfolding tempfile_lawful_def tempdir_lawful_def pick_file_def pick_dir_def by (simp_all del: not_None_eq)
qed

lemma one_file_good: "good (one_file data)"
proof -
  have rp: "read_path (disk (one_file data)) q = None" if "q \<noteq> in_path" for q
    using that by (simp add: one_file_def read_path_def)
  have np: "\<not> part_name in_path" using not_part_name [of "''in''" "[RootDir]"] by (simp add: in_path_def)
  have "{q. read_path (disk (one_file data)) q \<noteq> None} \<subseteq> {in_path}"
    by (rule subsetI, rule ccontr) (simp add: rp)
  then have "finite {q. read_path (disk (one_file data)) q \<noteq> None}" by (rule finite_subset) simp
  moreover have "no_parts (disk (one_file data))" unfolding no_parts_def using rp np by metis
  ultimately show ?thesis using one_file_facts(1) unfolding good_def by blast
qed

theorem file_tests_pass_witness:
  "passes (chunked_file_round_trip_all_sizes ref_aead ref_rng calm pick_file) (one_file []) \<and>
   passes (decrypt_file_success_leaves_only_output ref_aead ref_rng calm pick_dir) (one_file [])"
  using file_tests_pass [OF ref_crates_lawful ref_stream_laws(5) calm_ok pick_lawful one_file_good [of "[]"]] by simp

subsection \<open>The tests that ask for a refusal\<close>

text \<open>
  They pass if AES-GCM refuses the wrapped key (another identifier, another key) or the segments (a
  changed byte) of the blob that the run makes; with the refusal, what the directory holds is as the
  tests say.
\<close>

lemma transplant_file_tests:
  assumes cl: "crates_lawful A R H E B" "stream_min16 A" and os: "os_ok os" and T: "tempfile_lawful T" and w: "good w"
  shows "\<exists>framed g. encrypt_chunked A R (as_bytes ''some data'') test_key BLOB_ID (rng_state w) = (Ok framed, g) \<and>
    (gcm_decrypt A test_key (header_iv framed) (header_ct framed) (header_aad OTHER_BLOB_ID framed) = None \<longrightarrow>
      list_all (\<lambda>t. passes t w) [transplanted_blob_id_fails_file_codec A R os T,
        transplanted_blob_id_fails_mem_encrypt_file_decrypt A R os T, transplanted_blob_id_fails_file_encrypt_mem_decrypt A R os T])"
proof -
  have small: "length (as_bytes ''some data'') < 2 ^ 32 * CHUNK_SIZE" by (simp add: CHUNK_SIZE_def)
  obtain src w1 w2 enc w3 framed g w4 where s: "new_temp T w = (Ok src, w1)"
    "fs_write os src (as_bytes ''some data'') w1 = (Ok (), w2)" "new_temp T w2 = (Ok enc, w3)"
    "encrypt_file_chunked A R os src enc test_key BLOB_ID w3 = Some (Ok (), w4)"
    "encrypt_chunked A R (as_bytes ''some data'') test_key BLOB_ID (rng_state w3) = (Ok framed, g)" "wrote enc framed w3 w4"
    "rng_state w3 = rng_state w" by (rule source_encrypted [OF cl(1) os T w small])
  have e: "encrypt_chunked A R (as_bytes ''some data'') test_key BLOB_ID (rng_state w) = (Ok framed, g)" using s(5,7) by simp
  show ?thesis
  proof (intro exI [of _ framed] exI [of _ g] conjI impI)
    assume "gcm_decrypt A test_key (header_iv framed) (header_ct framed) (header_aad OTHER_BLOB_ID framed) = None"
    then have bad: "decrypt_chunked A framed test_key OTHER_BLOB_ID = Err Aead" by (simp add: decrypt_blob_refuses)
    then have no: "\<forall>pt. decrypt_chunked A framed test_key OTHER_BLOB_ID = Ok pt \<longrightarrow> (CHUNK_SIZE + 16) dvd (length framed - 72)" by simp
    note long = test_ids(2) sealed_header(1) [OF e]
    obtain dec w5 where d: "new_temp T w4 = (Ok dec, w5)" "new_file dec w4 w5" by (rule new_temp_spec [OF T wroteD(1) [OF s(6)]])
    have "enc \<noteq> dec" using wroteD(2) [OF s(6)] new_fileD(2) [OF d(2)] by auto
    then have enc5: "read_path (disk w5) enc = Some framed" using new_fileD(4) [OF d(2)] wroteD(2) [OF s(6)] by simp
    obtain w6 where "decrypt_file_chunked A R os enc dec test_key OTHER_BLOB_ID w5 = Some (Err Aead, w6)" "good w6"
      using decrypt_in_test(2) [OF cl os new_fileD(1) [OF d(2)] enc5 new_fileD(8,9,10) [OF d(2)] no long] by blast
    then have 1: "passes (transplanted_blob_id_fails_file_codec A R os T) w"
      using s(1-4) d(1) by (simp add: transplanted_blob_id_fails_file_codec_def passes_def io_run)
    have "good (w\<lparr> rng_state := g \<rparr>)" using w by simp
    then obtain en v1 v2 de v3 where b: "new_temp T (w\<lparr> rng_state := g \<rparr>) = (Ok en, v1)" "fs_write os en framed v1 = (Ok (), v2)"
      "new_temp T v2 = (Ok de, v3)" "new_file de v2 v3" "read_path (disk v3) en = Some framed" by (rule blob_written [OF os T])
    obtain v4 where "decrypt_file_chunked A R os en de test_key OTHER_BLOB_ID v3 = Some (Err Aead, v4)" "good v4"
      using decrypt_in_test(2) [OF cl os new_fileD(1) [OF b(4)] b(5) new_fileD(8,9,10) [OF b(4)] no long] by blast
    then have 2: "passes (transplanted_blob_id_fails_mem_encrypt_file_decrypt A R os T) w"
      using e b(1-3) by (simp add: transplanted_blob_id_fails_mem_encrypt_file_decrypt_def passes_def io_run)
    obtain v5 where "fs_read os enc w4 = (Ok framed, v5)" "disk v5 = disk w4" by (rule fs_read_spec [OF os wroteD(2) [OF s(6)]])
    then have 3: "passes (transplanted_blob_id_fails_file_encrypt_mem_decrypt A R os T) w"
      using s(1-4) wroteD(1) [OF s(6)] bad
      by (simp add: transplanted_blob_id_fails_file_encrypt_mem_decrypt_def passes_def io_run good_def)
    show "list_all (\<lambda>t. passes t w) [transplanted_blob_id_fails_file_codec A R os T,
        transplanted_blob_id_fails_mem_encrypt_file_decrypt A R os T, transplanted_blob_id_fails_file_encrypt_mem_decrypt A R os T]"
      using 1 2 3 by simp
  qed (rule e)
qed

lemma tampered_in_dir:
  assumes cl: "crates_lawful A R H E B" "stream_min16 A" and os: "os_ok os" and D: "tempdir_lawful D" and w: "good w"
  defines "k \<equiv> 72 + (CHUNK_SIZE + 16) + 10"
  shows "\<exists>framed g. encrypt_chunked A R (make_plaintext (2 * CHUNK_SIZE + 100)) test_key BLOB_ID (rng_state w) = (Ok framed, g) \<and>
    (decrypt_chunked A (framed[k := framed ! k XOR 1]) test_key BLOB_ID = Err Aead \<longrightarrow>
      passes (decrypt_file_tampered_midstream_leaves_no_output A R os D) w)"
proof -
  let ?pt = "make_plaintext (2 * CHUNK_SIZE + 100)"
  have small: "length ?pt < 2 ^ 32 * CHUNK_SIZE" by (simp add: CHUNK_SIZE_def)
  obtain framed g where e: "encrypt_chunked A R ?pt test_key BLOB_ID (rng_state w) = (Ok framed, g)"
    by (rule blob_sealed [OF cl(1) length_replicate test_ids(1) small])
  have "stream_tag16 A" using crates_lawfulD(2) [OF cl(1)] by (simp add: aead_lawful_def)
  from encrypt_chunked_size [OF this e] have len: "k < length framed" by (simp add: k_def CHUNK_SIZE_def)
  let ?f = "framed[k := framed ! k XOR 1]"
  have "passes (decrypt_file_tampered_midstream_leaves_no_output A R os D) w" if "decrypt_chunked A ?f test_key BLOB_ID = Err Aead"
  proof -
    have "passes (decrypt_leaves_only_blob A R os D test_key ?f) (w\<lparr> rng_state := g \<rparr>)"
      by (rule refusal_in_dir [OF cl os D]) (use that w sealed_header(1) [OF e] in simp_all)
    moreover have "(xor_at framed (HEADER_LEN + (CHUNK_SIZE + 16) + 10) 1 :: bytes Result) = Ok ?f"
      using len by (simp add: xor_at_def index_in_range k_def HEADER_LEN_def WRAPPED_KEY_LEN_def NONCE_PREFIX_LEN_def)
    ultimately show ?thesis
      using e by (simp add: decrypt_file_tampered_midstream_leaves_no_output_def passes_def io_run Let_def)
  qed
  with e show ?thesis by blast
qed

lemma wrong_key_in_dir:
  assumes cl: "crates_lawful A R H E B" "stream_min16 A" and os: "os_ok os" and D: "tempdir_lawful D" and w: "good w"
  shows "\<exists>framed g. encrypt_chunked A R (as_bytes ''some data'') test_key BLOB_ID (rng_state w) = (Ok framed, g) \<and>
    (gcm_decrypt A (replicate 32 43) (header_iv framed) (header_ct framed) (header_aad BLOB_ID framed) = None \<longrightarrow>
      passes (decrypt_file_wrong_key_creates_no_files A R os D) w)"
proof -
  obtain framed g where e: "encrypt_chunked A R (as_bytes ''some data'') test_key BLOB_ID (rng_state w) = (Ok framed, g)"
    by (rule some_data_sealed [OF cl(1)])
  have g: "good (w\<lparr> rng_state := g \<rparr>)" using w by simp
  obtain dir w1 w2 where b: "new_temp D (w\<lparr> rng_state := g \<rparr>) = (Ok dir, w1)" "dir \<noteq> []" "wf_path (dir @ [Normal ''out.bin''])"
    "fs_write os (dir @ [Normal ''blob.enc'']) framed w1 = (Ok (), w2)" "good w2"
    "\<forall>n. read_path (disk w2) (dir @ [Normal n]) = (if n = ''blob.enc'' then Some framed else None)"
    by (rule blob_in_dir [OF os D g])
  have enc: "read_path (disk w2) (dir @ [Normal ''blob.enc'']) = Some framed" using b(6) by simp
  have nm: "file_name (dir @ [Normal ''out.bin'']) \<noteq> None" "\<not> part_name (dir @ [Normal ''out.bin''])"
    by (simp_all add: file_name_def not_part_name)
  have "passes (decrypt_file_wrong_key_creates_no_files A R os D) w"
    if "gcm_decrypt A (replicate 32 43) (header_iv framed) (header_ct framed) (header_aad BLOB_ID framed) = None"
  proof -
    have bad: "\<forall>pt. decrypt_chunked A framed (replicate 32 43) BLOB_ID = Ok pt \<longrightarrow> (CHUNK_SIZE + 16) dvd (length framed - 72)"
      using that by (simp add: decrypt_blob_refuses)
    obtain w3 where de: "decrypt_file_chunked A R os (dir @ [Normal ''blob.enc'']) (dir @ [Normal ''out.bin'']) (replicate 32 43)
        BLOB_ID w2 = Some (Err Aead, w3)" "good w3" "read_path (disk w3) = read_path (disk w2)"
      using decrypt_in_test(2) [OF cl os b(5) enc b(3) nm bad test_ids(1) sealed_header(1) [OF e]] by blast
    have "dir_contains_exactly (disk w3) dir [''blob.enc'']" using b(6) de(3) by (simp add: dir_contains_exactly_def)
    then show ?thesis
      using e b(1,2,4) de(1,2)
      by (simp add: decrypt_file_wrong_key_creates_no_files_def passes_def io_run Let_def test_names assert_dir_contains_exactly_def)
  qed
  then show ?thesis using e by (intro exI [of _ framed] exI [of _ g]) simp
qed

end
