(* ===== verification/Filum_Known_Answers.thy ===== *)
theory Filum_Known_Answers
  imports Filum_Tests
begin

text \<open>
  The known-answer tests of \<open>kdf.rs\<close> and \<open>blob.rs\<close> with their hexadecimal parsers, and the word count of
  \<open>recovery.rs\<close>. What the tests compare lies in third-party crates; what is shown here is that the
  helpers read the literals as meant, so that each test passes exactly if the crate gives the bytes of
  the standard.
\<close>

subsection \<open>Parsing hexadecimal\<close>

text \<open>
  \<open>char::to_digit(16)\<close>, and \<open>u8::from_str_radix(_, 16)\<close>: a leading \<open>+\<close> is skipped, an empty string and any
  other character are errors, and so is a value beyond 255.
\<close>

definition hex_value :: "char \<Rightarrow> nat option" where
  "hex_value c =
     (let n = of_char c :: nat in
      if 48 \<le> n \<and> n \<le> 57 then Some (n - 48)
      else if 97 \<le> n \<and> n \<le> 102 then Some (n - 87)
      else if 65 \<le> n \<and> n \<le> 70 then Some (n - 55) else None)"

fun radix16 :: "nat \<Rightarrow> string \<Rightarrow> nat option" where
  "radix16 acc [] = Some acc"
| "radix16 acc (c # cs) =
     (case hex_value c of None \<Rightarrow> None
      | Some d \<Rightarrow> if 255 < 16 * acc + d then None else radix16 (16 * acc + d) cs)"

definition u8_from_str_radix16 :: "string \<Rightarrow> u8 option" where
  "u8_from_str_radix16 s =
     (let digits = (if take 1 s = ''+'' then drop 1 s else s) in
      if digits = [] then None else map_option word_of_nat (radix16 0 digits))"

text \<open>\<open>(0..s.len()).step_by(2).map(..).collect()\<close>: the pairs from index \<open>i\<close> on.\<close>

function hex_pairs :: "string \<Rightarrow> nat \<Rightarrow> bytes Result" where
  "hex_pairs s i =
     (if i < length s then
        res_bind (slice s i (i + 2)) (\<lambda>digits.
        res_bind (unwrap (ok_or () (u8_from_str_radix16 digits))) (\<lambda>b.
        res_bind (hex_pairs s (i + 2)) (\<lambda>bs. Ok (b # bs))))
      else Ok [])"
  by pat_completeness auto
termination by (relation "measure (\<lambda>(s, i). length s - i)") auto

declare hex_pairs.simps [simp del]

definition hex_decode :: "string \<Rightarrow> bytes Result" where
  "hex_decode s = hex_pairs s 0"

definition hex_to_vec :: "string \<Rightarrow> bytes Result" where
  "hex_to_vec s = hex_pairs s 0"

text \<open>The inverse: two lower-case digits per byte.\<close>

definition hex_byte :: "u8 \<Rightarrow> string" where
  "hex_byte b = [hex_digit (unat b div 16), hex_digit (unat b mod 16)]"

definition hex_string :: "bytes \<Rightarrow> string" where
  "hex_string bs = concat (map hex_byte bs)"

lemma hex_value_digit: "n < 16 \<Longrightarrow> hex_value (hex_digit n) = Some n"
proof -
  have "list_all (\<lambda>n. hex_value (hex_digit n) = Some n) [0..<16]"
    by (simp add: upt_rec hex_value_def hex_digit_def Let_def)
  then show "n < 16 \<Longrightarrow> hex_value (hex_digit n) = Some n" by (simp add: list_all_iff)
qed

lemma hex_digit_not_plus: "n < 16 \<Longrightarrow> hex_digit n \<noteq> CHR ''+''"
proof -
  have "list_all (\<lambda>n. hex_digit n \<noteq> CHR ''+'') [0..<16]" by (simp add: upt_rec hex_digit_def)
  then show "n < 16 \<Longrightarrow> hex_digit n \<noteq> CHR ''+''" by (simp add: list_all_iff)
qed

lemma radix16_hex_byte: "u8_from_str_radix16 (hex_byte b) = Some b"
proof -
  have "unat b < 2 ^ LENGTH(8)" by (rule unsigned_less)
  then have b: "unat b < 256" by simp
  then have "unat b div 16 < 16" "16 * (unat b div 16) + unat b mod 16 = unat b" by auto
  then show ?thesis
    using b hex_digit_not_plus [of "unat b div 16"]
    by (simp add: u8_from_str_radix16_def hex_byte_def hex_value_digit Let_def)
qed

lemma hex_pairs_string: "hex_pairs (pre @ hex_string bs) (length pre) = Ok bs"
proof (induction bs arbitrary: pre)
  case Nil
  then show ?case by (simp add: hex_string_def hex_pairs.simps)
next
  case (Cons b bs)
  have two: "length (hex_byte b) = 2" by (simp add: hex_byte_def)
  have "(slice (pre @ hex_string (b # bs)) (length pre) (length pre + 2) :: string Result) = Ok (hex_byte b)"
    using two by (simp add: slice_def hex_string_def)
  moreover have "hex_pairs (pre @ hex_string (b # bs)) (length pre + 2) = Ok bs"
    using Cons.IH [of "pre @ hex_byte b"] two by (simp add: hex_string_def)
  moreover have "length pre < length (pre @ hex_string (b # bs))" by (simp add: hex_string_def two)
  ultimately show ?case
    by (subst hex_pairs.simps) (simp only: if_True res_bind_simps radix16_hex_byte ok_or_simps unwrap_simps)
qed

lemma hex_decode_string: "hex_decode (hex_string bs) = Ok bs" "hex_to_vec (hex_string bs) = Ok bs"
  using hex_pairs_string [of "[]" bs] by (simp_all add: hex_decode_def hex_to_vec_def)

lemma hex_parsed: "hex_string bs = s \<Longrightarrow> hex_decode s = Ok bs" "hex_string bs = s \<Longrightarrow> hex_to_vec s = Ok bs"
  using hex_decode_string by auto

subsection \<open>The tests\<close>

text \<open>\<open>Hkdf::<Sha256>::new(salt, ikm).expand(info, out)\<close> with a salt is a parameter of its own.\<close>

type_synonym salted_hkdf = "bytes option \<Rightarrow> bytes \<Rightarrow> bytes \<Rightarrow> nat \<Rightarrow> (nat \<Rightarrow> u8) option"

definition known_answer_rfc5869_test_case_1 :: "salted_hkdf \<Rightarrow> unit Result" where
  "known_answer_rfc5869_test_case_1 HS =
     res_bind (hex_decode ''0b0b0b0b0b0b0b0b0b0b0b0b0b0b0b0b0b0b0b0b0b0b'') (\<lambda>ikm.
     res_bind (hex_decode ''f0f1f2f3f4f5f6f7f8f9'') (\<lambda>info.
     res_bind (hex_decode ''3cb25f25faacd57a90434f64d0362f2a2d2d0a90cf1a5a4c5db02d56ecc4c5bf34007208d5b887185865'') (\<lambda>expected.
     res_bind (hex_decode ''000102030405060708090a0b0c'') (\<lambda>salt.
     res_bind (unwrap (ok_or () (HS (Some salt) ikm info 42))) (\<lambda>f.
     let out = map f [0..<42] in
     assert_that (out = expected))))))"

definition aes_gcm_nist_known_answer :: "('e, 'd) aead_lib \<Rightarrow> unit Result" where
  "aes_gcm_nist_known_answer A =
     (let key = replicate 32 0; iv = replicate 12 0 in
      res_bind (unwrap (ok_or () (gcm_encrypt A key iv [] []))) (\<lambda>ct.
      res_bind (hex_to_vec ''530f8afbc74536b9a963b4f1c4cb738b'') (\<lambda>tag.
      assert_that (tag = ct))))"

lemma literals_parsed:
  "hex_decode ''0b0b0b0b0b0b0b0b0b0b0b0b0b0b0b0b0b0b0b0b0b0b'' = Ok (replicate 22 0x0b)"
  "hex_decode ''f0f1f2f3f4f5f6f7f8f9'' = Ok [0xf0, 0xf1, 0xf2, 0xf3, 0xf4, 0xf5, 0xf6, 0xf7, 0xf8, 0xf9]"
  "hex_decode ''3cb25f25faacd57a90434f64d0362f2a2d2d0a90cf1a5a4c5db02d56ecc4c5bf34007208d5b887185865'' =
     Ok [0x3c, 0xb2, 0x5f, 0x25, 0xfa, 0xac, 0xd5, 0x7a, 0x90, 0x43, 0x4f, 0x64, 0xd0, 0x36, 0x2f, 0x2a, 0x2d, 0x2d, 0x0a, 0x90,
       0xcf, 0x1a, 0x5a, 0x4c, 0x5d, 0xb0, 0x2d, 0x56, 0xec, 0xc4, 0xc5, 0xbf, 0x34, 0x00, 0x72, 0x08, 0xd5, 0xb8, 0x87, 0x18, 0x58, 0x65]"
  "hex_decode ''000102030405060708090a0b0c'' = Ok [0, 1, 2, 3, 4, 5, 6, 7, 8, 9, 10, 11, 12]"
  "hex_to_vec ''530f8afbc74536b9a963b4f1c4cb738b'' =
     Ok [0x53, 0x0f, 0x8a, 0xfb, 0xc7, 0x45, 0x36, 0xb9, 0xa9, 0x63, 0xb4, 0xf1, 0xc4, 0xcb, 0x73, 0x8b]"
  by (rule hex_parsed, code_simp)+

text \<open>
  The known-answer tests compare with the bytes of the standards. The two hexadecimal parsers read the
  literals as the test vectors of RFC 5869 (A.1) and of AES-256-GCM; so the tests pass exactly if the
  crates give these bytes.
\<close>

theorem known_answer_tests:
  "(known_answer_rfc5869_test_case_1 HS = Ok () \<longleftrightarrow>
     (\<exists>f. HS (Some [0, 1, 2, 3, 4, 5, 6, 7, 8, 9, 10, 11, 12]) (replicate 22 0x0b)
         [0xf0, 0xf1, 0xf2, 0xf3, 0xf4, 0xf5, 0xf6, 0xf7, 0xf8, 0xf9] 42 = Some f \<and>
       map f [0..<42] = [0x3c, 0xb2, 0x5f, 0x25, 0xfa, 0xac, 0xd5, 0x7a, 0x90, 0x43, 0x4f, 0x64, 0xd0, 0x36, 0x2f, 0x2a,
         0x2d, 0x2d, 0x0a, 0x90, 0xcf, 0x1a, 0x5a, 0x4c, 0x5d, 0xb0, 0x2d, 0x56, 0xec, 0xc4, 0xc5, 0xbf, 0x34, 0x00, 0x72, 0x08,
         0xd5, 0xb8, 0x87, 0x18, 0x58, 0x65])) \<and>
   (aes_gcm_nist_known_answer A = Ok () \<longleftrightarrow>
     gcm_encrypt A (replicate 32 0) (replicate 12 0) [] [] =
       Some [0x53, 0x0f, 0x8a, 0xfb, 0xc7, 0x45, 0x36, 0xb9, 0xa9, 0x63, 0xb4, 0xf1, 0xc4, 0xcb, 0x73, 0x8b])"
proof
  show "known_answer_rfc5869_test_case_1 HS = Ok () \<longleftrightarrow> (\<exists>f. HS (Some [0, 1, 2, 3, 4, 5, 6, 7, 8, 9, 10, 11, 12]) (replicate 22 0x0b)
         [0xf0, 0xf1, 0xf2, 0xf3, 0xf4, 0xf5, 0xf6, 0xf7, 0xf8, 0xf9] 42 = Some f \<and>
       map f [0..<42] = [0x3c, 0xb2, 0x5f, 0x25, 0xfa, 0xac, 0xd5, 0x7a, 0x90, 0x43, 0x4f, 0x64, 0xd0, 0x36, 0x2f, 0x2a,
         0x2d, 0x2d, 0x0a, 0x90, 0xcf, 0x1a, 0x5a, 0x4c, 0x5d, 0xb0, 0x2d, 0x56, 0xec, 0xc4, 0xc5, 0xbf, 0x34, 0x00, 0x72, 0x08,
         0xd5, 0xb8, 0x87, 0x18, 0x58, 0x65])"
    unfolding known_answer_rfc5869_test_case_1_def literals_parsed res_bind_simps Let_def
    by (cases "HS (Some [0, 1, 2, 3, 4, 5, 6, 7, 8, 9, 10, 11, 12]) (replicate 22 0x0b)
         [0xf0, 0xf1, 0xf2, 0xf3, 0xf4, 0xf5, 0xf6, 0xf7, 0xf8, 0xf9] 42")
      (simp_all only: ok_or_simps unwrap_simps res_bind_simps assert_that_eq outcome.distinct option.distinct option.inject simp_thms)
  show "aes_gcm_nist_known_answer A = Ok () \<longleftrightarrow> gcm_encrypt A (replicate 32 0) (replicate 12 0) [] [] =
       Some [0x53, 0x0f, 0x8a, 0xfb, 0xc7, 0x45, 0x36, 0xb9, 0xa9, 0x63, 0xb4, 0xf1, 0xc4, 0xcb, 0x73, 0x8b]"
    unfolding aes_gcm_nist_known_answer_def literals_parsed Let_def
    by (cases "gcm_encrypt A (replicate 32 0) (replicate 12 0) [] []") auto
qed

subsection \<open>Counting words\<close>

text \<open>
  \<open>str::split_whitespace().count()\<close>. Strings are their UTF-8 bytes; \<open>whitespace_len\<close> is the number of bytes
  of the Unicode white-space character at the head (U+0009 to U+000D, U+0020, U+0085, U+00A0, U+1680,
  U+2000 to U+200A, U+2028, U+2029, U+202F, U+205F, U+3000), and 0 if there is none.
\<close>

definition whitespace_len :: "string \<Rightarrow> nat" where
  "whitespace_len s =
     (let b = map of_char (take 3 s) :: nat list in
      if take 1 b \<in> set (map (\<lambda>n. [n]) ([9..<14] @ [32])) then 1
      else if take 2 b \<in> set [[0xC2, 0x85], [0xC2, 0xA0]] then 2
      else if b \<in> set (map (\<lambda>n. [0xE2, 0x80, n]) ([0x80..<0x8B] @ [0xA8, 0xA9, 0xAF]) @
          [[0xE1, 0x9A, 0x80], [0xE2, 0x81, 0x9F], [0xE3, 0x80, 0x80]]) then 3
      else 0)"

function word_count :: "bool \<Rightarrow> string \<Rightarrow> nat" where
  "word_count in_word [] = 0"
| "word_count in_word (c # cs) =
     (if 0 < whitespace_len (c # cs) then word_count False (drop (whitespace_len (c # cs)) (c # cs))
      else (if in_word then 0 else 1) + word_count True cs)"
  by pat_completeness auto
termination by (relation "measure (\<lambda>(b, s). length s)") auto

declare word_count.simps [simp del]

definition phrase_has_24_words :: "'m bip39_lib \<Rightarrow> unit Result" where
  "phrase_has_24_words B =
     (let secret = replicate 32 0 in
      res_bind (unwrap (secret_to_phrase B secret)) (\<lambda>phrase.
      assert_that (word_count False phrase = 24)))"

text \<open>The documented form of an English phrase for 256 bits: 24 words of lower-case letters, one space apart.\<close>

definition letters :: "string \<Rightarrow> bool" where
  "letters s \<longleftrightarrow> s \<noteq> [] \<and> (\<forall>c \<in> set s. 97 \<le> (of_char c :: nat) \<and> (of_char c :: nat) \<le> 122)"

fun join_words :: "string list \<Rightarrow> string" where
  "join_words [] = []"
| "join_words [w] = w"
| "join_words (w # ws) = w @ '' '' @ join_words ws"

definition bip39_words :: "'m bip39_lib \<Rightarrow> bool" where
  "bip39_words B \<longleftrightarrow> (\<forall>ent m. length ent = 32 \<longrightarrow> from_entropy B ent = Some m \<longrightarrow>
     (\<exists>ws. length ws = 24 \<and> list_all letters ws \<and> mnemonic_to_string B m = join_words ws))"

lemma no_whitespace: "97 \<le> (of_char c :: nat) \<Longrightarrow> (of_char c :: nat) \<le> 122 \<Longrightarrow> whitespace_len (c # cs) = 0"
  by (auto simp: whitespace_len_def Let_def)

lemma space_len: "whitespace_len (CHR '' '' # cs) = 1"
  by (simp add: whitespace_len_def)

lemma word_count_inside: "(\<forall>c \<in> set s. 97 \<le> (of_char c :: nat) \<and> (of_char c :: nat) \<le> 122) \<Longrightarrow> word_count True (s @ t) = word_count True t"
  by (induction s) (simp_all add: word_count.simps no_whitespace)

lemma word_count_word:
  assumes "letters w"
  shows "word_count False (w @ t) = 1 + word_count True t"
proof (cases w)
  case (Cons c cs)
  then show ?thesis
    using assms word_count_inside [of cs t] by (simp add: letters_def word_count.simps no_whitespace)
qed (use assms in \<open>simp add: letters_def\<close>)

lemma word_count_join: "list_all letters ws \<Longrightarrow> word_count False (join_words ws) = length ws"
proof (induction ws rule: join_words.induct)
  case (2 w)
  then show ?case using word_count_word [of w "[]"] by (simp add: word_count.simps)
next
  case (3 w v ws)
  then show ?case using word_count_word [of w "'' '' @ join_words (v # ws)"] by (simp add: word_count.simps space_len)
qed (simp add: word_count.simps)

lemma word_count_test:
  assumes "bip39_correct B" "bip39_words B"
  shows "phrase_has_24_words B = Ok ()"
proof -
  obtain m where m: "from_entropy B (replicate 32 0) = Some m"
    using assms(1) unfolding bip39_correct_def by (metis length_replicate)
  then obtain ws where "length ws = 24" "list_all letters ws" "mnemonic_to_string B m = join_words ws"
    using assms(2) unfolding bip39_words_def by (metis length_replicate)
  then show ?thesis
    using m word_count_join [of ws] by (simp add: phrase_has_24_words_def secret_to_phrase_def)
qed

text \<open>The two laws together can hold: a phrase with the entropy in its first word, and twenty-three more words.\<close>

definition byte_letters :: "u8 \<Rightarrow> string" where
  "byte_letters b = [char_of (97 + unat b div 16), char_of (97 + unat b mod 16)]"

fun letters_bytes :: "string \<Rightarrow> bytes" where
  "letters_bytes (c # d # cs) = word_of_nat (16 * (of_char c - 97) + (of_char d - 97)) # letters_bytes cs"
| "letters_bytes _ = []"

definition words_bip39 :: "bytes bip39_lib" where
  "words_bip39 =
     \<lparr> from_entropy = (\<lambda>ent. if length ent = 32 then Some ent else None),
       mnemonic_to_string = (\<lambda>m. join_words (concat (map byte_letters m) # replicate 23 ''zoo'')),
       parse = (\<lambda>s. Some (letters_bytes (takeWhile (\<lambda>c. c \<noteq> CHR '' '') s))),
       to_entropy = (\<lambda>m. m) \<rparr>"

lemma byte_letters_facts:
  "letters (byte_letters b)" "letters_bytes (byte_letters b @ s) = b # letters_bytes s" "CHR '' '' \<notin> set (byte_letters b)"
proof -
  have "unat b < 2 ^ LENGTH(8)" by (rule unsigned_less)
  then have b: "unat b div 16 < 16" "unat b mod 16 < 16" by auto
  then show "letters (byte_letters b)" by (simp add: letters_def byte_letters_def)
  then have "97 \<le> (of_char c :: nat)" if "c \<in> set (byte_letters b)" for c using that by (simp add: letters_def)
  then show "CHR '' '' \<notin> set (byte_letters b)" by fastforce
  show "letters_bytes (byte_letters b @ s) = b # letters_bytes s" using b by (simp add: byte_letters_def)
qed

lemma words_bip39_laws: "bip39_correct words_bip39" "bip39_words words_bip39"
proof -
  have dec: "letters_bytes (concat (map byte_letters m)) = m" for m
    by (induction m) (simp_all add: byte_letters_facts(2))
  have "CHR '' '' \<notin> set (concat (map byte_letters m))" for m by (simp add: byte_letters_facts(3))
  then have "takeWhile (\<lambda>c. c \<noteq> CHR '' '') (concat (map byte_letters m) @ CHR '' '' # s) = concat (map byte_letters m)" for m s
    by (subst takeWhile_append2) auto
  then show "bip39_correct words_bip39" by (simp add: bip39_correct_def words_bip39_def dec numeral_eq_Suc)
  have "letters (concat (map byte_letters m))" if "length m = 32" for m
  proof -
    have "m \<noteq> []" "\<forall>b. letters (byte_letters b)" using that byte_letters_facts(1) by auto
    then show ?thesis by (cases m) (auto simp: letters_def)
  qed
  then have "length (concat (map byte_letters m) # replicate 23 ''zoo'') = 24 \<and>
      list_all letters (concat (map byte_letters m) # replicate 23 ''zoo'')" if "length m = 32" for m
    using that by (simp add: list_all_iff letters_def)
  then have "\<exists>ws. length ws = 24 \<and> list_all letters ws \<and>
      join_words (concat (map byte_letters m) # replicate 23 ''zoo'') = join_words ws" if "length m = 32" for m
    using that by blast
  then show "bip39_words words_bip39" by (simp add: bip39_words_def words_bip39_def split: if_split)
qed

lemma word_count_test_applies: "phrase_has_24_words words_bip39 = Ok ()"
  by (rule word_count_test [OF words_bip39_laws])

end
