(* ===== verification/Filum_Fixtures.thy ===== *)
theory Filum_Fixtures
  imports Filum_File_Tests Filum_Known_Answers
begin

text \<open>
  The generator of the cross-language fixtures (\<open>tests/generate_fixtures.rs\<close>). The crates \<open>hex\<close> and
  \<open>serde_json\<close> are parameters: \<open>hx\<close> is \<open>hex::encode\<close>, and \<open>ser\<close> is \<open>serde_json::to_string_pretty\<close> on the three
  fixture types. What the generator prints is not represented.
\<close>

subsection \<open>Definitions\<close>

definition FIXTURE_MASTER_SECRET :: bytes where
  "FIXTURE_MASTER_SECRET = replicate 32 0"

definition FIXTURE_BLOB_ID :: string where
  "FIXTURE_BLOB_ID = ''1f6a7c9e-3b2d-4e8f-a510-6c4d2e0b9a71''"

definition FIXTURE_RECORD_ID :: string where
  "FIXTURE_RECORD_ID = ''8d3e5f10-9a7b-4c2d-b6e4-0f1a2b3c4d5e''"

definition FIXTURE_FIELD_NAME :: string where
  "FIXTURE_FIELD_NAME = ''document-record''"

record BlobFixture =
  bf_note :: string
  bf_blob_id :: string
  bf_plaintext_hex :: string
  bf_framed_hex :: string

record FieldBytes =
  fb_ciphertext_hex :: string
  fb_iv_hex :: string

record MetadataFixture =
  mf_note :: string
  mf_record_id :: string
  mf_field_name :: string
  mf_plaintext_hex :: string
  mf_field :: FieldBytes

record SignatureFixture =
  sf_note :: string
  sf_nonce_hex :: string
  sf_public_key_hex :: string
  sf_signature_hex :: string

datatype fixture = Blob_Fixture BlobFixture | Metadata_Fixture MetadataFixture | Signature_Fixture SignatureFixture

text \<open>\<open>manifest_dir\<close> is \<open>env!("CARGO_MANIFEST_DIR")\<close>.\<close>

definition fixtures_dir :: "string \<Rightarrow> path" where
  "fixtures_dir manifest_dir =
     path_push (path_push (path_push (path_push (path_push (components manifest_dir) ''..'') ''..'') ''Tests'')
       ''FilumCryptoTests'') ''Fixtures''"

text \<open>
  The file a name means to the operating system: \<open>..\<close> leads to the parent of what stands before it (the root
  is its own parent) and \<open>.\<close> nowhere. Directories and symbolic links are not represented, so this needs no
  disk; the files of a disk are listed under their resolved names. The other theories take the names they
  are given to be resolved and compare them by their components.
\<close>

fun resolve_onto :: "path \<Rightarrow> path \<Rightarrow> path" where
  "resolve_onto st [] = rev st"
| "resolve_onto st (ParentDir # p) =
     (case st of
        Normal _ # st' \<Rightarrow> resolve_onto st' p
      | RootDir # _ \<Rightarrow> resolve_onto st p
      | _ \<Rightarrow> resolve_onto (ParentDir # st) p)"
| "resolve_onto st (CurDir # p) = resolve_onto st p"
| "resolve_onto st (c # p) = resolve_onto (c # st) p"

definition resolve :: "path \<Rightarrow> path" where
  "resolve p = resolve_onto [] p"

definition write_json ::
  "(fixture \<Rightarrow> string option) \<Rightarrow> os \<Rightarrow> path \<Rightarrow> fixture \<Rightarrow> ('r world, FilumCryptoError, unit) st" where
  "write_json ser os p v =
     st_bind (st_lift (unwrap (ok_or () (ser v)))) (\<lambda>json.
     st_unwrap (fs_write os (resolve p) (as_bytes (json @ [CHR 0x0A]))))"

text \<open>\<open>std::fs::create_dir_all\<close>: directories are not represented, but the call may fail.\<close>

definition create_dir_all :: "os \<Rightarrow> path \<Rightarrow> ('r world, unit, unit) st" where
  "create_dir_all os dir w =
     (case tick os w of (ev, w1) \<Rightarrow> (case ev of Fault _ \<Rightarrow> (Err (), w1) | Go _ \<Rightarrow> (Ok (), w1)))"

definition blob_fixture :: "(bytes \<Rightarrow> string) \<Rightarrow> bytes \<Rightarrow> bytes \<Rightarrow> fixture" where
  "blob_fixture hx plaintext framed =
     Blob_Fixture \<lparr> bf_note = ''Rust-produced golden. Decrypt with master_secret = [0u8; 32] and the embedded blob_id.'',
       bf_blob_id = FIXTURE_BLOB_ID, bf_plaintext_hex = hx plaintext, bf_framed_hex = hx framed \<rparr>"

definition metadata_fixture :: "(bytes \<Rightarrow> string) \<Rightarrow> bytes \<Rightarrow> EncryptedField \<Rightarrow> fixture" where
  "metadata_fixture hx plaintext field =
     Metadata_Fixture \<lparr> mf_note = ''Rust-produced golden. Decrypt with master_secret = [0u8; 32] and the embedded record_id + field_name.'',
       mf_record_id = FIXTURE_RECORD_ID, mf_field_name = FIXTURE_FIELD_NAME, mf_plaintext_hex = hx plaintext,
       mf_field = \<lparr> fb_ciphertext_hex = hx (ciphertext field), fb_iv_hex = hx (field_iv field) \<rparr> \<rparr>"

definition signature_fixture :: "(bytes \<Rightarrow> string) \<Rightarrow> bytes \<Rightarrow> bytes \<Rightarrow> bytes \<Rightarrow> fixture" where
  "signature_fixture hx nonce public_key signature =
     Signature_Fixture \<lparr> sf_note = ''Rust-produced golden. Ed25519 is deterministic given key+nonce.'',
       sf_nonce_hex = hx nonce, sf_public_key_hex = hx public_key, sf_signature_hex = hx signature \<rparr>"

definition write_blob_fixture ::
  "('e, 'd) aead_lib \<Rightarrow> 'r rng \<Rightarrow> (bytes \<Rightarrow> string) \<Rightarrow> (fixture \<Rightarrow> string option) \<Rightarrow> os \<Rightarrow> path \<Rightarrow> 'sk Vault
     \<Rightarrow> ('r world, FilumCryptoError, unit) st" where
  "write_blob_fixture A R hx ser os dir vault =
     (let blob_plaintext = as_bytes ''filum-crypto v2 blob fixture'' in
      st_bind (with_rng (st_unwrap (Vault_encrypt_blob A R vault blob_plaintext FIXTURE_BLOB_ID))) (\<lambda>framed.
      st_bind (st_lift (unwrap (Vault_decrypt_blob A vault framed FIXTURE_BLOB_ID))) (\<lambda>recovered.
      st_bind (st_lift (assert_that (recovered = blob_plaintext))) (\<lambda>_.
      write_json ser os (path_push dir ''blob_v2.json'') (blob_fixture hx blob_plaintext framed)))))"

definition write_metadata_fixture ::
  "('e, 'd) aead_lib \<Rightarrow> 'r rng \<Rightarrow> (bytes \<Rightarrow> string) \<Rightarrow> (fixture \<Rightarrow> string option) \<Rightarrow> os \<Rightarrow> path \<Rightarrow> 'sk Vault
     \<Rightarrow> ('r world, FilumCryptoError, unit) st" where
  "write_metadata_fixture A R hx ser os dir vault =
     (let field_plaintext = as_bytes ''filum-crypto v2 metadata fixture'' in
      st_bind (with_rng (st_unwrap (Vault_encrypt_metadata_field A R vault field_plaintext FIXTURE_RECORD_ID FIXTURE_FIELD_NAME))) (\<lambda>field.
      st_bind (st_lift (unwrap (Vault_decrypt_metadata_field A vault field FIXTURE_RECORD_ID FIXTURE_FIELD_NAME))) (\<lambda>recovered.
      st_bind (st_lift (assert_that (recovered = field_plaintext))) (\<lambda>_.
      write_json ser os (path_push dir ''metadata_v2.json'') (metadata_fixture hx field_plaintext field)))))"

definition write_signature_fixture ::
  "('sk, 'vk) ed_lib \<Rightarrow> (bytes \<Rightarrow> string) \<Rightarrow> (fixture \<Rightarrow> string option) \<Rightarrow> os \<Rightarrow> path \<Rightarrow> 'sk Vault
     \<Rightarrow> ('r world, FilumCryptoError, unit) st" where
  "write_signature_fixture E hx ser os dir vault =
     (let nonce = replicate 32 0;
          signature = Vault_sign_challenge E vault nonce;
          public_key = Vault_device_public_key E vault in
      st_bind (st_lift (unwrap (verify_signature E public_key nonce (sig_bytes signature)))) (\<lambda>_.
      write_json ser os (path_push dir ''signature_v1.json'') (signature_fixture hx nonce public_key (sig_bytes signature))))"

definition regenerate_fixtures ::
  "('e, 'd) aead_lib \<Rightarrow> 'r rng \<Rightarrow> hkdf \<Rightarrow> ('sk, 'vk) ed_lib \<Rightarrow> 'm bip39_lib \<Rightarrow> (bytes \<Rightarrow> string) \<Rightarrow> (fixture \<Rightarrow> string option)
     \<Rightarrow> os \<Rightarrow> string \<Rightarrow> ('r world, FilumCryptoError, unit) st" where
  "regenerate_fixtures A R H E B hx ser os manifest_dir =
     (let dir = fixtures_dir manifest_dir in
      st_bind (st_unwrap (create_dir_all os dir)) (\<lambda>_.
      st_bind (st_lift (unwrap (Vault_open H E FIXTURE_MASTER_SECRET))) (\<lambda>vault.
      st_bind (write_blob_fixture A R hx ser os dir vault) (\<lambda>_.
      st_bind (write_metadata_fixture A R hx ser os dir vault) (\<lambda>_.
      st_bind (write_signature_fixture E hx ser os dir vault) (\<lambda>_.
      st_lift (
        res_bind (unwrap (secret_to_phrase B FIXTURE_MASTER_SECRET)) (\<lambda>phrase.
        res_bind (unwrap (phrase_to_secret B phrase)) (\<lambda>recovered_secret.
        assert_that (recovered_secret = FIXTURE_MASTER_SECRET))))))))))"

subsection \<open>Paths and files\<close>

text \<open>The file \<open>name\<close> of \<open>Tests/FilumCryptoTests/Fixtures\<close> in the repository at \<open>/repo...\<close>.\<close>

definition fixture_file :: "string list \<Rightarrow> string \<Rightarrow> path" where
  "fixture_file repo name = RootDir # map Normal repo @
     [Normal ''Tests'', Normal ''FilumCryptoTests'', Normal ''Fixtures'', Normal name]"

lemma resolve_onto_snoc: "resolve_onto st (p @ [Normal n]) = resolve_onto st p @ [Normal n]"
  by (induction st p rule: resolve_onto.induct) (simp_all split: list.split component.split)

lemma resolve_snoc: "resolve (p @ [Normal n]) = resolve p @ [Normal n]"
  by (simp add: resolve_def resolve_onto_snoc)

lemma resolve_onto_normal: "resolve_onto st (map Normal ns @ p) = resolve_onto (rev (map Normal ns) @ st) p"
  by (induction ns arbitrary: st) simp_all

text \<open>The two \<open>..\<close> of \<open>fixtures_dir\<close> lead from the crate, two levels down, to the root of the repository.\<close>

lemma fixtures_dir_resolved:
  assumes "components manifest_dir = RootDir # map Normal repo @ [Normal a, Normal b]"
  shows "fixtures_dir manifest_dir \<noteq> []" "resolve (fixtures_dir manifest_dir) @ [Normal n] = fixture_file repo n"
proof -
  have push: "path_push d x = d @ [c]" if "components x = [c]" "c \<noteq> RootDir" "c \<noteq> CurDir" "d \<noteq> []" for d x c
    using that by (simp add: path_push_def)
  have rel: "components ''..'' = [ParentDir]" "components ''Tests'' = [Normal ''Tests'']"
    "components ''FilumCryptoTests'' = [Normal ''FilumCryptoTests'']" "components ''Fixtures'' = [Normal ''Fixtures'']"
    by (simp_all add: components_def component_of_def)
  have "fixtures_dir manifest_dir = RootDir # map Normal repo @
      [Normal a, Normal b, ParentDir, ParentDir, Normal ''Tests'', Normal ''FilumCryptoTests'', Normal ''Fixtures'']"
    by (simp add: fixtures_dir_def push rel assms)
  then show "fixtures_dir manifest_dir \<noteq> []" "resolve (fixtures_dir manifest_dir) @ [Normal n] = fixture_file repo n"
    by (simp_all add: resolve_def resolve_onto_normal fixture_file_def)
qed

lemma fixture_files:
  assumes "dir \<noteq> []"
  shows "path_push dir ''blob_v2.json'' = dir @ [Normal ''blob_v2.json'']"
    "path_push dir ''metadata_v2.json'' = dir @ [Normal ''metadata_v2.json'']"
    "path_push dir ''signature_v1.json'' = dir @ [Normal ''signature_v1.json'']"
  using assms by (simp_all add: path_push_def components_def component_of_def)

lemma create_links:
  assumes "file_create os p w = (Ok wr, w1)" "wf_disk (disk w)" "unlinked (disk w) q" "unlinked (disk w) p"
  shows "unlinked (disk w1) q"
proof -
  have "entries (disk w) r \<noteq> Some (next_ino (disk w))" "Some (next_ino (disk w)) \<noteq> entries (disk w) r" for r
    using assms(2) by (metis less_irrefl wf_disk_def)+
  then show ?thesis
    using file_create_Ok(2,5) [OF assms(1)] assms(3,4) unfolding unlinked_def same_file_def
    by (auto split: if_splits)
qed

lemma fs_write_links:
  assumes "os_ok os" "wf_disk (disk w)" "unlinked (disk w) p" "fs_write os p data w = (Ok (), w')" "unlinked (disk w) q"
  shows "unlinked (disk w') q"
proof -
  obtain r w1 where cr: "file_create os p w = (r, w1)" by (metis surj_pair)
  obtain wr where r: "r = Ok wr" using file_create_cases(3) [OF cr assms(1)] by blast
  obtain r2 wr2 w2 where wd: "write_direct os data (wr, w1) = (r2, wr2, w2)" by (metis surj_pair)
  have "entries (disk w') = entries (disk w1)"
    using assms(4) cr r wd write_direct_cases(1) [OF wd]
    by (auto simp: fs_write_def st_bind_def writes_def touches_def only_node_def split: if_splits)
  then show ?thesis
    using create_links [OF cr [unfolded r] assms(2,5,3)] by (simp add: unlinked_def same_file_def)
qed

text \<open>The serialization of these types (strings and nested strings) does not fail.\<close>

definition serializes :: "(fixture \<Rightarrow> string option) \<Rightarrow> bool" where
  "serializes ser \<longleftrightarrow> (\<forall>v. ser v \<noteq> None)"

text \<open>What a fixture file holds: the serialized value and a newline.\<close>

definition json_file :: "(fixture \<Rightarrow> string option) \<Rightarrow> fixture \<Rightarrow> bytes \<Rightarrow> bool" where
  "json_file ser v data \<longleftrightarrow> (\<exists>json. ser v = Some json \<and> data = as_bytes (json @ [CHR 0x0A]))"

text \<open>A step of the generator that writes one file and leaves the others, and the links, alone.\<close>

definition generated :: "path \<Rightarrow> (bytes \<Rightarrow> bool) \<Rightarrow> 'r world \<Rightarrow> 'r world \<Rightarrow> bool" where
  "generated p holds w w' \<longleftrightarrow> good w' \<and> (\<exists>data. read_path (disk w') p = Some data \<and> holds data) \<and>
     (\<forall>q. q \<noteq> p \<longrightarrow> read_path (disk w') q = read_path (disk w) q) \<and>
     (\<forall>q. unlinked (disk w) q \<longrightarrow> unlinked (disk w') q)"

lemma write_json_spec:
  assumes "os_ok os" "good w" "\<not> part_name (resolve p)" "unlinked (disk w) (resolve p)" "serializes ser"
  obtains w' where "write_json ser os p v w = (Ok (), w')" "generated (resolve p) (json_file ser v) w w'"
proof -
  obtain json where json: "ser v = Some json" using assms(5) by (auto simp: serializes_def)
  obtain w' where w: "fs_write os (resolve p) (as_bytes (json @ [CHR 0x0A])) w = (Ok (), w')" "wrote (resolve p) (as_bytes (json @ [CHR 0x0A])) w w'"
    by (rule fs_write_spec [OF assms(1-4)])
  have "wf_disk (disk w)" using assms(2) by (simp add: good_def)
  with w have "generated (resolve p) (json_file ser v) w w'"
    using fs_write_links [OF assms(1) _ assms(4) w(1)] json by (auto simp: generated_def wrote_def json_file_def)
  then show thesis using that json w(1) by (simp add: write_json_def)
qed

lemmas write_json_in = write_json_spec [where p = "dir @ [Normal n]" for dir n, unfolded resolve_snoc]

subsection \<open>The generator\<close>

lemma fixture_ids:
  "valid_context FIXTURE_BLOB_ID" "valid_context FIXTURE_RECORD_ID" "valid_context FIXTURE_FIELD_NAME"
  "length FIXTURE_RECORD_ID + length FIXTURE_FIELD_NAME \<le> 100"
  by (simp_all add: FIXTURE_BLOB_ID_def FIXTURE_RECORD_ID_def FIXTURE_FIELD_NAME_def valid_context_def)

lemma blob_fixture_written:
  assumes cl: "crates_lawful A R H E B" and os: "os_ok os" and w: "good w" and v: "length (wrap_key v) = 32"
    and p: "dir \<noteq> []" "unlinked (disk w) (resolve dir @ [Normal ''blob_v2.json''])" and ser: "serializes ser"
  obtains framed w' where "write_blob_fixture A R hx ser os dir v w = (Ok (), w')"
    "Vault_decrypt_blob A v framed FIXTURE_BLOB_ID = Ok (as_bytes ''filum-crypto v2 blob fixture'')"
    "generated (resolve dir @ [Normal ''blob_v2.json'']) (json_file ser (blob_fixture hx (as_bytes ''filum-crypto v2 blob fixture'') framed)) w w'"
proof -
  let ?pt = "as_bytes ''filum-crypto v2 blob fixture''" and ?p = "dir @ [Normal ''blob_v2.json'']" and ?q = "resolve dir @ [Normal ''blob_v2.json'']"
  have "length ?pt < 2 ^ 32 * CHUNK_SIZE" by (simp add: CHUNK_SIZE_def)
  then obtain framed g where e: "encrypt_chunked A R ?pt (wrap_key v) FIXTURE_BLOB_ID (rng_state w) = (Ok framed, g)"
    "decrypt_chunked A framed (wrap_key v) FIXTURE_BLOB_ID = Ok ?pt" by (rule blob_sealed [OF cl v fixture_ids(1)])
  have "\<not> part_name ?q" by (rule not_part_name) simp
  then obtain w' where j: "write_json ser os ?p (blob_fixture hx ?pt framed) (w\<lparr> rng_state := g \<rparr>) = (Ok (), w')"
    "generated ?q (json_file ser (blob_fixture hx ?pt framed)) (w\<lparr> rng_state := g \<rparr>) w'"
    by (rule write_json_in [OF os, of "w\<lparr> rng_state := g \<rparr>", rotated]) (use w p(2) ser in simp_all)
  have "write_blob_fixture A R hx ser os dir v w = (Ok (), w')"
    using e j(1) p(1)
    by (simp add: write_blob_fixture_def Vault_encrypt_blob_def Vault_decrypt_blob_def st_bind_def with_rng_def st_unwrap_def
        fixture_files Let_def)
  then show thesis using that e(2) j(2) by (simp add: generated_def Vault_decrypt_blob_def Vault_decrypt_metadata_field_def)
qed

lemma metadata_fixture_written:
  assumes cl: "crates_lawful A R H E B" and os: "os_ok os" and w: "good w" and v: "length (metadata_key v) = 32"
    and p: "dir \<noteq> []" "unlinked (disk w) (resolve dir @ [Normal ''metadata_v2.json''])" and ser: "serializes ser"
  obtains field w' where "write_metadata_fixture A R hx ser os dir v w = (Ok (), w')"
    "Vault_decrypt_metadata_field A v field FIXTURE_RECORD_ID FIXTURE_FIELD_NAME = Ok (as_bytes ''filum-crypto v2 metadata fixture'')"
    "generated (resolve dir @ [Normal ''metadata_v2.json'']) (json_file ser (metadata_fixture hx (as_bytes ''filum-crypto v2 metadata fixture'') field)) w w'"
proof -
  let ?pt = "as_bytes ''filum-crypto v2 metadata fixture''" and ?p = "dir @ [Normal ''metadata_v2.json'']" and ?q = "resolve dir @ [Normal ''metadata_v2.json'']"
  have "length ?pt \<le> 100" by simp
  then obtain field g where e: "encrypt_field A R ?pt (metadata_key v) FIXTURE_RECORD_ID FIXTURE_FIELD_NAME (rng_state w) = (Ok field, g)"
    "decrypt_field A field (metadata_key v) FIXTURE_RECORD_ID FIXTURE_FIELD_NAME = Ok ?pt"
    by (rule field_sealed [OF cl v fixture_ids(2,3) _ fixture_ids(4)])
  have "\<not> part_name ?q" by (rule not_part_name) simp
  then obtain w' where j: "write_json ser os ?p (metadata_fixture hx ?pt field) (w\<lparr> rng_state := g \<rparr>) = (Ok (), w')"
    "generated ?q (json_file ser (metadata_fixture hx ?pt field)) (w\<lparr> rng_state := g \<rparr>) w'"
    by (rule write_json_in [OF os, of "w\<lparr> rng_state := g \<rparr>", rotated]) (use w p(2) ser in simp_all)
  have "write_metadata_fixture A R hx ser os dir v w = (Ok (), w')"
    using e j(1) p(1)
    by (simp add: write_metadata_fixture_def Vault_encrypt_metadata_field_def Vault_decrypt_metadata_field_def st_bind_def with_rng_def st_unwrap_def
        fixture_files Let_def)
  then show thesis using that e(2) j(2) by (simp add: generated_def Vault_decrypt_blob_def Vault_decrypt_metadata_field_def)
qed

lemma fixtures_dir_made:
  assumes "os_ok os" "good w"
  obtains w0 where "st_unwrap (create_dir_all os dir) w = (Ok () :: unit Result, w0)" "good w0" "disk w0 = disk w"
proof -
  obtain k where "os (clock w) = Go k" using assms(1) by (auto simp: os_ok_def)
  then show thesis
    using that [of "w\<lparr> clock := Suc (clock w) \<rparr>"] assms(2) by (simp add: create_dir_all_def st_unwrap_def tick_def good_def)
qed

lemma signature_fixture_written:
  assumes "ed_correct E" and os: "os_ok os" and w: "good w" and v: "wf_vault E v"
    and p: "dir \<noteq> []" "unlinked (disk w) (resolve dir @ [Normal ''signature_v1.json''])" and ser: "serializes ser"
  obtains w' where
    "verify_signature E (Vault_device_public_key E v) (replicate 32 0) (sig_bytes (Vault_sign_challenge E v (replicate 32 0))) = Ok ()"
    "write_signature_fixture E hx ser os dir v w = (Ok (), w')"
    "generated (resolve dir @ [Normal ''signature_v1.json'']) (json_file ser (signature_fixture hx (replicate 32 0)
       (Vault_device_public_key E v) (sig_bytes (Vault_sign_challenge E v (replicate 32 0))))) w w'"
proof -
  let ?f = "signature_fixture hx (replicate 32 0) (Vault_device_public_key E v) (sig_bytes (Vault_sign_challenge E v (replicate 32 0)))"
    and ?p = "dir @ [Normal ''signature_v1.json'']" and ?q = "resolve dir @ [Normal ''signature_v1.json'']"
  obtain seed where "length seed = 32" "signing_key v = signing_key_from_seed E seed" using v by (auto simp: wf_vault_def)
  then have ver: "verify_signature E (Vault_device_public_key E v) (replicate 32 0) (sig_bytes (Vault_sign_challenge E v (replicate 32 0))) = Ok ()"
    using sign_then_verify [OF assms(1)] by (simp add: Vault_device_public_key_def Vault_sign_challenge_def)
  have "\<not> part_name ?q" by (rule not_part_name) simp
  then obtain w' where "write_json ser os ?p ?f w = (Ok (), w')" "generated ?q (json_file ser ?f) w w'"
    by (rule write_json_in [OF os w _ p(2) ser])
  then show thesis using that ver p(1) by (simp add: write_signature_fixture_def fixture_files Let_def)
qed

text \<open>
  C40: the fixture generator. Let the crate lie two directories below the root of the repository (as
  \<open>crates/filum-crypto\<close> does), under an absolute name. Run in an environment in which no call fails, the
  generator passes, whatever is drawn. Afterwards \<open>blob_v2.json\<close> and \<open>metadata_v2.json\<close> of the repository's
  \<open>Tests/FilumCryptoTests/Fixtures\<close> describe a blob and a field that the vault of the all-zero secret opens,
  under the embedded identifiers, to the embedded plaintexts, \<open>signature_v1.json\<close> holds a signature that
  verifies under the embedded public key and is a function of the primitives alone (so it is the same in
  every run), and no other file, by whatever name it is reached, has changed: the frozen \<open>blob_v1.json\<close>
  and \<open>metadata_v1.json\<close> least of all. The three files have no further hard links.
\<close>

theorem fixtures_regenerated:
  assumes "crates_lawful A R H E B" "os_ok os" "good w" "serializes ser"
    and "components manifest_dir = RootDir # map Normal repo @ [Normal a, Normal b]"
    and "\<forall>n \<in> {''blob_v2.json'', ''metadata_v2.json'', ''signature_v1.json''}. unlinked (disk w) (fixture_file repo n)"
  shows "\<exists>v framed field w'. Vault_open H E FIXTURE_MASTER_SECRET = Ok v \<and>
    regenerate_fixtures A R H E B hx ser os manifest_dir w = (Ok (), w') \<and>
    Vault_decrypt_blob A v framed FIXTURE_BLOB_ID = Ok (as_bytes ''filum-crypto v2 blob fixture'') \<and>
    Vault_decrypt_metadata_field A v field FIXTURE_RECORD_ID FIXTURE_FIELD_NAME = Ok (as_bytes ''filum-crypto v2 metadata fixture'') \<and>
    verify_signature E (Vault_device_public_key E v) (replicate 32 0) (sig_bytes (Vault_sign_challenge E v (replicate 32 0))) = Ok () \<and>
    (\<exists>data. read_path (disk w') (fixture_file repo ''blob_v2.json'') = Some data \<and>
       json_file ser (blob_fixture hx (as_bytes ''filum-crypto v2 blob fixture'') framed) data) \<and>
    (\<exists>data. read_path (disk w') (fixture_file repo ''metadata_v2.json'') = Some data \<and>
       json_file ser (metadata_fixture hx (as_bytes ''filum-crypto v2 metadata fixture'') field) data) \<and>
    (\<exists>data. read_path (disk w') (fixture_file repo ''signature_v1.json'') = Some data \<and>
       json_file ser (signature_fixture hx (replicate 32 0) (Vault_device_public_key E v)
         (sig_bytes (Vault_sign_challenge E v (replicate 32 0)))) data) \<and>
    (\<forall>q. resolve q \<notin> fixture_file repo ` {''blob_v2.json'', ''metadata_v2.json'', ''signature_v1.json''} \<longrightarrow>
       read_path (disk w') (resolve q) = read_path (disk w) (resolve q))"
proof -
  let ?dir = "fixtures_dir manifest_dir"
  note dir = fixtures_dir_resolved [OF assms(5)]
  obtain v where v: "Vault_open H E FIXTURE_MASTER_SECRET = Ok v" using Vault_open_succeeds [OF crates_lawfulD(7) [OF assms(1)]] .
  note wf = Vault_open_wf [OF v]
  have len: "length (wrap_key v) = 32" "length (metadata_key v) = 32" using wf by (simp_all add: wf_vault_def)
  obtain w0 where mk: "st_unwrap (create_dir_all os ?dir) w = (Ok () :: unit Result, w0)" and g0: "good w0"
    and d0: "disk w0 = disk w" by (rule fixtures_dir_made [OF assms(2,3)])
  have ul: "unlinked (disk w0) (fixture_file repo ''blob_v2.json'')" "unlinked (disk w0) (fixture_file repo ''metadata_v2.json'')"
    "unlinked (disk w0) (fixture_file repo ''signature_v1.json'')" using assms(6) by (simp_all add: d0)
  obtain framed w1 where b: "write_blob_fixture A R hx ser os ?dir v w0 = (Ok (), w1)"
    "Vault_decrypt_blob A v framed FIXTURE_BLOB_ID = Ok (as_bytes ''filum-crypto v2 blob fixture'')"
    "generated (fixture_file repo ''blob_v2.json'') (json_file ser (blob_fixture hx (as_bytes ''filum-crypto v2 blob fixture'') framed)) w0 w1"
    by (rule blob_fixture_written [OF assms(1,2) g0 len(1) dir(1), unfolded dir(2), OF ul(1) assms(4)])
  have g1: "good w1" "unlinked (disk w1) (fixture_file repo ''metadata_v2.json'')" "unlinked (disk w1) (fixture_file repo ''signature_v1.json'')"
    using b(3) ul by (simp_all add: generated_def)
  obtain field w2 where m: "write_metadata_fixture A R hx ser os ?dir v w1 = (Ok (), w2)"
    "Vault_decrypt_metadata_field A v field FIXTURE_RECORD_ID FIXTURE_FIELD_NAME = Ok (as_bytes ''filum-crypto v2 metadata fixture'')"
    "generated (fixture_file repo ''metadata_v2.json'') (json_file ser (metadata_fixture hx (as_bytes ''filum-crypto v2 metadata fixture'') field)) w1 w2"
    by (rule metadata_fixture_written [OF assms(1,2) g1(1) len(2) dir(1), unfolded dir(2), OF g1(2) assms(4)])
  have g2: "good w2" "unlinked (disk w2) (fixture_file repo ''signature_v1.json'')" using m(3) g1 by (simp_all add: generated_def)
  obtain w3 where s:
    "verify_signature E (Vault_device_public_key E v) (replicate 32 0) (sig_bytes (Vault_sign_challenge E v (replicate 32 0))) = Ok ()"
    "write_signature_fixture E hx ser os ?dir v w2 = (Ok (), w3)"
    "generated (fixture_file repo ''signature_v1.json'') (json_file ser (signature_fixture hx (replicate 32 0)
       (Vault_device_public_key E v) (sig_bytes (Vault_sign_challenge E v (replicate 32 0))))) w2 w3"
    by (rule signature_fixture_written [OF crates_lawfulD(8) [OF assms(1)] assms(2) g2(1) wf dir(1), unfolded dir(2), OF g2(2) assms(4)])
  obtain phrase where "secret_to_phrase B FIXTURE_MASTER_SECRET = Ok phrase" "phrase_to_secret B phrase = Ok FIXTURE_MASTER_SECRET"
    using phrase_roundtrip [OF crates_lawfulD(10) [OF assms(1)], of FIXTURE_MASTER_SECRET] by (auto simp: FIXTURE_MASTER_SECRET_def)
  then have run: "regenerate_fixtures A R H E B hx ser os manifest_dir w = (Ok (), w3)"
    using mk v b(1) m(1) s(2) by (simp add: regenerate_fixtures_def st_bind_def Let_def)
  have distinct: "fixture_file repo n = fixture_file repo n' \<longleftrightarrow> n = n'" for n n' by (simp add: fixture_file_def)
  show ?thesis
    using v run b(2,3) m(2,3) s(1,3) d0
    by (intro exI [of _ v] exI [of _ framed] exI [of _ field] exI [of _ w3]) (simp add: generated_def distinct)
qed

theorem fixtures_regenerated_witness:
  "\<exists>w'. regenerate_fixtures ref_aead ref_rng ref_hkdf ref_ed ref_bip39 hex_string (\<lambda>_. Some ''{}'') calm ''/repo/crates/filum-crypto''
     (one_file []) = (Ok (), w') \<and> read_path (disk w') (fixture_file [''repo''] ''blob_v2.json'') \<noteq> None"
proof -
  have manifest: "components ''/repo/crates/filum-crypto'' =
      RootDir # map Normal [''repo''] @ [Normal ''crates'', Normal ''filum-crypto'']"
    by (simp add: components_def component_of_def)
  have "fixture_file [''repo''] n \<noteq> in_path" for n by (simp add: fixture_file_def in_path_def)
  then have "unlinked (disk (one_file [])) (fixture_file [''repo''] n)" for n
    by (auto simp: unlinked_def same_file_def one_file_def)
  then have ul: "\<forall>n \<in> {''blob_v2.json'', ''metadata_v2.json'', ''signature_v1.json''}.
      unlinked (disk (one_file [])) (fixture_file [''repo''] n)" by blast
  have ser: "serializes (\<lambda>_. Some ''{}'')" by (simp add: serializes_def)
  from fixtures_regenerated [OF ref_crates_lawful calm_ok one_file_good ser manifest ul, of hex_string]
  show ?thesis by (elim exE conjE) auto
qed

subsection \<open>The frozen fixture of format v1\<close>

text \<open>The \<open>framed_hex\<close> of \<open>Fixtures/blob_v1.json\<close>, as committed.\<close>

definition blob_v1_framed_hex :: string where
  "blob_v1_framed_hex = ''01e6941cd6e897c6160d1550ec1940f77e37409e3f9937f54ceda2cab7a87d578cef2961d3bbc400968e56b6cdc8ff0b15cac5b096165e15c6a75c49a36755b8e6bfad6d00100000dca56a1032c7c46010b820f32cd7fd585e965e45e0f4c7a89a5adf057e3cc6ff88840d0312460c04a85ffe3c''"

text \<open>
  The committed v1 blob is refused whatever the key, the identifier and the primitives: its version byte
  is 1.
\<close>

theorem frozen_v1_blob_rejected:
  "\<exists>framed. hex_decode blob_v1_framed_hex = Ok framed \<and> length framed = 116 \<and>
     decrypt_chunked A framed key i = Err (if valid_context i then Aead else InvalidContext)"
proof -
  define f :: bytes where "f = [0x01, 0xe6, 0x94, 0x1c, 0xd6, 0xe8, 0x97, 0xc6, 0x16, 0x0d, 0x15, 0x50, 0xec, 0x19, 0x40, 0xf7, 0x7e, 0x37,
    0x40, 0x9e, 0x3f, 0x99, 0x37, 0xf5, 0x4c, 0xed, 0xa2, 0xca, 0xb7, 0xa8, 0x7d, 0x57, 0x8c, 0xef, 0x29, 0x61,
    0xd3, 0xbb, 0xc4, 0x00, 0x96, 0x8e, 0x56, 0xb6, 0xcd, 0xc8, 0xff, 0x0b, 0x15, 0xca, 0xc5, 0xb0, 0x96, 0x16,
    0x5e, 0x15, 0xc6, 0xa7, 0x5c, 0x49, 0xa3, 0x67, 0x55, 0xb8, 0xe6, 0xbf, 0xad, 0x6d, 0x00, 0x10, 0x00, 0x00,
    0xdc, 0xa5, 0x6a, 0x10, 0x32, 0xc7, 0xc4, 0x60, 0x10, 0xb8, 0x20, 0xf3, 0x2c, 0xd7, 0xfd, 0x58, 0x5e, 0x96,
    0x5e, 0x45, 0xe0, 0xf4, 0xc7, 0xa8, 0x9a, 0x5a, 0xdf, 0x05, 0x7e, 0x3c, 0xc6, 0xff, 0x88, 0x84, 0x0d, 0x03,
    0x12, 0x46, 0x0c, 0x04, 0xa8, 0x5f, 0xfe, 0x3c]"
  have h: "hex_decode blob_v1_framed_hex = Ok f"
    unfolding blob_v1_framed_hex_def f_def by (rule hex_parsed) code_simp
  have "length f = 116" "hd f = 1" by (simp_all add: f_def)
  then have "decrypt_chunked A f key i = Err (if valid_context i then Aead else InvalidContext)"
    by (simp add: decrypt_chunked_eq decrypt_chunked_errors VERSION_def)
  then show ?thesis using h \<open>length f = 116\<close> by blast
qed

end
