(* ===== verification/Spec2Isabelle.thy ===== *)
theory Spec2Isabelle
  imports Filum_File_Guarantees Filum_Ffi Filum_Concurrent_Guarantees Filum_Memory Filum_Session Filum_Lifetime
    Filum_Fixtures
begin

text \<open>
  \<^bold>\<open>Verification of filum-crypto.\<close>

  The program. \<open>filum-crypto\<close> is the client-side encryption core of a file-storage application. A vault is
  opened from a 32-byte master secret or from the recovery phrase that encodes it; it derives three
  subkeys and offers blob encryption (in memory and file to file), metadata-field encryption and
  device signatures. A second crate, \<open>filum-crypto-uniffi\<close>, exports all of it over an FFI. The code
  lies on top of third-party crates for AES-GCM and STREAM, HKDF, Ed25519, BIP39 and the operating
  system's random source, and of the Rust standard library for paths and files.

  \<^bold>\<open>Theories and the sources they model.\<close>

  \<^item> \<open>Filum_Prelude\<close>: machine bytes, results with a panic as a value of its own (\<open>outcome\<close>), state passing,
    the slice and integer primitives of the standard library with their panics, big-endian
    encodings; the locales \<open>self_delimiting\<close> and \<open>fixed_width_codec\<close>; transition systems with an
    invariant and with a measure (locales \<open>inductive_invariant\<close> and \<open>terminating_system\<close>).
  \<^item> \<open>Filum_Error\<close>: \<open>error.rs\<close>.
  \<^item> \<open>Filum_Crates\<close>: the third-party crates as parameters, one record of operations per crate, and the
    documented laws the theorems name as hypotheses. Nothing is defined for the crates.
  \<^item> \<open>Filum_Instances\<close>: small concrete instances of the parameters for which the laws are proved, so that
    every hypothesis is known to be satisfiable and every theorem can be applied.
  \<^item> \<open>Filum_Aad\<close>: \<open>aad.rs\<close>, the three AAD constructors; length-prefixed strings are an interpretation of
    \<open>self_delimiting\<close>.
  \<^item> \<open>Filum_Sealed\<close>: the contract of an encrypted box bound to a context (locale \<open>sealed_box\<close>): round trip,
    exact errors, no panic, and what acceptance in another context or under another key implies.
    It is interpreted on the blob codec (\<open>blob_box\<close>) and on the field codec (\<open>field_box\<close>).
  \<^item> \<open>Filum_Blob\<close>: the in-memory half of \<open>blob.rs\<close>: key wrapping, header, \<open>encrypt_chunked\<close> and \<open>decrypt_chunked\<close>, and
    reference definitions without loops (\<open>seal_segments\<close>, \<open>open_segments\<close>, \<open>full_parts\<close>, \<open>last_part\<close>) the loops are
    proved equal to. \<open>Filum_Blob_Guarantees\<close> states what callers may rely on.
  \<^item> \<open>Filum_Fs\<close>: \<open>std::path\<close>, \<open>std::fs\<close> and \<open>std::io\<close> as the file codecs use them. A world holds the state of the
    random source, the disk (names, nodes, bytes, a mark for stable storage), the history of all
    disk states, and a clock. An environment \<open>os\<close> decides for the n-th call whether it fails, how
    many bytes a read returns and how much of a buffer is handed over. \<open>BufReader\<close> and \<open>BufWriter\<close> are
    modelled with their buffers: read-ahead, the bypass for large requests, the write back at a full
    buffer, at \<open>flush\<close> and at drop.
  \<^item> \<open>Filum_Blob_File\<close>: the file half of \<open>blob.rs\<close>: \<open>read_full\<close>, the streaming loop, \<open>encrypt_file_chunked\<close>, \<open>TempCleanup\<close>,
    \<open>sibling_temp_path\<close>, \<open>decrypt_file_chunked\<close>. \<open>Filum_Decrypt_File\<close> has the proofs about the temporary file, the
    rename and the cleanup; \<open>Filum_File_Guarantees\<close> states what callers may rely on;
    \<open>Filum_File_Termination\<close> shows that both codecs return on every disk and in every environment.
  \<^item> \<open>Filum_Process\<close>: \<open>decrypt_file_chunked\<close> as a state machine, a record of its arguments and local variables
    with a phase per statement that calls the standard library; the machine is proved to be the
    function. \<open>Filum_Memory\<close>: the bytes a call holds at every moment.
  \<^item> \<open>Filum_Concurrent\<close>, \<open>Filum_Concurrent_Safety\<close>, \<open>Filum_Concurrent_Guarantees\<close>: any number of calls of
    \<open>decrypt_file_chunked\<close> interleaved step by step over one file system. The first theory has the step
    relation and what one step of a call does, the second the invariant of the system and its
    preservation, the third what callers may rely on, through an interpretation of
    \<open>terminating_system\<close>. Runs are those in which no temporary name is drawn that is in use.
  \<^item> \<open>Filum_Metadata\<close>, \<open>Filum_Kdf\<close>, \<open>Filum_Auth\<close>, \<open>Filum_Recovery\<close>: \<open>metadata.rs\<close>, \<open>kdf.rs\<close>, \<open>auth.rs\<close>, \<open>recovery.rs\<close>.
  \<^item> \<open>Filum_Vault\<close>: \<open>vault.rs\<close>, the record of subkeys and its methods.
  \<^item> \<open>Filum_Session\<close>: histories of vault operations against a storage and a backend that may present
    anything (inductive predicate \<open>session\<close>), and the ideal box they refine (\<open>ideal\<close>).
  \<^item> \<open>Filum_Ffi\<close>: \<open>filum-crypto-uniffi/src/lib.rs\<close>, the FFI types, their conversions and the wrappers,
    and which errors they return when.
  \<^item> \<open>Filum_Secrets\<close>, \<open>Filum_Data_Keys\<close>: the operations of \<open>recovery.rs\<close>, \<open>vault.rs\<close>, the binding layer and \<open>blob.rs\<close> that
    handle master secrets, phrases and keys, on a memory of buffers with the scopes of \<open>Zeroizing\<close>; each is
    proved to return what the operation above returns. \<open>Filum_Lifetime\<close>: the methods of a vault on its
    buffers and any number of uses between opening and dropping it. The place of the random source in a state is
    the locale \<open>state_part\<close>.
  \<^item> \<open>Filum_Tests\<close>, \<open>Filum_Known_Answers\<close>, \<open>Filum_Blob_Tests\<close>, \<open>Filum_File_Tests\<close>: the unit tests of the modules as definitions with
    the names they have in the source, and when they pass. The names of temporary files and
    directories come from the \<open>tempfile\<close> crate and are a parameter.
  \<^item> \<open>Filum_Fixtures\<close>: \<open>tests/generate_fixtures.rs\<close>, the generator of the fixtures of the Swift tests, over
    parameters for the \<open>hex\<close> and \<open>serde_json\<close> crates, with the \<open>..\<close> of its output directory resolved (\<open>resolve\<close>);
    and the committed blob of format v1.

  \<^bold>\<open>What is shown.\<close> Round trips: blobs, files, fields, recovery phrases, signatures, and whole vaults
  recovered from their phrase. Equivalence: the file encoder writes byte for byte what the in-memory
  encoder returns, for every pattern of short reads; the loops compute the STREAM of the chunks.
  Authenticity: what a decoder accepts is a sealed blob (an output of the encoder, or one whose last
  segment is full, which no encoder emits), and a transplanted or tampered box is accepted only together with an explicit acceptance of AES-GCM under different associated
  data. Unforgeability itself is a probabilistic property of AES-GCM and is not assumed (as a
  universal statement it would be false). Composition: in a session of any length in which the
  primitives happen to accept nothing but what they made, and no data key is drawn twice, all vault
  operations together behave like an ideal box, whatever the storage does; that an older blob of the
  same identifier still opens is part of that specification. Robustness: exact errors on every branch and of every
  exported function, no panic on any input, no change of files when decryption fails (but for one new
  temporary file if a system call failed), and atomicity of the output at every moment of a run.
  Concurrency: interleaved decryptions, to the same destination too, never expose anything but complete
  authenticated plaintexts, end, and leave no temporary file. Memory: a call holds a constant number of
  bytes whatever the blob claims. Secrets: master secrets handed in over the FFI are wiped on every path,
  an open vault holds the only subkeys throughout its life, and no data key survives a call of any codec.
  Tests: all 67 unit tests are run on the model, for all random
  draws and all lawful primitives; those that ask for a refusal or a known answer are reduced to what
  they ask of AES-GCM, STREAM or HKDF. The fixture generator succeeds and writes what its readers need.
  Five theorems record behaviour that callers may not expect: the two decoders disagree on a full
  last segment, they report a truncated header differently, encrypting a file onto itself
  destroys it, decryption to a file holds two ciphertext chunks where a comment says one, and copies of
  a master secret in plain arrays outlive the calls that hand it out.

  \<^bold>\<open>Bounds and termination.\<close> All loops over memory are structural or have a measure. The streaming loop
  of the file codecs is a partial function whose value is \<open>None\<close> if it does not return; that it
  returns is part of every theorem about it, by induction on the bytes left to read, and holds without
  any hypothesis (\<open>file_codecs_terminate\<close>). Interleaved calls end by a measure on the bytes left and the
  phase. No fuel is used. Lengths are natural numbers; \<open>usize\<close> is taken to be wide enough for the sizes at hand, and
  the 32-bit limits the code checks or relies on (identifier lengths, the segment counter, the
  chunk size field) are explicit.

  \<^bold>\<open>Not represented.\<close> Copies of secrets in temporaries, registers and the objects of the crates, capacity hints, retries of
  interrupted system calls inside the standard library, directories and permissions (any call may fail
  instead), symbolic links and the resolution of \<open>..\<close> in the names that callers pass (names are compared by
  their components; the fixture generator, whose name has such components, resolves them), timing, and the modification of files by anything but the calls themselves. Concurrent
  encryptions have no guarantee worth stating, since \<open>encrypt_file_chunked\<close> writes its output in place.
  Generated bindings, the interface definition, build scripts and the Swift package are not modelled:
  they are generated, declare what \<open>uniffi\<close> generates, or are written in another language. The crate root
  only re-exports names.
\<close>

subsection \<open>The whole system\<close>

lemma sample_paths: "components ''/in'' = in_path" "components ''/out'' = out_path" "components ''/back'' = back_path"
  by (simp_all add: components_def component_of_def in_path_def out_path_def back_path_def)

text \<open>
  C6: files survive the loss of a device. A file encrypted through the FFI with a vault (in any
  environment, if the call returned \<open>Ok\<close>) into a blob that is not the file itself is restored byte for
  byte by a vault opened later, through the FFI, from nothing but the recovery phrase of the master
  secret, in an environment in which no call fails and the random source works (and the temporary name it
  yields is not in use), to any destination with a file name.
\<close>

theorem recovered_vault_restores_files:
  assumes "bip39_correct B" "gcm_correct A" "stream_correct A" "stream_tag16 A" "stream_min16 A"
    and "Ffi_Vault_open H E secret = Ok fv"
    and "wf_disk (disk w)" "read_path (disk w) (components src) = Some pt"
    and "\<not> same_file (disk w) (components src) (components blob)"
    and "Ffi_Vault_encrypt_file_to_blob A R os fv src blob i w = Some (Ok (), w1)"
    and "os_ok os'" "rng_available R" "file_name (components dst) \<noteq> None" "temp_free R (components dst) w1"
  shows "\<exists>phrase fv' w2. ffi_secret_to_phrase B secret = Ok phrase \<and>
    Ffi_Vault_from_recovery_phrase B H E phrase = Ok fv' \<and>
    Ffi_Vault_decrypt_blob_to_file A R os' fv' blob dst i w1 = Some (Ok (), w2) \<and>
    read_path (disk w2) (components dst) = Some pt"
proof -
  obtain v where v: "length secret = 32" "Vault_open H E secret = Ok v" "fv = \<lparr> inner = v \<rparr>"
    using assms(6) by (auto simp: Ffi_Vault_open_Ok)
  obtain phrase where ph: "secret_to_phrase B secret = Ok phrase" "Vault_from_recovery_phrase B H E phrase = Ok v"
    using Vault_from_phrase [OF assms(1) v(1)] v(2) by metis
  have len: "length (wrap_key v) = 32" using Vault_open_wf [OF v(2)] by (simp add: wf_vault_def)
  have "encrypt_file_chunked A R os (components src) (components blob) (wrap_key v) i w = Some (Ok (), w1)"
    using assms(10) v(3)
    by (auto simp: Ffi_Vault_encrypt_file_to_blob_def Vault_encrypt_file_to_blob_def io_map_err_def)
  from encrypt_then_decrypt_file [OF assms(2-5) len assms(7-9) this assms(11,12) wf_path_components assms(13,14)]
  obtain w2 where "decrypt_file_chunked A R os' (components blob) (components dst) (wrap_key v) i w1 = Some (Ok (), w2)"
    "read_path (disk w2) (components dst) = Some pt" by blast
  then show ?thesis
    using ph v(1)
    by (simp add: ffi_secret_to_phrase_def vec_to_secret_array_eq Ffi_Vault_from_recovery_phrase_def
        Ffi_Vault_decrypt_blob_to_file_def Vault_decrypt_blob_to_file_def io_map_err_def)
qed

theorem recovered_vault_restores_files_witness:
  "\<exists>fv w1 phrase fv' w2. Ffi_Vault_open ref_hkdf ref_ed (replicate 32 4) = Ok fv \<and>
    Ffi_Vault_encrypt_file_to_blob ref_aead ref_rng calm fv ''/in'' ''/out'' ''ab'' (one_file [1, 2, 3]) = Some (Ok (), w1) \<and>
    ffi_secret_to_phrase ref_bip39 (replicate 32 4) = Ok phrase \<and>
    Ffi_Vault_from_recovery_phrase ref_bip39 ref_hkdf ref_ed phrase = Ok fv' \<and>
    Ffi_Vault_decrypt_blob_to_file ref_aead ref_rng calm fv' ''/out'' ''/back'' ''ab'' w1 = Some (Ok (), w2) \<and>
    read_path (disk w2) back_path = Some [1, 2, 3]"
proof (rule Vault_open_succeeds [OF ref_hkdf_limit, of ref_ed "replicate 32 4"])
  fix v
  assume v: "Vault_open ref_hkdf ref_ed (replicate 32 4) = Ok v"
  then have fv: "Ffi_Vault_open ref_hkdf ref_ed (replicate 32 4) = Ok \<lparr> inner = v \<rparr>" by (simp add: Ffi_Vault_open_Ok)
  have len: "length (wrap_key v) = 32" using Vault_open_wf [OF v] by (simp add: wf_vault_def)
  show ?thesis
  proof (rule sample_file_encrypted [OF len])
    fix w1
    assume "encrypt_file_chunked ref_aead ref_rng calm in_path out_path (wrap_key v) ''ab'' (one_file [1, 2, 3]) = Some (Ok (), w1)"
      and tf: "temp_free ref_rng back_path w1"
    then have enc: "Ffi_Vault_encrypt_file_to_blob ref_aead ref_rng calm \<lparr> inner = v \<rparr> ''/in'' ''/out'' ''ab'' (one_file [1, 2, 3]) =
        Some (Ok (), w1)"
      by (simp add: Ffi_Vault_encrypt_file_to_blob_def Vault_encrypt_file_to_blob_def io_map_err_def sample_paths)
    note files = one_file_facts(1) one_file_facts(2,4) [folded sample_paths]
    from recovered_vault_restores_files [OF ref_bip39_correct ref_gcm_laws(1) ref_stream_laws(1,3,5) fv files enc calm_ok
        ref_rng_available back_path_facts(2) [folded sample_paths] tf [folded sample_paths]] fv enc
    show ?thesis unfolding sample_paths by blast
  qed
qed

end
